(* ===== verification/Prelude.thy ===== *)
theory Prelude
  imports Main "HOL-Library.Word"
begin

text \<open>
  Shared vocabulary of the development: the machine integers of the Rust sources, Rust's
  \<open>Result\<close> with its \<open>?\<close> operator, panics, slices, and the little-endian integer codecs
  \<open>to_le_bytes\<close> / \<open>from_le_bytes\<close>, stated once as a locale of fixed-width codecs and
  interpreted at the three widths the program uses.
\<close>

unbundle bit_operations_syntax

named_theorems le_eval \<open>evaluation of byte codecs on constants\<close>
named_theorems le_simps \<open>facts about little-endian byte codecs\<close>

section \<open>Machine integers and results\<close>

type_synonym u8 = "8 word"
type_synonym u16 = "16 word"
type_synonym u32 = "32 word"
type_synonym u64 = "64 word"

text \<open>
  A signed machine integer is the word of its two's complement bits, read by \<open>sint\<close>; an
  \<open>f64\<close> is its IEEE bit pattern (\<open>to_bits\<close> and \<open>from_bits\<close> are then the identity).
\<close>

type_synonym i32 = "32 word"
type_synonym i64 = "64 word"
type_synonym f64 = "64 word"

text \<open>\<open>Result<T, E>\<close> is \<open>'e + 'a\<close> with \<open>Inl\<close> for \<open>Err\<close>; \<open>and_then\<close> is the \<open>?\<close> operator.\<close>

definition and_then :: "'e + 'a \<Rightarrow> ('a \<Rightarrow> 'e + 'b) \<Rightarrow> 'e + 'b" where
  "and_then m f = (case m of Inl e \<Rightarrow> Inl e | Inr a \<Rightarrow> f a)"

definition map_err :: "('e \<Rightarrow> 'f) \<Rightarrow> 'e + 'a \<Rightarrow> 'f + 'a" where
  "map_err g m = (case m of Inl e \<Rightarrow> Inl (g e) | Inr a \<Rightarrow> Inr a)"

definition ok_or :: "'e \<Rightarrow> 'a option \<Rightarrow> 'e + 'a" where
  "ok_or e x = (case x of None \<Rightarrow> Inl e | Some a \<Rightarrow> Inr a)"

lemma and_then_simps [simp]:
  "and_then (Inl e) f = Inl e"
  "and_then (Inr a) f = f a"
  by (simp_all add: and_then_def)

lemma map_err_simps [simp]:
  "map_err g (Inl e) = Inl (g e)"
  "map_err g (Inr a) = Inr a"
  by (simp_all add: map_err_def)

lemma ok_or_simps [simp]:
  "ok_or e None = Inl e"
  "ok_or e (Some a) = Inr a"
  by (simp_all add: ok_or_def)

lemma and_then_cong [fundef_cong]:
  "m = m' \<Longrightarrow> (\<And>a. m' = Inr a \<Longrightarrow> f a = f' a) \<Longrightarrow> and_then m f = and_then m' f'"
  by (cases m') (auto simp: and_then_def)

lemma and_then_Inr:
  "and_then m f = Inr b \<longleftrightarrow> (\<exists>a. m = Inr a \<and> f a = Inr b)"
  by (cases m) auto

lemma and_then_Inl:
  "and_then m f = Inl e \<longleftrightarrow> m = Inl e \<or> (\<exists>a. m = Inr a \<and> f a = Inl e)"
  by (cases m) auto

lemma map_err_Inr [simp]: "map_err g m = Inr a \<longleftrightarrow> m = Inr a"
  by (cases m) auto

lemma and_then_assoc: "and_then (and_then m f) g = and_then m (\<lambda>a. and_then (f a) g)"
  by (cases m) auto

text \<open>A panic (an index out of bounds, a failed \<open>expect\<close>) is a value of its own.\<close>

datatype 'a outcome = Panicked | Returned 'a

section \<open>Slices\<close>

text \<open>\<open>xs[i..j]\<close>, where the range is known to be inside \<open>xs\<close>.\<close>

definition slice :: "nat \<Rightarrow> nat \<Rightarrow> 'a list \<Rightarrow> 'a list" where
  "slice i j xs = take (j - i) (drop i xs)"

text \<open>\<open>xs.get(i..j)\<close>: \<open>None\<close> when the range is not inside \<open>xs\<close>.\<close>

definition get_range :: "nat \<Rightarrow> nat \<Rightarrow> 'a list \<Rightarrow> 'a list option" where
  "get_range i j xs = (if i \<le> j \<and> j \<le> length xs then Some (slice i j xs) else None)"

text \<open>\<open>xs.get(i)\<close>.\<close>

definition get_at :: "nat \<Rightarrow> 'a list \<Rightarrow> 'a option" where
  "get_at i xs = (if i < length xs then Some (xs ! i) else None)"

lemma length_slice [simp]: "i \<le> j \<Longrightarrow> j \<le> length xs \<Longrightarrow> length (slice i j xs) = j - i"
  by (simp add: slice_def)

lemma slice_append_left [simp]: "j \<le> length xs \<Longrightarrow> slice i j (xs @ ys) = slice i j xs"
  by (cases "i \<le> j") (simp_all add: slice_def)

lemma slice_append_mid:
  "length xs = i \<Longrightarrow> j = i + length ys \<Longrightarrow> slice i j (xs @ ys @ zs) = ys"
  by (simp add: slice_def)

lemma slice_append_take: "i \<le> j \<Longrightarrow> take i xs @ slice i j xs = take j xs"
  unfolding slice_def by (metis le_add_diff_inverse take_add)

lemma get_range_Some:
  "get_range i j xs = Some ys \<longleftrightarrow> i \<le> j \<and> j \<le> length xs \<and> ys = slice i j xs"
  by (auto simp: get_range_def)

lemma get_at_Some: "get_at i xs = Some x \<longleftrightarrow> i < length xs \<and> x = xs ! i"
  by (auto simp: get_at_def)

section \<open>Little-endian codecs\<close>

fun le_bytes :: "nat \<Rightarrow> 'a::len word \<Rightarrow> u8 list" where
  "le_bytes 0 w = []"
| "le_bytes (Suc n) w = ucast w # le_bytes n (drop_bit 8 w)"

fun from_le :: "u8 list \<Rightarrow> 'a::len word" where
  "from_le [] = 0"
| "from_le (b # bs) = ucast b OR push_bit 8 (from_le bs)"

lemma length_le_bytes [simp]: "length (le_bytes n w) = n"
  by (induction n arbitrary: w) auto

lemma bit_from_le_bytes:
  "bit (from_le (le_bytes n w) :: 'a::len word) i \<longleftrightarrow> i < 8 * n \<and> bit (w :: 'a word) i"
proof (induction n arbitrary: w i)
  case 0
  then show ?case by simp
next
  case (Suc n)
  show ?case
  proof (cases "i < 8")
    case True
    then show ?thesis
      by (auto simp: bit_simps dest: bit_imp_le_length)
  next
    case False
    then have "8 \<le> i" by simp
    then show ?thesis
      by (auto simp: bit_simps Suc.IH dest: bit_imp_le_length)
  qed
qed

lemma from_le_bytes:
  assumes "LENGTH('a::len) \<le> 8 * n"
  shows "from_le (le_bytes n w) = (w :: 'a word)"
proof (rule bit_word_eqI)
  fix i
  assume "i < LENGTH('a)"
  with assms show "bit (from_le (le_bytes n w) :: 'a word) i = bit w i"
    by (simp add: bit_from_le_bytes)
qed

lemma drop_bit_from_le:
  assumes "8 * Suc (length bs) \<le> LENGTH('a::len)"
  shows "drop_bit 8 (from_le (b # bs) :: 'a word) = from_le bs"
proof (rule bit_word_eqI)
  fix i
  assume i: "i < LENGTH('a)"
  have hi: "\<not> bit (from_le bs :: 'a word) k" if "8 * length bs \<le> k" for k
    using that
  proof (induction bs arbitrary: k)
    case Nil
    then show ?case by simp
  next
    case (Cons c cs)
    then have "\<not> bit (c :: u8) k" "\<not> bit (from_le cs :: 'a word) (k - 8)"
      by (auto dest: bit_imp_le_length)
    then show ?case by (simp add: bit_simps)
  qed
  show "bit (drop_bit 8 (from_le (b # bs) :: 'a word)) i = bit (from_le bs :: 'a word) i"
    using assms i hi[of i] by (auto simp: bit_simps dest: bit_imp_le_length)
qed

lemma ucast_from_le_Cons:
  assumes "8 \<le> LENGTH('a::len)"
  shows "ucast (from_le (b # bs) :: 'a word) = (b :: u8)"
  by (rule bit_word_eqI) (use assms in \<open>auto simp: bit_simps\<close>)

lemma le_bytes_from_le:
  assumes "8 * n \<le> LENGTH('a::len)" and "length bs = n"
  shows "le_bytes n (from_le bs :: 'a word) = bs"
  using assms
proof (induction bs arbitrary: n)
  case Nil
  then show ?case by simp
next
  case (Cons b bs)
  then obtain m where m: "n = Suc m" by (cases n) auto
  with Cons show ?case
    by (simp del: from_le.simps add: drop_bit_from_le ucast_from_le_Cons)
qed

text \<open>
  What every client of an integer codec relies on: a fixed width and two inverse laws. The
  lemmas of the locale are the ones the decoders use, on a field in the middle of a buffer.
\<close>

locale fixed_codec =
  fixes enc :: "'a \<Rightarrow> u8 list"
    and dec :: "u8 list \<Rightarrow> 'a"
    and width :: nat
  assumes length_enc: "length (enc x) = width"
    and dec_enc: "dec (enc x) = x"
    and enc_dec: "length bs = width \<Longrightarrow> enc (dec bs) = bs"
begin

lemma enc_inject: "enc x = enc y \<longleftrightarrow> x = y"
  by (metis dec_enc)

lemma dec_slice: "length xs = i \<Longrightarrow> j = i + width \<Longrightarrow> dec (slice i j (xs @ enc x @ ys)) = x"
  by (simp add: slice_append_mid length_enc dec_enc)

lemma enc_append_inject: "enc x @ xs = enc y @ ys \<longleftrightarrow> x = y \<and> xs = ys"
  by (auto simp: length_enc enc_inject)

lemma enc_slice:
  "i + width \<le> length bs \<Longrightarrow> take i bs @ enc (dec (slice i (i + width) bs)) = take (i + width) bs"
  by (simp add: enc_dec slice_append_take)

end

abbreviation u16_bytes :: "u16 \<Rightarrow> u8 list" where "u16_bytes \<equiv> le_bytes 2"
abbreviation u32_bytes :: "u32 \<Rightarrow> u8 list" where "u32_bytes \<equiv> le_bytes 4"
abbreviation u64_bytes :: "u64 \<Rightarrow> u8 list" where "u64_bytes \<equiv> le_bytes 8"

interpretation le16: fixed_codec u16_bytes from_le 2
  by unfold_locales (simp_all add: from_le_bytes le_bytes_from_le)

interpretation le32: fixed_codec u32_bytes from_le 4
  by unfold_locales (simp_all add: from_le_bytes le_bytes_from_le)

interpretation le64: fixed_codec u64_bytes from_le 8
  by unfold_locales (simp_all add: from_le_bytes le_bytes_from_le)

text \<open>Evaluation of the codecs on constants.\<close>

lemma le_bytes_eval [le_eval]:
  "u16_bytes v = [ucast v, ucast (drop_bit 8 v)]"
  "u32_bytes w = [ucast w, ucast (drop_bit 8 w), ucast (drop_bit 16 w), ucast (drop_bit 24 w)]"
  "u64_bytes x = [ucast x, ucast (drop_bit 8 x), ucast (drop_bit 16 x), ucast (drop_bit 24 x),
     ucast (drop_bit 32 x), ucast (drop_bit 40 x), ucast (drop_bit 48 x), ucast (drop_bit 56 x)]"
  by (simp_all add: numeral_eq_Suc)

lemmas le_codec [le_simps] =
  le16.dec_enc le32.dec_enc le64.dec_enc le16.length_enc le32.length_enc le64.length_enc

end
