(* ===== verification/Rust_Str.thy ===== *)
theory Rust_Str
  imports Prelude
begin

text \<open>
  Rust's \<open>str\<close>. A string is the sequence of its UTF-8 bytes, each one a HOL character
  code, so \<open>length\<close> is \<open>str::len\<close>; a Rust \<open>char\<close> is the string of its one to
  four bytes. Modelled here: \<open>as_bytes\<close>, \<open>from_utf8\<close>, \<open>chars\<close>, the trimming
  functions and the \<open>Display\<close> of integers. That a byte sequence is well-formed UTF-8 is
  \<open>utf8_valid\<close>, the check of \<open>core::str::from_utf8\<close>.
\<close>

section \<open>Bytes and UTF-8\<close>

definition as_bytes :: "string \<Rightarrow> u8 list" where
  "as_bytes s = map of_char s"

definition string_of_bytes :: "u8 list \<Rightarrow> string" where
  "string_of_bytes bs = map (\<lambda>b. char_of (unat b)) bs"

lemma unat_of_char: "unat (of_char c :: u8) = of_char c"
  by (simp flip: of_nat_of_char [where 'a = u8] add: unat_of_nat)

lemma char_of_unat_of_char [simp]: "char_of (unat (of_char c :: u8)) = c"
  by (simp add: unat_of_char)

lemma of_char_char_of_unat [simp]: "(of_char (char_of (unat b)) :: u8) = b"
proof -
  have "unat b < 2 ^ LENGTH(8)" by (rule unsigned_less)
  then show ?thesis by (simp add: word_unat_eq_iff unat_of_char)
qed

lemma string_of_bytes_as_bytes [simp]: "string_of_bytes (as_bytes s) = s"
  by (simp add: as_bytes_def string_of_bytes_def comp_def)

lemma as_bytes_string_of_bytes [simp]: "as_bytes (string_of_bytes bs) = bs"
  by (simp add: as_bytes_def string_of_bytes_def comp_def)

lemma length_as_bytes [simp]: "length (as_bytes s) = length s"
  by (simp add: as_bytes_def)

lemma length_string_of_bytes [simp]: "length (string_of_bytes bs) = length bs"
  by (simp add: string_of_bytes_def)

definition utf8_cont :: "u8 \<Rightarrow> bool" where
  "utf8_cont b \<longleftrightarrow> 0x80 \<le> b \<and> b \<le> 0xBF"

text \<open>The table of \<open>core::str::validations\<close>: the first byte fixes the width, the second is
  restricted so that overlong forms, surrogates and values past U+10FFFF are refused.\<close>

fun utf8_valid :: "u8 list \<Rightarrow> bool" where
  "utf8_valid [] = True"
| "utf8_valid (b # bs) =
     (if b < 0x80 then utf8_valid bs
      else if 0xC2 \<le> b \<and> b \<le> 0xDF then
        (case bs of c # r \<Rightarrow> utf8_cont c \<and> utf8_valid r | _ \<Rightarrow> False)
      else if 0xE0 \<le> b \<and> b \<le> 0xEF then
        (case bs of
           c # d # r \<Rightarrow>
             (if b = 0xE0 then 0xA0 \<le> c \<and> c \<le> 0xBF
              else if b = 0xED then 0x80 \<le> c \<and> c \<le> 0x9F
              else utf8_cont c) \<and> utf8_cont d \<and> utf8_valid r
         | _ \<Rightarrow> False)
      else if 0xF0 \<le> b \<and> b \<le> 0xF4 then
        (case bs of
           c # d # e # r \<Rightarrow>
             (if b = 0xF0 then 0x90 \<le> c \<and> c \<le> 0xBF
              else if b = 0xF4 then 0x80 \<le> c \<and> c \<le> 0x8F
              else utf8_cont c) \<and> utf8_cont d \<and> utf8_cont e \<and> utf8_valid r
         | _ \<Rightarrow> False)
      else False)"

definition from_utf8 :: "u8 list \<Rightarrow> string option" where
  "from_utf8 bs = (if utf8_valid bs then Some (string_of_bytes bs) else None)"

text \<open>The invariant of every Rust \<open>String\<close>.\<close>

definition str_ok :: "string \<Rightarrow> bool" where
  "str_ok s \<longleftrightarrow> utf8_valid (as_bytes s)"

lemma from_utf8_as_bytes: "str_ok s \<Longrightarrow> from_utf8 (as_bytes s) = Some s"
  by (simp add: from_utf8_def str_ok_def)

lemma from_utf8_Some: "from_utf8 bs = Some s \<longleftrightarrow> str_ok s \<and> as_bytes s = bs"
  by (auto simp: from_utf8_def str_ok_def)

lemma utf8_valid_ascii: "\<forall>b\<in>set bs. b < 0x80 \<Longrightarrow> utf8_valid bs"
  by (induction bs) auto

section \<open>Characters\<close>

definition utf8_width :: "char \<Rightarrow> nat" where
  "utf8_width c = (let b = (of_char c :: nat) in
     if b < 0x80 then 1 else if b < 0xE0 then 2 else if b < 0xF0 then 3 else 4)"

text \<open>\<open>str::chars\<close>: the first byte of each character gives its width.\<close>

function chars :: "string \<Rightarrow> string list" where
  "chars [] = []"
| "chars (c # cs) =
     (c # take (utf8_width c - 1) cs) # chars (drop (utf8_width c - 1) cs)"
  by pat_completeness auto
termination
  by (relation "measure length") auto

lemma concat_chars [simp]: "concat (chars s) = s"
  by (induction s rule: chars.induct) simp_all

lemma chars_nonempty: "c \<in> set (chars s) \<Longrightarrow> c \<noteq> []"
  by (induction s rule: chars.induct) auto

lemma chars_ascii:
  "\<forall>c\<in>set s. (of_char c :: nat) < 0x80 \<Longrightarrow> chars s = map (\<lambda>c. [c]) s"
  by (induction s) (auto simp: utf8_width_def)

text \<open>A whole character: as many bytes as its first byte announces. The characters of valid
  UTF-8 are whole, and a sequence of whole characters is read back character by character.\<close>

definition whole_char :: "string \<Rightarrow> bool" where
  "whole_char c \<longleftrightarrow> c \<noteq> [] \<and> length c = utf8_width (hd c)"

lemma chars_concat: "\<forall>c\<in>set cs. whole_char c \<Longrightarrow> chars (concat cs @ s) = cs @ chars s"
proof (induction cs)
  case (Cons c cs)
  then obtain b bs where c: "c = b # bs" "length bs = utf8_width b - 1"
    by (cases c) (auto simp: whole_char_def)
  with Cons show ?case by simp
qed simp

lemma of_char_nat_u8: "(of_char c :: nat) = unat (of_char c :: u8)"
  by (simp add: unat_of_char)

lemma utf8_width_eq:
  "utf8_width c = (let b = (of_char c :: u8) in
     if b < 0x80 then 1 else if b < 0xE0 then 2 else if b < 0xF0 then 3 else 4)"
  by (simp add: utf8_width_def of_char_nat_u8 word_less_nat_alt Let_def)

lemma whole_char_ascii: "(of_char c :: nat) < 0x80 \<Longrightarrow> whole_char [c]"
  by (simp add: whole_char_def utf8_width_def)

lemma utf8_width_range:
  fixes c :: char
  defines "b \<equiv> (of_char c :: u8)"
  shows "b < 0x80 \<Longrightarrow> utf8_width c = 1"
    "0xC2 \<le> b \<Longrightarrow> b \<le> 0xDF \<Longrightarrow> utf8_width c = 2 \<and> \<not> b < 0x80"
    "0xE0 \<le> b \<Longrightarrow> b \<le> 0xEF \<Longrightarrow> utf8_width c = 3 \<and> \<not> b < 0x80 \<and> \<not> b \<le> 0xDF"
    "0xF0 \<le> b \<Longrightarrow> b \<le> 0xF4 \<Longrightarrow> utf8_width c = 4 \<and> \<not> b < 0x80 \<and> \<not> b \<le> 0xDF \<and> \<not> b \<le> 0xEF"
  unfolding utf8_width_def of_char_nat_u8 b_def [symmetric] Let_def
  by (simp_all add: word_less_nat_alt word_le_nat_alt)

lemma utf8_first:
  assumes "utf8_valid (as_bytes (c # cs))"
  shows "whole_char (c # take (utf8_width c - 1) cs) \<and> utf8_valid (as_bytes (drop (utf8_width c - 1) cs))"
proof -
  let ?b = "of_char c :: u8"
  note a = assms [unfolded as_bytes_def list.map utf8_valid.simps, folded as_bytes_def]
  consider (1) "?b < 0x80" | (2) "0xC2 \<le> ?b" "?b \<le> 0xDF" | (3) "0xE0 \<le> ?b" "?b \<le> 0xEF"
    | (4) "0xF0 \<le> ?b" "?b \<le> 0xF4"
    using a by (auto split: if_splits)
  then show ?thesis
  proof cases
    case 1
    note w = utf8_width_range(1) [OF this]
    with a 1 show ?thesis by (simp add: whole_char_def)
  next
    case 2
    note w = utf8_width_range(2) [OF this]
    with a 2 show ?thesis
      by (cases cs) (simp_all add: whole_char_def as_bytes_def)
  next
    case 3
    note w = utf8_width_range(3) [OF this]
    with a 3 show ?thesis
      by (cases cs; cases "tl cs") (simp_all add: whole_char_def as_bytes_def numeral_eq_Suc)
  next
    case 4
    note w = utf8_width_range(4) [OF this]
    with a 4 show ?thesis
      by (cases cs; cases "tl cs"; cases "tl (tl cs)")
        (simp_all add: whole_char_def as_bytes_def numeral_eq_Suc)
  qed
qed

lemma chars_whole: "utf8_valid (as_bytes s) \<Longrightarrow> c \<in> set (chars s) \<Longrightarrow> whole_char c"
proof (induction s rule: chars.induct)
  case (2 b bs)
  from utf8_first [OF 2(2)] 2 show ?case by auto
qed simp
definition bytes_str :: "nat list \<Rightarrow> string" where
  "bytes_str ns = map char_of ns"

lemma eq_char_of: "c = char_of (n :: nat) \<longleftrightarrow> take_bit 8 n = of_char c"
  by (metis char_of_eq_iff)

text \<open>\<open>char::is_whitespace\<close> (the Unicode property White_Space), by UTF-8 encoding: tab to
  carriage return, space, U+0085, U+00A0, U+1680, U+2000 to U+200A, U+2028, U+2029,
  U+202F, U+205F and U+3000.\<close>

definition is_whitespace :: "string \<Rightarrow> bool" where
  "is_whitespace c \<longleftrightarrow> c \<in> set (map (\<lambda>b. bytes_str [b]) [9, 10, 11, 12, 13, 32]
     @ map bytes_str [[0xC2, 0x85], [0xC2, 0xA0], [0xE1, 0x9A, 0x80],
         [0xE2, 0x80, 0xA8], [0xE2, 0x80, 0xA9], [0xE2, 0x80, 0xAF], [0xE2, 0x81, 0x9F],
         [0xE3, 0x80, 0x80]]
     @ map (\<lambda>b. bytes_str [0xE2, 0x80, b]) [0x80..<0x8B])"

definition trim_end_chars :: "string list \<Rightarrow> string list" where
  "trim_end_chars cs = rev (dropWhile is_whitespace (rev cs))"

definition trim_end :: "string \<Rightarrow> string" where
  "trim_end s = concat (trim_end_chars (chars s))"

definition trim :: "string \<Rightarrow> string" where
  "trim s = concat (trim_end_chars (dropWhile is_whitespace (chars s)))"

definition starts_with :: "string \<Rightarrow> string \<Rightarrow> bool" where
  "starts_with s p \<longleftrightarrow> take (length p) s = p"

definition ends_with :: "string \<Rightarrow> string \<Rightarrow> bool" where
  "ends_with s p \<longleftrightarrow> length p \<le> length s \<and> drop (length s - length p) s = p"

lemma trim_end_prefix: "\<exists>w. s = trim_end s @ w"
proof -
  have "chars s = trim_end_chars (chars s) @ rev (takeWhile is_whitespace (rev (chars s)))"
    unfolding trim_end_chars_def by (metis rev_append rev_rev_ident takeWhile_dropWhile_id)
  then have "concat (chars s) = trim_end s @ concat (rev (takeWhile is_whitespace (rev (chars s))))"
    unfolding trim_end_def by (metis concat_append)
  then show ?thesis by auto
qed

lemma ends_with_append: "ends_with (s @ p) p"
  by (simp add: ends_with_def)

lemma trim_end_whitespace:
  "\<forall>c\<in>set cs. whole_char c \<Longrightarrow> whole_char w \<Longrightarrow> is_whitespace w \<Longrightarrow>
   trim_end (concat cs @ w) = trim_end (concat cs)"
  using chars_concat [of cs "[]"] chars_concat [of "cs @ [w]" "[]"]
  by (simp add: trim_end_def trim_end_chars_def)

section \<open>Numbers as text\<close>

definition digit :: "nat \<Rightarrow> char" where
  "digit n = char_of ((if n < 10 then 48 else 87) + n)"

fun show_nat :: "nat \<Rightarrow> string" where
  "show_nat n = (if n < 10 then [digit n] else show_nat (n div 10) @ [digit (n mod 10)])"

declare show_nat.simps [simp del]

definition show_int :: "int \<Rightarrow> string" where
  "show_int i = (if i < 0 then ''-'' @ show_nat (nat (- i)) else show_nat (nat i))"

text \<open>\<open>{byte:02x}\<close>.\<close>

definition hex2 :: "u8 \<Rightarrow> string" where
  "hex2 b = [digit (unat b div 16), digit (unat b mod 16)]"

text \<open>Joining with a separator, \<open>[_].join(sep)\<close>.\<close>

fun join :: "string \<Rightarrow> string list \<Rightarrow> string" where
  "join sep [] = ''''"
| "join sep [x] = x"
| "join sep (x # y # xs) = x @ sep @ join sep (y # xs)"

end
