(* ===== verification/Wire.thy ===== *)
theory Wire
  imports Rust_Str
begin

text \<open>
  The REPL payload format, \<open>src/repl_wire.rs\<close>: the values exchanged between the host REPL
  client and the device, the encoder (\<open>encode_repl_state\<close>, \<open>encode_repl_response\<close>,
  \<open>encode_value\<close>, \<open>write_len\<close>) and the cursor-based \<open>Decoder\<close>. Both directions are
  written as the code has them, with the output buffer and the decoder passed along and every
  error return a value of \<open>wire_error\<close>.
\<close>

section \<open>Data\<close>

definition STATE_MAGIC :: "u8 list" where "STATE_MAGIC = as_bytes ''RSR1''"
definition RESPONSE_MAGIC :: "u8 list" where "RESPONSE_MAGIC = as_bytes ''RSO1''"
definition MAX_NESTING :: nat where "MAX_NESTING = 32"
definition MAX_WIRE_BYTES :: nat where "MAX_WIRE_BYTES = 128 * 1024"
definition MAX_VALUE_NODES :: nat where "MAX_VALUE_NODES = 4096"

datatype repl_value =
    ReplNull
  | ReplInt i64
  | ReplFloat f64
  | ReplBool bool
  | ReplString string
  | ReplBytes "u8 list"
  | ReplArray "repl_value list"
  | ReplMap "(repl_value \<times> repl_value) list"

record repl_response =
  locals :: "repl_value list"
  result :: "repl_value option"

datatype wire_error =
    InvalidMagic
  | InvalidTag u8
  | InvalidBool u8
  | InvalidUtf8
  | UnexpectedEnd
  | TrailingData
  | LengthOverflow
  | NestingTooDeep

text \<open>
  What the code depends on of the machine it is compiled for: \<open>usize::MAX\<close> (the firmware
  is 32-bit, the host 64-bit), and the allocator's answer to each \<open>try_reserve_exact\<close>. The
  requests of one decoding run are told apart by the decoder's offset, so
  \<open>reserve_ok off count\<close> can describe any sequence of grants and refusals.
\<close>

record target =
  usize_max :: nat
  reserve_ok :: "nat \<Rightarrow> nat \<Rightarrow> bool"

section \<open>Encoder\<close>

definition write_len :: "u8 list \<Rightarrow> nat \<Rightarrow> wire_error + u8 list" where
  "write_len output len =
     (if len < 2 ^ 32 then Inr (output @ u32_bytes (of_nat len)) else Inl LengthOverflow)"

function (sequential) encode_value :: "repl_value \<Rightarrow> u8 list \<Rightarrow> nat \<Rightarrow> wire_error + u8 list"
  and encode_values :: "repl_value list \<Rightarrow> u8 list \<Rightarrow> nat \<Rightarrow> wire_error + u8 list"
  and encode_entries :: "(repl_value \<times> repl_value) list \<Rightarrow> u8 list \<Rightarrow> nat \<Rightarrow> wire_error + u8 list"
where
  "encode_value v output depth =
     (if depth > MAX_NESTING then Inl NestingTooDeep
      else case v of
        ReplNull \<Rightarrow> Inr (output @ [0])
      | ReplInt i \<Rightarrow> Inr (output @ [1] @ u64_bytes i)
      | ReplFloat f \<Rightarrow> Inr (output @ [2] @ u64_bytes f)
      | ReplBool b \<Rightarrow> Inr (output @ [3] @ [of_bool b])
      | ReplString s \<Rightarrow>
          and_then (write_len (output @ [4]) (length s)) (\<lambda>output. Inr (output @ as_bytes s))
      | ReplBytes bs \<Rightarrow>
          and_then (write_len (output @ [5]) (length bs)) (\<lambda>output. Inr (output @ bs))
      | ReplArray vs \<Rightarrow>
          and_then (write_len (output @ [6]) (length vs)) (\<lambda>output.
          encode_values vs output (depth + 1))
      | ReplMap es \<Rightarrow>
          and_then (write_len (output @ [7]) (length es)) (\<lambda>output.
          encode_entries es output (depth + 1)))"
| "encode_values [] output depth = Inr output"
| "encode_values (v # vs) output depth =
     and_then (encode_value v output depth) (\<lambda>output. encode_values vs output depth)"
| "encode_entries [] output depth = Inr output"
| "encode_entries ((k, v) # es) output depth =
     and_then (encode_value k output depth) (\<lambda>output.
     and_then (encode_value v output depth) (\<lambda>output.
     encode_entries es output depth))"
  by pat_completeness auto
termination
  by (relation "measure (\<lambda>x. case x of Inl (v, _, _) \<Rightarrow> size v
      | Inr (Inl (vs, _, _)) \<Rightarrow> size_list size vs
      | Inr (Inr (es, _, _)) \<Rightarrow> size_list (size_prod size size) es)") auto

declare encode_value.simps [simp del]

definition ensure_wire_size :: "u8 list \<Rightarrow> wire_error + u8 list" where
  "ensure_wire_size output =
     (if length output > MAX_WIRE_BYTES then Inl LengthOverflow else Inr output)"

definition encode_repl_state :: "repl_value list \<Rightarrow> wire_error + u8 list" where
  "encode_repl_state ls =
     and_then (write_len STATE_MAGIC (length ls)) (\<lambda>output.
     and_then (encode_values ls output 0) (\<lambda>output.
     ensure_wire_size output))"

definition encode_repl_response :: "repl_response \<Rightarrow> wire_error + u8 list" where
  "encode_repl_response response =
     and_then (write_len RESPONSE_MAGIC (length (locals response))) (\<lambda>output.
     and_then (encode_values (locals response) output 0) (\<lambda>output.
     and_then (case result response of
         Some v \<Rightarrow> encode_value v (output @ [1]) 0
       | None \<Rightarrow> Inr (output @ [0])) (\<lambda>output.
     ensure_wire_size output)))"

section \<open>Decoder\<close>

record decoder =
  bytes :: "u8 list"
  offset :: nat
  nodes :: nat

definition decoder_new :: "u8 list \<Rightarrow> decoder" where
  "decoder_new bs = \<lparr>bytes = bs, offset = 0, nodes = 0\<rparr>"

definition finish :: "decoder \<Rightarrow> wire_error + unit" where
  "finish d = (if offset d = length (bytes d) then Inr () else Inl TrailingData)"

text \<open>\<open>saturating_sub\<close> is subtraction on \<open>nat\<close>.\<close>

definition remaining :: "decoder \<Rightarrow> nat" where
  "remaining d = length (bytes d) - offset d"

definition read_exact :: "target \<Rightarrow> nat \<Rightarrow> decoder \<Rightarrow> wire_error + u8 list \<times> decoder" where
  "read_exact T len d =
     (if offset d + len > usize_max T then Inl LengthOverflow
      else case get_range (offset d) (offset d + len) (bytes d) of
          None \<Rightarrow> Inl UnexpectedEnd
        | Some value \<Rightarrow> Inr (value, d\<lparr>offset := offset d + len\<rparr>))"

definition expect_magic :: "target \<Rightarrow> u8 list \<Rightarrow> decoder \<Rightarrow> wire_error + decoder" where
  "expect_magic T expected d =
     and_then (read_exact T (length expected) d) (\<lambda>(value, d).
     if value = expected then Inr d else Inl InvalidMagic)"

definition read_u8 :: "target \<Rightarrow> decoder \<Rightarrow> wire_error + u8 \<times> decoder" where
  "read_u8 T d = and_then (read_exact T 1 d) (\<lambda>(value, d). Inr (value ! 0, d))"

definition read_u32 :: "target \<Rightarrow> decoder \<Rightarrow> wire_error + u32 \<times> decoder" where
  "read_u32 T d = and_then (read_exact T 4 d) (\<lambda>(value, d). Inr (from_le value, d))"

definition read_len :: "target \<Rightarrow> decoder \<Rightarrow> wire_error + nat \<times> decoder" where
  "read_len T d = and_then (read_u32 T d) (\<lambda>(n, d).
     if unat n > usize_max T then Inl LengthOverflow else Inr (unat n, d))"

function (sequential) decode_value ::
    "target \<Rightarrow> decoder \<Rightarrow> nat \<Rightarrow> wire_error + repl_value \<times> decoder"
  and decode_values ::
    "target \<Rightarrow> nat \<Rightarrow> decoder \<Rightarrow> nat \<Rightarrow> wire_error + repl_value list \<times> decoder"
  and decode_entries ::
    "target \<Rightarrow> nat \<Rightarrow> decoder \<Rightarrow> nat \<Rightarrow> wire_error + (repl_value \<times> repl_value) list \<times> decoder"
where
  "decode_value T d depth =
     (if nodes d + 1 > usize_max T then Inl LengthOverflow
      else if nodes d + 1 > MAX_VALUE_NODES then Inl LengthOverflow
      else if depth > MAX_NESTING then Inl NestingTooDeep
      else and_then (read_u8 T (d\<lparr>nodes := nodes d + 1\<rparr>)) (\<lambda>(tag, d).
        if tag = 0 then Inr (ReplNull, d)
        else if tag = 1 then
          and_then (read_exact T 8 d) (\<lambda>(bs, d). Inr (ReplInt (from_le bs), d))
        else if tag = 2 then
          and_then (read_exact T 8 d) (\<lambda>(bs, d). Inr (ReplFloat (from_le bs), d))
        else if tag = 3 then
          and_then (read_u8 T d) (\<lambda>(b, d).
          if b = 0 then Inr (ReplBool False, d)
          else if b = 1 then Inr (ReplBool True, d)
          else Inl (InvalidBool b))
        else if tag = 4 then
          and_then (read_len T d) (\<lambda>(len, d).
          and_then (read_exact T len d) (\<lambda>(bs, d).
          and_then (ok_or InvalidUtf8 (from_utf8 bs)) (\<lambda>s. Inr (ReplString s, d))))
        else if tag = 5 then
          and_then (read_len T d) (\<lambda>(len, d).
          and_then (read_exact T len d) (\<lambda>(bs, d). Inr (ReplBytes bs, d)))
        else if tag = 6 then
          and_then (read_len T d) (\<lambda>(count, d).
          if count > remaining d then Inl LengthOverflow
          else if \<not> reserve_ok T (offset d) count then Inl LengthOverflow
          else and_then (decode_values T count d (depth + 1)) (\<lambda>(vs, d). Inr (ReplArray vs, d)))
        else if tag = 7 then
          and_then (read_len T d) (\<lambda>(count, d).
          if count > remaining d div 2 then Inl LengthOverflow
          else if \<not> reserve_ok T (offset d) count then Inl LengthOverflow
          else and_then (decode_entries T count d (depth + 1)) (\<lambda>(es, d). Inr (ReplMap es, d)))
        else Inl (InvalidTag tag)))"
| "decode_values T 0 d depth = Inr ([], d)"
| "decode_values T (Suc n) d depth =
     and_then (decode_value T d depth) (\<lambda>(v, d).
     and_then (decode_values T n d depth) (\<lambda>(vs, d). Inr (v # vs, d)))"
| "decode_entries T 0 d depth = Inr ([], d)"
| "decode_entries T (Suc n) d depth =
     and_then (decode_value T d depth) (\<lambda>(k, d).
     and_then (decode_value T d depth) (\<lambda>(v, d).
     and_then (decode_entries T n d depth) (\<lambda>(es, d). Inr ((k, v) # es, d))))"
  by pat_completeness auto
termination
  by (relation "measures
      [\<lambda>x. case x of Inl (_, _, depth) \<Rightarrow> 34 - depth
         | Inr (Inl (_, _, _, depth)) \<Rightarrow> 34 - depth
         | Inr (Inr (_, _, _, depth)) \<Rightarrow> 34 - depth,
       \<lambda>x. case x of Inl _ \<Rightarrow> 0
         | Inr (Inl (_, n, _, _)) \<Rightarrow> Suc n
         | Inr (Inr (_, n, _, _)) \<Rightarrow> Suc n]")
    (auto simp: MAX_NESTING_def)

declare decode_value.simps [simp del]

definition decode_repl_state :: "target \<Rightarrow> u8 list \<Rightarrow> wire_error + repl_value list" where
  "decode_repl_state T bs =
     (if length bs > MAX_WIRE_BYTES then Inl LengthOverflow
      else and_then (expect_magic T STATE_MAGIC (decoder_new bs)) (\<lambda>d.
        and_then (read_len T d) (\<lambda>(count, d).
        if count > remaining d then Inl LengthOverflow
        else if \<not> reserve_ok T (offset d) count then Inl LengthOverflow
        else and_then (decode_values T count d 0) (\<lambda>(ls, d).
          and_then (finish d) (\<lambda>_. Inr ls)))))"

definition decode_repl_response :: "target \<Rightarrow> u8 list \<Rightarrow> wire_error + repl_response" where
  "decode_repl_response T bs =
     (if length bs > MAX_WIRE_BYTES then Inl LengthOverflow
      else and_then (expect_magic T RESPONSE_MAGIC (decoder_new bs)) (\<lambda>d.
        and_then (read_len T d) (\<lambda>(count, d).
        if count > remaining d then Inl LengthOverflow
        else if \<not> reserve_ok T (offset d) count then Inl LengthOverflow
        else and_then (decode_values T count d 0) (\<lambda>(ls, d).
          and_then (read_u8 T d) (\<lambda>(flag, d).
          and_then (if flag = 0 then Inr (None, d)
                    else if flag = 1 then
                      and_then (decode_value T d 0) (\<lambda>(v, d). Inr (Some v, d))
                    else Inl (InvalidBool flag)) (\<lambda>(res, d).
          and_then (finish d) (\<lambda>_. Inr \<lparr>locals = ls, result = res\<rparr>)))))))"

end
