(* ===== verification/Wire_Props.thy ===== *)
theory Wire_Props
  imports Wire
begin

text \<open>
  Correctness of the payload format. \<open>ser\<close> is the abstract layout of a value; the encoder
  is shown to produce it (\<open>encode_iff\<close>), the decoder to accept only it (soundness, through
  \<open>parsed\<close>: which bytes and how many nodes a decoder consumed) and to accept all of it
  within the node budget (completeness). Both halves together make the encoder and the decoder
  an instance of the locale \<open>payload_codec\<close>, for the state and for the response message.
\<close>

section \<open>The layout of a value\<close>

fun ser :: "repl_value \<Rightarrow> u8 list" where
  "ser ReplNull = [0]"
| "ser (ReplInt i) = 1 # u64_bytes i"
| "ser (ReplFloat f) = 2 # u64_bytes f"
| "ser (ReplBool b) = [3, of_bool b]"
| "ser (ReplString s) = 4 # u32_bytes (of_nat (length s)) @ as_bytes s"
| "ser (ReplBytes bs) = 5 # u32_bytes (of_nat (length bs)) @ bs"
| "ser (ReplArray vs) = 6 # u32_bytes (of_nat (length vs)) @ concat (map ser vs)"
| "ser (ReplMap es) =
     7 # u32_bytes (of_nat (length es)) @ concat (map (\<lambda>(k, v). ser k @ ser v) es)"

fun node_count :: "repl_value \<Rightarrow> nat" where
  "node_count (ReplArray vs) = Suc (sum_list (map node_count vs))"
| "node_count (ReplMap es) = Suc (sum_list (map (\<lambda>(k, v). node_count k + node_count v) es))"
| "node_count v = 1"

fun nests :: "nat \<Rightarrow> repl_value \<Rightarrow> bool" where
  "nests d (ReplArray vs) \<longleftrightarrow> d \<le> MAX_NESTING \<and> (\<forall>v\<in>set vs. nests (Suc d) v)"
| "nests d (ReplMap es) \<longleftrightarrow>
     d \<le> MAX_NESTING \<and> (\<forall>(k, v)\<in>set es. nests (Suc d) k \<and> nests (Suc d) v)"
| "nests d v \<longleftrightarrow> d \<le> MAX_NESTING"

fun lens_ok :: "repl_value \<Rightarrow> bool" where
  "lens_ok (ReplString s) \<longleftrightarrow> length s < 2 ^ 32"
| "lens_ok (ReplBytes bs) \<longleftrightarrow> length bs < 2 ^ 32"
| "lens_ok (ReplArray vs) \<longleftrightarrow> length vs < 2 ^ 32 \<and> (\<forall>v\<in>set vs. lens_ok v)"
| "lens_ok (ReplMap es) \<longleftrightarrow> length es < 2 ^ 32 \<and> (\<forall>(k, v)\<in>set es. lens_ok k \<and> lens_ok v)"
| "lens_ok v \<longleftrightarrow> True"

fun strs_ok :: "repl_value \<Rightarrow> bool" where
  "strs_ok (ReplString s) \<longleftrightarrow> str_ok s"
| "strs_ok (ReplArray vs) \<longleftrightarrow> (\<forall>v\<in>set vs. strs_ok v)"
| "strs_ok (ReplMap es) \<longleftrightarrow> (\<forall>(k, v)\<in>set es. strs_ok k \<and> strs_ok v)"
| "strs_ok v \<longleftrightarrow> True"

lemma write_len_Inr:
  "write_len output n = Inr output' \<longleftrightarrow> n < 2 ^ 32 \<and> output' = output @ u32_bytes (of_nat n)"
  by (auto simp: write_len_def)

lemma encode_iff:
  "encode_value v out d = Inr r \<longleftrightarrow> nests d v \<and> lens_ok v \<and> r = out @ ser v"
  and encode_values_iff: "encode_values vs out d = Inr r \<longleftrightarrow>
     (\<forall>v\<in>set vs. nests d v \<and> lens_ok v) \<and> r = out @ concat (map ser vs)"
  and encode_entries_iff: "encode_entries es out d = Inr r \<longleftrightarrow>
     (\<forall>(k, v)\<in>set es. nests d k \<and> lens_ok k \<and> nests d v \<and> lens_ok v) \<and>
     r = out @ concat (map (\<lambda>(k, v). ser k @ ser v) es)"
proof (induction v out d and vs out d and es out d arbitrary: r and r and r
    rule: encode_value_encode_values_encode_entries.induct)
  case (1 v out d)
  then show ?case
    by (cases v) (auto simp: encode_value.simps and_then_Inr write_len_Inr)
next
  case (5 k v es out d)
  show ?case
    by (simp add: and_then_Inr "5.IH" cong: conj_cong)
qed (auto simp: and_then_Inr)

definition rest :: "decoder \<Rightarrow> u8 list" where
  "rest d = drop (offset d) (bytes d)"

definition adv :: "nat \<Rightarrow> nat \<Rightarrow> decoder \<Rightarrow> decoder" where
  "adv n k d = d\<lparr>offset := offset d + n, nodes := nodes d + k\<rparr>"

definition in_bounds :: "decoder \<Rightarrow> bool" where
  "in_bounds d \<longleftrightarrow> offset d \<le> length (bytes d)"

lemma adv_sel [simp]:
  "bytes (adv n k d) = bytes d" "offset (adv n k d) = offset d + n" "nodes (adv n k d) = nodes d + k"
  by (simp_all add: adv_def)

lemma adv_0 [simp]: "adv 0 0 d = d"
  by (simp add: adv_def)

lemma adv_adv [simp]: "adv m j (adv n k d) = adv (n + m) (k + j) d"
  by (simp add: adv_def ac_simps)

lemma nodes_update_adv: "d\<lparr>nodes := nodes d + 1\<rparr> = adv 0 1 d"
  by (simp add: adv_def)

lemma rest_adv [simp]: "rest (adv n k d) = drop n (rest d)"
  by (simp add: rest_def add.commute)

lemma length_rest: "length (rest d) = remaining d"
  by (simp add: rest_def remaining_def)

lemma read_exact_Inr:
  assumes "in_bounds d"
  shows "read_exact T n d = Inr (bs, d') \<longleftrightarrow>
    offset d + n \<le> usize_max T \<and> length bs = n \<and> (\<exists>r. rest d = bs @ r) \<and> d' = adv n 0 d"
  (is "?l \<longleftrightarrow> ?r")
proof
  assume ?l
  then show ?r
    by (auto simp: read_exact_def get_range_def slice_def rest_def adv_def split: if_splits)
      (metis append_take_drop_id)
next
  assume ?r
  then obtain r where r: "rest d = bs @ r" "length bs = n" by auto
  then have "offset d + n \<le> length (bytes d)"
    using assms length_rest [of d] by (simp add: remaining_def in_bounds_def)
  moreover have "slice (offset d) (offset d + n) (bytes d) = bs"
    using r by (simp add: slice_def rest_def)
  ultimately show ?l
    using \<open>?r\<close> by (simp add: read_exact_def get_range_def adv_def)
qed

lemma read_exact_rest:
  assumes "rest d = bs @ r" "length bs = n" "length (bytes d) \<le> usize_max T" "in_bounds d"
  shows "read_exact T n d = Inr (bs, adv n 0 d)"
  using assms length_rest [of d] by (auto simp: read_exact_Inr remaining_def in_bounds_def)

lemma in_bounds_adv: "rest d = bs @ r \<Longrightarrow> in_bounds d \<Longrightarrow> n \<le> length bs \<Longrightarrow> in_bounds (adv n k d)"
  using length_rest [of d] by (auto simp: remaining_def in_bounds_def)


text \<open>Between \<open>d\<close> and \<open>d'\<close> the decoder consumed exactly \<open>bs\<close> and counted \<open>k\<close> nodes.\<close>

definition parsed :: "u8 list \<Rightarrow> nat \<Rightarrow> decoder \<Rightarrow> decoder \<Rightarrow> bool" where
  "parsed bs k d d' \<longleftrightarrow> in_bounds d \<and> (\<exists>r. rest d = bs @ r) \<and> d' = adv (length bs) k d"

lemma parsed_in_bounds: "parsed bs k d d' \<Longrightarrow> in_bounds d'"
  by (auto simp: parsed_def intro: in_bounds_adv)

lemma parsed_refl [simp]: "parsed [] 0 d d \<longleftrightarrow> in_bounds d"
  by (simp add: parsed_def)

lemma parsed_trans:
  "parsed bs k d d' \<Longrightarrow> parsed cs j d' d'' \<Longrightarrow> parsed (bs @ cs) (k + j) d d''"
  by (auto simp: parsed_def)

lemma parsed_bytes: "parsed bs k d d' \<Longrightarrow> bytes d' = bytes d"
  by (auto simp: parsed_def)

lemma parsed_nodes: "parsed bs k d d' \<Longrightarrow> nodes d' = nodes d + k"
  by (auto simp: parsed_def)

lemma read_exact_parsed:
  "in_bounds d \<Longrightarrow> read_exact T n d = Inr (bs, d') \<Longrightarrow> parsed bs 0 d d' \<and> length bs = n"
  by (auto simp: read_exact_Inr parsed_def)

lemma read_u8_parsed:
  "in_bounds d \<Longrightarrow> read_u8 T d = Inr (b, d') \<Longrightarrow> parsed [b] 0 d d'"
  by (auto simp: read_u8_def and_then_Inr read_exact_Inr parsed_def length_Suc_conv)

lemma u32_bound: "unat (w :: u32) < 4294967296"
proof -
  have "unat w < 2 ^ LENGTH(32)" by (rule unsigned_less)
  then show ?thesis by simp
qed

lemma read_len_parsed:
  "in_bounds d \<Longrightarrow> read_len T d = Inr (n, d') \<Longrightarrow> parsed (u32_bytes (of_nat n)) 0 d d' \<and> n < 2 ^ 32"
  by (auto simp: read_len_def read_u32_def and_then_Inr read_exact_Inr parsed_def
      le32.enc_dec u32_bound split: if_splits)

lemma count_node: "in_bounds d \<Longrightarrow> parsed [] 1 d (d\<lparr>nodes := Suc (nodes d)\<rparr>)"
  by (simp add: parsed_def adv_def)

lemma then_read_exact:
  "parsed cs k d0 d \<Longrightarrow> read_exact T n d = Inr (bs, d') \<Longrightarrow>
   parsed (cs @ bs) k d0 d' \<and> length bs = n"
  by (metis add.right_neutral parsed_in_bounds parsed_trans read_exact_parsed)

lemma then_read_u8:
  "parsed cs k d0 d \<Longrightarrow> read_u8 T d = Inr (b, d') \<Longrightarrow> parsed (cs @ [b]) k d0 d'"
  by (metis add.right_neutral parsed_in_bounds parsed_trans read_u8_parsed)

lemma then_read_len:
  "parsed cs k d0 d \<Longrightarrow> read_len T d = Inr (n, d') \<Longrightarrow>
   parsed (cs @ u32_bytes (of_nat n)) k d0 d' \<and> n < 2 ^ 32"
  by (metis add.right_neutral parsed_in_bounds parsed_trans read_len_parsed)

lemma as_bytes_inject [simp]: "as_bytes s = as_bytes t \<longleftrightarrow> s = t"
  by (metis string_of_bytes_as_bytes)

lemma ok_or_utf8 [simp]: "ok_or e (from_utf8 bs) = Inr s \<longleftrightarrow> str_ok s \<and> bs = as_bytes s"
  by (auto simp: ok_or_def from_utf8_Some from_utf8_as_bytes split: option.splits)

lemma decode_value_elim:
  assumes "decode_value T d depth = Inr (v, d')" and "in_bounds d"
  obtains (scalar) "parsed (ser v) (node_count v) d d'" "nodes d' \<le> MAX_VALUE_NODES"
      "nests depth v" "lens_ok v" "strs_ok v"
    | (array) n vs d1 where "depth \<le> MAX_NESTING" "nodes d < MAX_VALUE_NODES" "v = ReplArray vs"
      "parsed (6 # u32_bytes (of_nat n)) 1 d d1" "n < 2 ^ 32"
      "decode_values T n d1 (Suc depth) = Inr (vs, d')"
    | (map) n es d1 where "depth \<le> MAX_NESTING" "nodes d < MAX_VALUE_NODES" "v = ReplMap es"
      "parsed (7 # u32_bytes (of_nat n)) 1 d d1" "n < 2 ^ 32"
      "decode_entries T n d1 (Suc depth) = Inr (es, d')"
proof -
  let ?d0 = "d\<lparr>nodes := nodes d + 1\<rparr>"
  from assms(1) obtain tag d1 where lim: "depth \<le> MAX_NESTING" "nodes d < MAX_VALUE_NODES"
    and tag: "read_u8 T ?d0 = Inr (tag, d1)"
    by (auto simp: decode_value.simps and_then_Inr split: if_splits)
  have p0: "parsed [] 1 d ?d0"
    using count_node [OF assms(2)] by simp
  have p1: "parsed [tag] 1 d d1"
    using parsed_trans [OF p0 read_u8_parsed [OF parsed_in_bounds [OF p0] tag]] by simp
  have scal: thesis
    if "parsed (ser v) 1 d d'" "node_count v = 1" "nests depth v" "lens_ok v" "strs_ok v"
    using that lim scalar parsed_nodes [OF that(1)] by simp
  show thesis
    using assms(1) lim tag p1
    apply (simp add: decode_value.simps and_then_Inr split: if_splits)
    subgoal by (rule scal; clarsimp)
    subgoal by (elim exE conjE, drule (1) then_read_exact, rule scal; clarsimp simp: le64.enc_dec)
    subgoal by (elim exE conjE, drule (1) then_read_exact, rule scal; clarsimp simp: le64.enc_dec)
    subgoal by (elim exE conjE, drule (1) then_read_u8, rule scal; clarsimp)
    subgoal by (elim exE conjE, drule (1) then_read_u8, rule scal; clarsimp)
    subgoal by (elim exE conjE, drule (1) then_read_len, elim conjE, drule (1) then_read_exact,
          rule scal; clarsimp)
    subgoal by (elim exE conjE, drule (1) then_read_len, elim conjE, drule (1) then_read_exact,
          rule scal; clarsimp)
    subgoal by (clarsimp, drule (1) then_read_len, elim conjE,
          rule array [OF lim], assumption, simp, simp, assumption)
    subgoal by (clarsimp, drule (1) then_read_len, elim conjE,
          rule map [OF lim], assumption, simp, simp, assumption)
    done
qed

text \<open>What a successful decoding of one value guarantees.\<close>

definition sound_at :: "target \<Rightarrow> repl_value \<Rightarrow> bool" where
  "sound_at T v \<longleftrightarrow> (\<forall>d depth d'. in_bounds d \<longrightarrow> decode_value T d depth = Inr (v, d') \<longrightarrow>
     parsed (ser v) (node_count v) d d' \<and> nests depth v \<and> lens_ok v \<and> strs_ok v \<and>
     nodes d' \<le> MAX_VALUE_NODES)"

lemma decode_values_sound:
  assumes "\<forall>v\<in>set vs. sound_at T v" and "decode_values T n d depth = Inr (vs, d')" and "in_bounds d"
  shows "parsed (concat (map ser vs)) (sum_list (map node_count vs)) d d' \<and> length vs = n \<and>
     (\<forall>v\<in>set vs. nests depth v \<and> lens_ok v \<and> strs_ok v) \<and>
     (nodes d \<le> MAX_VALUE_NODES \<longrightarrow> nodes d' \<le> MAX_VALUE_NODES)"
  using assms
proof (induction vs arbitrary: n d)
  case Nil
  then show ?case by (cases n) (auto simp: and_then_Inr)
next
  case (Cons v vs)
  from Cons.prems(2) obtain m d1 where n: "n = Suc m" and v: "decode_value T d depth = Inr (v, d1)"
    and vs: "decode_values T m d1 depth = Inr (vs, d')"
    by (cases n) (auto simp: and_then_Inr)
  from Cons.prems v have v': "parsed (ser v) (node_count v) d d1" "nests depth v" "lens_ok v"
    "strs_ok v" "nodes d1 \<le> MAX_VALUE_NODES"
    by (auto simp: sound_at_def)
  from Cons.IH [OF _ vs parsed_in_bounds [OF v'(1)]] Cons.prems(1) v' show ?case
    by (auto simp: n intro: parsed_trans)
qed

lemma decode_entries_sound:
  assumes "\<forall>(k, v)\<in>set es. sound_at T k \<and> sound_at T v"
    and "decode_entries T n d depth = Inr (es, d')" and "in_bounds d"
  shows "parsed (concat (map (\<lambda>(k, v). ser k @ ser v) es))
       (sum_list (map (\<lambda>(k, v). node_count k + node_count v) es)) d d' \<and> length es = n \<and>
     (\<forall>(k, v)\<in>set es. nests depth k \<and> lens_ok k \<and> strs_ok k \<and>
        nests depth v \<and> lens_ok v \<and> strs_ok v) \<and>
     (nodes d \<le> MAX_VALUE_NODES \<longrightarrow> nodes d' \<le> MAX_VALUE_NODES)"
  using assms
proof (induction es arbitrary: n d)
  case Nil
  then show ?case by (cases n) (auto simp: and_then_Inr)
next
  case (Cons e es)
  from Cons.prems(2) obtain m k v d1 d2 where n: "n = Suc m" and e: "e = (k, v)"
    and k: "decode_value T d depth = Inr (k, d1)" and v: "decode_value T d1 depth = Inr (v, d2)"
    and es: "decode_entries T m d2 depth = Inr (es, d')"
    by (cases n) (auto simp: and_then_Inr)
  from Cons.prems e k have k': "parsed (ser k) (node_count k) d d1" "nests depth k" "lens_ok k" "strs_ok k"
    by (auto simp: sound_at_def)
  from Cons.prems e v parsed_in_bounds [OF k'(1)]
  have v': "parsed (ser v) (node_count v) d1 d2" "nests depth v" "lens_ok v" "strs_ok v"
    "nodes d2 \<le> MAX_VALUE_NODES"
    by (auto simp: sound_at_def)
  note kv = parsed_trans [OF k'(1) v'(1)]
  from Cons.IH [OF _ es parsed_in_bounds [OF v'(1)]] Cons.prems(1) k' v' e show ?case
    by (auto simp: n dest: parsed_trans [OF kv])
qed

lemma decode_value_sound: "sound_at T v"
proof (induction v)
  case (ReplArray vs)
  then have vs: "\<forall>v\<in>set vs. sound_at T v" by blast
  show ?case
    unfolding sound_at_def
  proof (intro allI impI)
    fix d depth d'
    assume d: "in_bounds d" and "decode_value T d depth = Inr (ReplArray vs, d')"
    from this(2,1) show "parsed (ser (ReplArray vs)) (node_count (ReplArray vs)) d d' \<and>
      nests depth (ReplArray vs) \<and> lens_ok (ReplArray vs) \<and> strs_ok (ReplArray vs) \<and>
      nodes d' \<le> MAX_VALUE_NODES"
    proof (cases rule: decode_value_elim)
      case (array n ws d1)
      with decode_values_sound [OF vs, of n d1 "Suc depth" d'] parsed_in_bounds [OF array(4)]
      have S: "parsed (concat (map ser vs)) (sum_list (map node_count vs)) d1 d'" "length vs = n"
        "\<forall>v\<in>set vs. nests (Suc depth) v \<and> lens_ok v \<and> strs_ok v" "nodes d' \<le> MAX_VALUE_NODES"
        using parsed_nodes [OF array(4)] by auto
      from parsed_trans [OF array(4) S(1)] S(2-) array(1,5) show ?thesis by simp
    qed auto
  qed
next
  case (ReplMap es)
  then have es: "\<forall>(k, v)\<in>set es. sound_at T k \<and> sound_at T v" by fastforce
  show ?case
    unfolding sound_at_def
  proof (intro allI impI)
    fix d depth d'
    assume d: "in_bounds d" and "decode_value T d depth = Inr (ReplMap es, d')"
    from this(2,1) show "parsed (ser (ReplMap es)) (node_count (ReplMap es)) d d' \<and>
      nests depth (ReplMap es) \<and> lens_ok (ReplMap es) \<and> strs_ok (ReplMap es) \<and>
      nodes d' \<le> MAX_VALUE_NODES"
    proof (cases rule: decode_value_elim)
      case (map n fs d1)
      with decode_entries_sound [OF es, of n d1 "Suc depth" d'] parsed_in_bounds [OF map(4)]
      have S: "parsed (concat (map (\<lambda>(k, v). ser k @ ser v) es))
          (sum_list (map (\<lambda>(k, v). node_count k + node_count v) es)) d1 d'" "length es = n"
        "\<forall>(k, v)\<in>set es. nests (Suc depth) k \<and> lens_ok k \<and> strs_ok k \<and>
           nests (Suc depth) v \<and> lens_ok v \<and> strs_ok v" "nodes d' \<le> MAX_VALUE_NODES"
        using parsed_nodes [OF map(4)] by auto
      from parsed_trans [OF map(4) S(1)] S(2-) map(1,5) show ?thesis by auto
    qed auto
  qed
qed (auto simp: sound_at_def elim!: decode_value_elim)

text \<open>A target that never runs out of memory and whose \<open>usize\<close> holds every \<open>u32\<close>.\<close>

definition target_ok :: "target \<Rightarrow> bool" where
  "target_ok T \<longleftrightarrow> 2 ^ 32 - 1 \<le> usize_max T \<and> (\<forall>off n. reserve_ok T off n)"

definition ready :: "target \<Rightarrow> decoder \<Rightarrow> bool" where
  "ready T d \<longleftrightarrow> in_bounds d \<and> length (bytes d) \<le> usize_max T"

lemma ready_adv [simp]: "ready T d \<Longrightarrow> n \<le> length (rest d) \<Longrightarrow> ready T (adv n k d)"
  using length_rest [of d] by (auto simp: ready_def in_bounds_def remaining_def)

lemma ready_nodes [simp]: "ready T (d\<lparr>nodes := k\<rparr>) \<longleftrightarrow> ready T d"
  by (simp add: ready_def in_bounds_def)

lemma rest_nodes [simp]: "rest (d\<lparr>nodes := k\<rparr>) = rest d"
  by (simp add: rest_def)

lemma adv_nodes [simp]: "adv n k (d\<lparr>nodes := Suc (nodes d)\<rparr>) = adv n (Suc k) d"
  by (simp add: adv_def)

text \<open>What a read returns when the bytes are there.\<close>

lemma read_exact_ready:
  "ready T d \<Longrightarrow> n \<le> length (rest d) \<Longrightarrow> read_exact T n d = Inr (take n (rest d), adv n 0 d)"
  using read_exact_rest [of d "take n (rest d)" "drop n (rest d)" n T] by (simp add: ready_def)

lemma read_u8_ready: "ready T d \<Longrightarrow> rest d = b # r \<Longrightarrow> read_u8 T d = Inr (b, adv 1 0 d)"
  using read_exact_ready [of T d 1] by (simp add: read_u8_def)

lemma read_len_ready:
  assumes "target_ok T" "ready T d" "rest d = u32_bytes (of_nat n) @ r" "n < 2 ^ 32"
  shows "read_len T d = Inr (n, adv 4 0 d)"
  using assms read_exact_ready [of T d 4]
  by (simp add: read_len_def read_u32_def target_ok_def le_simps unat_of_nat)

lemmas read_ready = read_exact_ready read_u8_ready read_len_ready

lemma length_ser_pos: "1 \<le> length (ser v)"
  by (cases v) auto

lemma length_concat_ser: "length vs \<le> length (concat (map ser vs))"
proof (induction vs)
  case (Cons v vs)
  then show ?case
    using length_ser_pos [of v] by simp
qed simp

lemma length_concat_ser2:
  "2 * length es \<le> length (concat (map (\<lambda>(k, v). ser k @ ser v) es))"
proof (induction es)
  case (Cons e es)
  then show ?case
    using length_ser_pos [of "fst e"] length_ser_pos [of "snd e"] by (cases e) auto
qed simp

definition complete_at :: "target \<Rightarrow> repl_value \<Rightarrow> bool" where
  "complete_at T v \<longleftrightarrow> (\<forall>d depth r. ready T d \<longrightarrow> nodes d \<le> MAX_VALUE_NODES \<longrightarrow>
     rest d = ser v @ r \<longrightarrow> nests depth v \<and> lens_ok v \<and> strs_ok v \<longrightarrow>
     decode_value T d depth =
       (if nodes d + node_count v \<le> MAX_VALUE_NODES
        then Inr (v, adv (length (ser v)) (node_count v) d) else Inl LengthOverflow))"

lemma decode_values_complete:
  assumes "\<forall>v\<in>set vs. complete_at T v"
    and "\<forall>v\<in>set vs. nests depth v \<and> lens_ok v \<and> strs_ok v"
    and "ready T d" "nodes d \<le> MAX_VALUE_NODES" "rest d = concat (map ser vs) @ r"
  shows "decode_values T (length vs) d depth =
    (if nodes d + sum_list (map node_count vs) \<le> MAX_VALUE_NODES
     then Inr (vs, adv (length (concat (map ser vs))) (sum_list (map node_count vs)) d)
     else Inl LengthOverflow)"
  using assms
proof (induction vs arbitrary: d)
  case Nil
  then show ?case by simp
next
  case (Cons v vs)
  let ?d1 = "adv (length (ser v)) (node_count v) d"
  from Cons.prems have v: "decode_value T d depth =
      (if nodes d + node_count v \<le> MAX_VALUE_NODES then Inr (v, ?d1) else Inl LengthOverflow)"
    by (simp add: complete_at_def)
  show ?case
  proof (cases "nodes d + node_count v \<le> MAX_VALUE_NODES")
    case True
    have "ready T ?d1"
      using Cons.prems by simp
    with Cons.IH [of ?d1] Cons.prems True v show ?thesis
      by (simp add: add.assoc)
  next
    case False
    with v show ?thesis by simp
  qed
qed

lemma decode_entries_complete:
  assumes "\<forall>(k, v)\<in>set es. complete_at T k \<and> complete_at T v"
    and "\<forall>(k, v)\<in>set es. nests depth k \<and> lens_ok k \<and> strs_ok k \<and>
      nests depth v \<and> lens_ok v \<and> strs_ok v"
    and "ready T d" "nodes d \<le> MAX_VALUE_NODES"
      "rest d = concat (map (\<lambda>(k, v). ser k @ ser v) es) @ r"
  shows "decode_entries T (length es) d depth =
    (if nodes d + sum_list (map (\<lambda>(k, v). node_count k + node_count v) es) \<le> MAX_VALUE_NODES
     then Inr (es, adv (length (concat (map (\<lambda>(k, v). ser k @ ser v) es)))
            (sum_list (map (\<lambda>(k, v). node_count k + node_count v) es)) d)
     else Inl LengthOverflow)"
  using assms
proof (induction es arbitrary: d)
  case Nil
  then show ?case by simp
next
  case (Cons e es)
  obtain k v where e: "e = (k, v)" by (cases e)
  let ?d1 = "adv (length (ser k)) (node_count k) d"
  let ?d2 = "adv (length (ser v)) (node_count v) ?d1"
  from Cons.prems e have k: "decode_value T d depth =
      (if nodes d + node_count k \<le> MAX_VALUE_NODES then Inr (k, ?d1) else Inl LengthOverflow)"
    by (simp add: complete_at_def)
  have d1: "ready T ?d1"
    using Cons.prems e by simp
  have v: "decode_value T ?d1 depth =
      (if nodes ?d1 + node_count v \<le> MAX_VALUE_NODES then Inr (v, ?d2) else Inl LengthOverflow)"
    if "nodes d + node_count k \<le> MAX_VALUE_NODES"
    using Cons.prems e d1 that by (simp add: complete_at_def)
  show ?case
  proof (cases "nodes ?d1 + node_count v \<le> MAX_VALUE_NODES")
    case True
    have "ready T ?d2"
      using d1 Cons.prems e by simp
    with Cons.IH [of ?d2] Cons.prems True k v show ?thesis
      by (simp add: e add.assoc)
  next
    case False
    with k v show ?thesis by (auto simp: e)
  qed
qed

lemma node_limit: "nodes d = MAX_VALUE_NODES \<Longrightarrow> decode_value T d depth = Inl LengthOverflow"
  by (simp add: decode_value.simps)

lemma node_count_pos: "0 < node_count v"
  by (cases v) auto

lemma complete_atI:
  assumes "\<And>d depth r. ready T d \<Longrightarrow> nodes d < MAX_VALUE_NODES \<Longrightarrow> rest d = ser v @ r \<Longrightarrow>
    nests depth v \<Longrightarrow> lens_ok v \<Longrightarrow> strs_ok v \<Longrightarrow> decode_value T d depth =
       (if nodes d + node_count v \<le> MAX_VALUE_NODES
        then Inr (v, adv (length (ser v)) (node_count v) d) else Inl LengthOverflow)"
  shows "complete_at T v"
  unfolding complete_at_def
proof (intro allI impI, elim conjE)
  fix d depth r
  assume *: "ready T d" "nodes d \<le> MAX_VALUE_NODES" "rest d = ser v @ r" "nests depth v"
    "lens_ok v" "strs_ok v"
  show "decode_value T d depth = (if nodes d + node_count v \<le> MAX_VALUE_NODES
    then Inr (v, adv (length (ser v)) (node_count v) d) else Inl LengthOverflow)"
    using * assms [of d r depth] node_limit [of d T depth] node_count_pos [of v]
    by (cases "nodes d = MAX_VALUE_NODES") auto
qed

lemma decode_value_complete:
  assumes T: "target_ok T"
  shows "complete_at T v"
proof -
  have big: "MAX_VALUE_NODES \<le> usize_max T"
    using T by (simp add: target_ok_def MAX_VALUE_NODES_def)
  show ?thesis
  proof (induction v)
    case (ReplArray vs)
    show ?case
    proof (rule complete_atI)
      fix d depth r
      assume d: "ready T d" "nodes d < MAX_VALUE_NODES" "rest d = ser (ReplArray vs) @ r"
        and v: "nests depth (ReplArray vs)" "lens_ok (ReplArray vs)" "strs_ok (ReplArray vs)"
      have rem: "length vs \<le> remaining (adv 5 1 d)"
        using d(3) length_concat_ser [of vs] by (simp flip: length_rest)
      show "decode_value T d depth = (if nodes d + node_count (ReplArray vs) \<le> MAX_VALUE_NODES
          then Inr (ReplArray vs, adv (length (ser (ReplArray vs))) (node_count (ReplArray vs)) d)
          else Inl LengthOverflow)"
        using d v rem big T decode_values_complete [of vs T "Suc depth" "adv 5 1 d" r] ReplArray
        by (simp add: decode_value.simps read_ready target_ok_def)
    qed
  next
    case (ReplMap es)
    show ?case
    proof (rule complete_atI)
      fix d depth r
      assume d: "ready T d" "nodes d < MAX_VALUE_NODES" "rest d = ser (ReplMap es) @ r"
        and v: "nests depth (ReplMap es)" "lens_ok (ReplMap es)" "strs_ok (ReplMap es)"
      have rem: "length es \<le> remaining (adv 5 1 d) div 2"
        using d(3) length_concat_ser2 [of es] by (simp flip: length_rest)
      have es: "\<forall>(k, v)\<in>set es. complete_at T k \<and> complete_at T v"
        using ReplMap by fastforce
      have "\<forall>(k, v)\<in>set es. nests (Suc depth) k \<and> lens_ok k \<and> strs_ok k \<and>
          nests (Suc depth) v \<and> lens_ok v \<and> strs_ok v"
        using v by fastforce
      from decode_entries_complete [OF es this, of "adv 5 1 d" r]
      show "decode_value T d depth = (if nodes d + node_count (ReplMap es) \<le> MAX_VALUE_NODES
          then Inr (ReplMap es, adv (length (ser (ReplMap es))) (node_count (ReplMap es)) d)
          else Inl LengthOverflow)"
        using d v rem big T
        by (simp add: decode_value.simps read_ready target_ok_def)
    qed
  next
    case ReplNull
    show ?case using big
      by (auto intro!: complete_atI simp: decode_value.simps read_ready)
  next
    case (ReplInt i)
    show ?case using big
      by (auto intro!: complete_atI simp: decode_value.simps read_ready le_simps)
  next
    case (ReplFloat i)
    show ?case using big
      by (auto intro!: complete_atI simp: decode_value.simps read_ready le_simps)
  next
    case (ReplBool b)
    show ?case using big
      by (cases b) (auto intro!: complete_atI simp: decode_value.simps read_ready)
  next
    case (ReplString s)
    show ?case using big T
      by (auto intro!: complete_atI simp: decode_value.simps read_ready from_utf8_as_bytes)
  next
    case (ReplBytes bs)
    show ?case using big T
      by (auto intro!: complete_atI simp: decode_value.simps read_ready)
  qed
qed

section \<open>Whole messages\<close>

definition state_bytes :: "repl_value list \<Rightarrow> u8 list" where
  "state_bytes ls = STATE_MAGIC @ u32_bytes (of_nat (length ls)) @ concat (map ser ls)"

definition response_bytes :: "repl_response \<Rightarrow> u8 list" where
  "response_bytes r = RESPONSE_MAGIC @ u32_bytes (of_nat (length (locals r))) @
     concat (map ser (locals r)) @ (case result r of None \<Rightarrow> [0] | Some v \<Rightarrow> 1 # ser v)"

definition total_nodes :: "repl_value list \<Rightarrow> nat" where
  "total_nodes vs = sum_list (map node_count vs)"

definition response_values :: "repl_response \<Rightarrow> repl_value list" where
  "response_values r = locals r @ (case result r of None \<Rightarrow> [] | Some v \<Rightarrow> [v])"

lemma magic_bytes: "STATE_MAGIC = [82, 83, 82, 49]" "RESPONSE_MAGIC = [82, 83, 79, 49]"
  by (simp_all add: STATE_MAGIC_def RESPONSE_MAGIC_def as_bytes_def)

lemma length_magic [simp]: "length STATE_MAGIC = 4" "length RESPONSE_MAGIC = 4"
  by (simp_all add: magic_bytes)

lemma encode_repl_state_iff:
  "encode_repl_state ls = Inr bs \<longleftrightarrow>
     length ls < 2 ^ 32 \<and> (\<forall>v\<in>set ls. nests 0 v \<and> lens_ok v) \<and>
     bs = state_bytes ls \<and> length bs \<le> MAX_WIRE_BYTES"
  by (auto simp: encode_repl_state_def and_then_Inr write_len_Inr encode_values_iff
      ensure_wire_size_def state_bytes_def split: if_splits)

lemma encode_repl_response_iff:
  "encode_repl_response r = Inr bs \<longleftrightarrow>
     length (locals r) < 2 ^ 32 \<and> (\<forall>v\<in>set (response_values r). nests 0 v \<and> lens_ok v) \<and>
     bs = response_bytes r \<and> length bs \<le> MAX_WIRE_BYTES"
  by (cases "result r")
    (auto simp: encode_repl_response_def and_then_Inr write_len_Inr encode_values_iff encode_iff
      ensure_wire_size_def response_bytes_def response_values_def split: if_splits)

lemma decoder_new_sel [simp]:
  "in_bounds (decoder_new bs)" "rest (decoder_new bs) = bs" "nodes (decoder_new bs) = 0"
  "bytes (decoder_new bs) = bs" "offset (decoder_new bs) = 0" "ready T (decoder_new bs) \<longleftrightarrow> length bs \<le> usize_max T"
  by (simp_all add: decoder_new_def in_bounds_def rest_def ready_def)

lemma expect_magic_parsed:
  "expect_magic T m d = Inr d' \<Longrightarrow> in_bounds d \<Longrightarrow> parsed m 0 d d'"
  by (auto simp: expect_magic_def and_then_Inr dest: read_exact_parsed split: if_splits)

lemma expect_magic_ready:
  "ready T d \<Longrightarrow> rest d = m @ r \<Longrightarrow> expect_magic T m d = Inr (adv (length m) 0 d)"
  by (simp add: expect_magic_def read_exact_ready)

lemma finish_parsed:
  "parsed bs k (decoder_new cs) d \<Longrightarrow> finish d = Inr u \<longleftrightarrow> cs = bs"
  unfolding parsed_def by (clarsimp simp: finish_def)

lemma all_sound: "\<forall>v\<in>set vs. sound_at T v"
  by (simp add: decode_value_sound)

lemma decode_repl_state_sound:
  assumes "decode_repl_state T bs = Inr ls"
  shows "bs = state_bytes ls \<and> length ls < 2 ^ 32 \<and> length bs \<le> MAX_WIRE_BYTES \<and>
    (\<forall>v\<in>set ls. nests 0 v \<and> lens_ok v \<and> strs_ok v) \<and> total_nodes ls \<le> MAX_VALUE_NODES"
proof -
  from assms obtain d1 n d2 d3 u where size: "length bs \<le> MAX_WIRE_BYTES"
    and m: "expect_magic T STATE_MAGIC (decoder_new bs) = Inr d1"
    and n: "read_len T d1 = Inr (n, d2)"
    and vs: "decode_values T n d2 0 = Inr (ls, d3)" and fin: "finish d3 = Inr u"
    by (auto simp: decode_repl_state_def and_then_Inr split: if_splits)
  have p1: "parsed STATE_MAGIC 0 (decoder_new bs) d1"
    using expect_magic_parsed [OF m] by simp
  have p2: "parsed (STATE_MAGIC @ u32_bytes (of_nat n)) 0 (decoder_new bs) d2" and n32: "n < 2 ^ 32"
    using then_read_len [OF p1 n] by auto
  note S = decode_values_sound [OF all_sound vs parsed_in_bounds [OF p2]]
  have p3: "parsed (state_bytes ls) (total_nodes ls) (decoder_new bs) d3"
    using parsed_trans [OF p2 conjunct1 [OF S]] S by (simp add: state_bytes_def total_nodes_def)
  show ?thesis
    using S n32 size fin finish_parsed [OF p3] parsed_nodes [OF p2] parsed_nodes [OF p3] by simp
qed

lemma decode_repl_response_sound:
  assumes "decode_repl_response T bs = Inr r"
  shows "bs = response_bytes r \<and> length (locals r) < 2 ^ 32 \<and> length bs \<le> MAX_WIRE_BYTES \<and>
    (\<forall>v\<in>set (response_values r). nests 0 v \<and> lens_ok v \<and> strs_ok v) \<and>
    total_nodes (response_values r) \<le> MAX_VALUE_NODES"
proof -
  from assms obtain d1 n d2 ls d3 flag d4 res d5 u where size: "length bs \<le> MAX_WIRE_BYTES"
    and m: "expect_magic T RESPONSE_MAGIC (decoder_new bs) = Inr d1"
    and n: "read_len T d1 = Inr (n, d2)"
    and vs: "decode_values T n d2 0 = Inr (ls, d3)"
    and flag: "read_u8 T d3 = Inr (flag, d4)"
    and res: "(if flag = 0 then Inr (None, d4)
        else if flag = 1 then and_then (decode_value T d4 0) (\<lambda>(v, d). Inr (Some v, d))
        else Inl (InvalidBool flag)) = Inr (res, d5)"
    and fin: "finish d5 = Inr u" and r: "r = \<lparr>locals = ls, result = res\<rparr>"
    by (auto simp: decode_repl_response_def and_then_Inr split: if_splits)
  have p1: "parsed RESPONSE_MAGIC 0 (decoder_new bs) d1"
    using expect_magic_parsed [OF m] by simp
  have p2: "parsed (RESPONSE_MAGIC @ u32_bytes (of_nat n)) 0 (decoder_new bs) d2"
    and n32: "n < 2 ^ 32"
    using then_read_len [OF p1 n] by auto
  note S = decode_values_sound [OF all_sound vs parsed_in_bounds [OF p2]]
  note p3 = parsed_trans [OF p2 conjunct1 [OF S]]
  note p4 = then_read_u8 [OF p3 flag]
  show ?thesis
  proof (cases "flag = 0")
    case True
    then show ?thesis
      using S n32 size fin finish_parsed [OF p4] parsed_nodes [OF p2] parsed_nodes [OF p4] res r
      by (simp add: response_bytes_def response_values_def total_nodes_def parsed_nodes [OF p3])
  next
    case False
    with res obtain v where one: "flag = 1" and v: "decode_value T d4 0 = Inr (v, d5)" "res = Some v"
      by (auto simp: and_then_Inr split: if_splits)
    from decode_value_sound [of T v] parsed_in_bounds [OF p4] v(1)
    have V: "parsed (ser v) (node_count v) d4 d5" "nests 0 v" "lens_ok v" "strs_ok v"
      "nodes d5 \<le> MAX_VALUE_NODES"
      by (auto simp: sound_at_def)
    note p5 = parsed_trans [OF p4 V(1)]
    show ?thesis
      using S n32 size fin finish_parsed [OF p5] V parsed_nodes [OF p5] one v r
      by (simp add: response_bytes_def response_values_def total_nodes_def)
  qed
qed

lemma all_complete: "target_ok T \<Longrightarrow> \<forall>v\<in>set vs. complete_at T v"
  by (simp add: decode_value_complete)

lemma decode_repl_state_complete:
  assumes "target_ok T" "length ls < 2 ^ 32" "\<forall>v\<in>set ls. nests 0 v \<and> lens_ok v \<and> strs_ok v"
    "length (state_bytes ls @ xs) \<le> MAX_WIRE_BYTES"
  shows "decode_repl_state T (state_bytes ls @ xs) =
    (if total_nodes ls > MAX_VALUE_NODES then Inl LengthOverflow
     else if xs = [] then Inr ls else Inl TrailingData)"
proof -
  let ?d = "decoder_new (state_bytes ls @ xs)"
  have T: "length (state_bytes ls @ xs) \<le> usize_max T"
    using assms(1,4) by (simp add: target_ok_def MAX_WIRE_BYTES_def)
  have rem: "length ls \<le> remaining (adv 8 0 ?d)"
    using length_concat_ser [of ls] by (simp add: state_bytes_def flip: length_rest)
  have "decode_values T (length ls) (adv 8 0 ?d) 0 =
    (if total_nodes ls \<le> MAX_VALUE_NODES
     then Inr (ls, adv (length (state_bytes ls)) (total_nodes ls) ?d) else Inl LengthOverflow)"
    using decode_values_complete [OF all_complete, of T ls 0 "adv 8 0 ?d" xs] assms T
    by (simp add: state_bytes_def total_nodes_def)
  then show ?thesis
    using assms T rem
    by (simp add: decode_repl_state_def expect_magic_ready read_ready state_bytes_def finish_def
        target_ok_def)
qed


lemma decode_repl_response_complete:
  assumes "target_ok T" "length (locals r) < 2 ^ 32"
    "\<forall>v\<in>set (response_values r). nests 0 v \<and> lens_ok v \<and> strs_ok v"
    "length (response_bytes r @ xs) \<le> MAX_WIRE_BYTES"
  shows "decode_repl_response T (response_bytes r @ xs) =
    (if total_nodes (response_values r) > MAX_VALUE_NODES then Inl LengthOverflow
     else if xs = [] then Inr r else Inl TrailingData)"
proof -
  let ?ls = "locals r"
  let ?tail = "(case result r of None \<Rightarrow> [0] | Some v \<Rightarrow> 1 # ser v) @ xs"
  let ?d = "decoder_new (response_bytes r @ xs)"
  let ?d3 = "adv (8 + length (concat (map ser ?ls))) (total_nodes ?ls) ?d"
  have T: "length (response_bytes r @ xs) \<le> usize_max T"
    using assms(1,4) by (simp add: target_ok_def MAX_WIRE_BYTES_def)
  have rem: "length ?ls \<le> remaining (adv 8 0 ?d)"
    using length_concat_ser [of ?ls] by (simp add: response_bytes_def flip: length_rest)
  have head: "decode_repl_response T (response_bytes r @ xs) =
     and_then (decode_values T (length ?ls) (adv 8 0 ?d) 0) (\<lambda>(ls, d).
          and_then (read_u8 T d) (\<lambda>(flag, d).
          and_then (if flag = 0 then Inr (None, d)
                    else if flag = 1 then
                      and_then (decode_value T d 0) (\<lambda>(v, d). Inr (Some v, d))
                    else Inl (InvalidBool flag)) (\<lambda>(res, d).
          and_then (finish d) (\<lambda>_. Inr \<lparr>locals = ls, result = res\<rparr>))))"
    using assms T rem
    by (simp add: decode_repl_response_def expect_magic_ready read_ready response_bytes_def
        target_ok_def)
  have vals: "decode_values T (length ?ls) (adv 8 0 ?d) 0 =
    (if total_nodes ?ls \<le> MAX_VALUE_NODES then Inr (?ls, ?d3) else Inl LengthOverflow)"
    using decode_values_complete [OF all_complete, of T ?ls 0 "adv 8 0 ?d" ?tail] assms T
    by (simp add: response_bytes_def response_values_def total_nodes_def)
  show ?thesis
  proof (cases "result r")
    case None
    then show ?thesis
      using head vals T
      by (cases r) (simp add: response_bytes_def response_values_def read_ready finish_def)
  next
    case (Some v)
    have "decode_value T (adv 1 0 ?d3) 0 =
      (if total_nodes ?ls + node_count v \<le> MAX_VALUE_NODES
       then Inr (v, adv (length (ser v)) (node_count v) (adv 1 0 ?d3)) else Inl LengthOverflow)"
      if "total_nodes ?ls \<le> MAX_VALUE_NODES"
      using decode_value_complete [OF assms(1), of v] assms(3) T Some that
      by (simp add: complete_at_def response_bytes_def response_values_def)
    with Some show ?thesis
      using head vals T
      by (cases r) (auto simp: response_bytes_def response_values_def read_ready finish_def
          total_nodes_def)
  qed
qed

section \<open>The codec interface\<close>

text \<open>
  What the two ends of the REPL rely on: every payload the decoder accepts is the one the
  encoder produces for that value, and a value in the decoder's domain comes back.
\<close>

locale payload_codec =
  fixes enc :: "'a \<Rightarrow> 'e + u8 list"
    and dec :: "u8 list \<Rightarrow> 'e + 'a"
    and domain :: "'a \<Rightarrow> bool"
  assumes dec_enc: "domain x \<Longrightarrow> enc x = Inr bs \<Longrightarrow> dec bs = Inr x"
    and enc_dec: "dec bs = Inr x \<Longrightarrow> domain x \<and> enc x = Inr bs"
begin

lemma dec_iff: "dec bs = Inr x \<longleftrightarrow> domain x \<and> enc x = Inr bs"
  using dec_enc enc_dec by blast

lemma dec_inject: "dec bs = Inr x \<Longrightarrow> dec cs = Inr x \<Longrightarrow> bs = cs"
  by (auto simp: dec_iff)

lemma enc_inject: "domain x \<Longrightarrow> domain y \<Longrightarrow> enc x = Inr bs \<Longrightarrow> enc y = Inr bs \<Longrightarrow> x = y"
  by (metis dec_enc sum.inject(2))

end

definition wire_values :: "repl_value list \<Rightarrow> bool" where
  "wire_values vs \<longleftrightarrow> (\<forall>v\<in>set vs. strs_ok v) \<and> total_nodes vs \<le> MAX_VALUE_NODES"

definition wire_response :: "repl_response \<Rightarrow> bool" where
  "wire_response r \<longleftrightarrow> wire_values (response_values r)"

lemma state_codec:
  "target_ok T \<Longrightarrow> payload_codec encode_repl_state (decode_repl_state T) wire_values"
proof (unfold_locales)
  show "decode_repl_state T bs = Inr ls"
    if "target_ok T" "wire_values ls" "encode_repl_state ls = Inr bs" for ls bs
    using that decode_repl_state_complete [of T ls "[]"]
    by (auto simp: encode_repl_state_iff wire_values_def)
  show "wire_values ls \<and> encode_repl_state ls = Inr bs"
    if "decode_repl_state T bs = Inr ls" for ls bs
    using decode_repl_state_sound [OF that] by (auto simp: encode_repl_state_iff wire_values_def)
qed

lemma response_codec:
  "target_ok T \<Longrightarrow> payload_codec encode_repl_response (decode_repl_response T) wire_response"
proof (unfold_locales)
  show "decode_repl_response T bs = Inr r"
    if "target_ok T" "wire_response r" "encode_repl_response r = Inr bs" for r bs
    using that decode_repl_response_complete [of T r "[]"]
    by (auto simp: encode_repl_response_iff wire_values_def wire_response_def)
  show "wire_response r \<and> encode_repl_response r = Inr bs"
    if "decode_repl_response T bs = Inr r" for r bs
    using decode_repl_response_sound [OF that]
    by (auto simp: encode_repl_response_iff wire_values_def wire_response_def)
qed

text \<open>The two machines the crate is built for: a 64-bit host and a 32-bit ESP target.\<close>

definition host_target :: target where
  "host_target = \<lparr>usize_max = 2 ^ 64 - 1, reserve_ok = (\<lambda>_ _. True)\<rparr>"

definition esp_target :: target where
  "esp_target = \<lparr>usize_max = 2 ^ 32 - 1, reserve_ok = (\<lambda>_ _. True)\<rparr>"

lemma targets_ok [simp]: "target_ok host_target" "target_ok esp_target"
  by (simp_all add: target_ok_def host_target_def esp_target_def)

interpretation esp_state: payload_codec encode_repl_state "decode_repl_state esp_target" wire_values
  by (simp add: state_codec)

interpretation host_response:
  payload_codec encode_repl_response "decode_repl_response host_target" wire_response
  by (simp add: response_codec)

end
