(* ===== verification/Wire_Safety.thy ===== *)
theory Wire_Safety
  imports Wire_Props
begin

text \<open>
  Properties of the payload format as its callers see them: round trips, canonicity, rejection
  of truncated and extended messages, the resource bounds of the decoder, and when the encoder
  succeeds. The first section shows that the decoder never asks the allocator for more
  elements than the input has bytes.
\<close>

section \<open>Allocation is bounded by the input\<close>

lemma read_exact_bytes: "read_exact T n d = Inr (bs, d') \<Longrightarrow> bytes d' = bytes d"
  by (auto simp: read_exact_def split: if_splits option.splits)

lemma read_u8_bytes: "read_u8 T d = Inr (b, d') \<Longrightarrow> bytes d' = bytes d"
  by (auto simp: read_u8_def and_then_Inr dest: read_exact_bytes)

lemma read_len_bytes: "read_len T d = Inr (n, d') \<Longrightarrow> bytes d' = bytes d"
  by (auto simp: read_len_def read_u32_def and_then_Inr dest: read_exact_bytes split: if_splits)

lemma decode_value_bytes: "decode_value T d depth = Inr (v, d') \<Longrightarrow> in_bounds d \<Longrightarrow> bytes d' = bytes d \<and> in_bounds d'"
  using decode_value_sound [of T v] by (auto simp: sound_at_def dest: parsed_bytes parsed_in_bounds)

definition same_grants :: "nat \<Rightarrow> target \<Rightarrow> target \<Rightarrow> bool" where
  "same_grants L T T' \<longleftrightarrow> usize_max T = usize_max T' \<and>
     (\<forall>off n. n \<le> L \<longrightarrow> reserve_ok T off n = reserve_ok T' off n)"

lemma read_same_target:
  assumes "usize_max T = usize_max T'"
  shows "read_exact T n d = read_exact T' n d" "read_u8 T d = read_u8 T' d"
    "read_len T d = read_len T' d"
  using assms by (simp_all add: read_exact_def read_u8_def read_len_def read_u32_def)

lemma remaining_le: "bytes d = bs \<Longrightarrow> remaining d \<le> length bs"
  by (auto simp: remaining_def)

lemma read_bounds:
  assumes "in_bounds d"
  shows "read_u8 T d = Inr (b, d') \<Longrightarrow> bytes d' = bytes d \<and> in_bounds d'"
    and "read_len T d = Inr (n, d') \<Longrightarrow> bytes d' = bytes d \<and> in_bounds d'"
  by (metis assms parsed_bytes parsed_in_bounds read_u8_parsed,
      metis assms parsed_bytes parsed_in_bounds read_len_parsed)

lemma decode_value_step_same:
  assumes G: "same_grants (length (bytes d)) T T'" and d: "in_bounds d"
    and vals: "\<And>n d'. bytes d' = bytes d \<Longrightarrow> in_bounds d' \<Longrightarrow> depth \<le> MAX_NESTING \<Longrightarrow>
      decode_values T n d' (Suc depth) = decode_values T' n d' (Suc depth)"
    and ents: "\<And>n d'. bytes d' = bytes d \<Longrightarrow> in_bounds d' \<Longrightarrow> depth \<le> MAX_NESTING \<Longrightarrow>
      decode_entries T n d' (Suc depth) = decode_entries T' n d' (Suc depth)"
  shows "decode_value T d depth = decode_value T' d depth"
proof -
  let ?d0 = "d\<lparr>nodes := Suc (nodes d)\<rparr>"
  from G have U: "usize_max T = usize_max T'" by (simp add: same_grants_def)
  note rd = read_same_target [OF U]
  have grant: "reserve_ok T off n = reserve_ok T' off n"
    if "bytes d' = bytes d" "n \<le> remaining d'" for off n d'
    using G remaining_le [OF that(1)] that(2) by (simp add: same_grants_def)
  have d0: "in_bounds ?d0" using d by (simp add: in_bounds_def)
  note eqs = decode_value.simps [of T d depth] decode_value.simps [of T' d depth]
  show ?thesis
  proof (cases "read_u8 T' ?d0")
    case (Inl e)
    then show ?thesis by (simp add: eqs U rd)
  next
    case (Inr p)
    then obtain tag d1 where p: "read_u8 T' ?d0 = Inr (tag, d1)" by (cases p) auto
    from read_bounds(1) [OF d0 p] have d1: "bytes d1 = bytes d" "in_bounds d1" by auto
    show ?thesis
    proof (cases "read_len T' d1")
      case (Inl e)
      then show ?thesis using p by (simp add: eqs U rd)
    next
      case (Inr q)
      then obtain n d2 where q: "read_len T' d1 = Inr (n, d2)" by (cases q) auto
      from read_bounds(2) [OF d1(2) q] d1 have d2: "bytes d2 = bytes d" "in_bounds d2" by auto
      show ?thesis
        using p q grant [OF d2(1), of n] vals [OF d2] ents [OF d2]
        by (simp add: eqs U rd)
    qed
  qed
qed

lemma decode_values_step_same:
  assumes "\<And>d. bytes d = bs \<Longrightarrow> in_bounds d \<Longrightarrow> decode_value T d depth = decode_value T' d depth"
    and "bytes d = bs" "in_bounds d"
  shows "decode_values T n d depth = decode_values T' n d depth"
    and "decode_entries T n d depth = decode_entries T' n d depth"
  using assms(2,3)
  by (induction n arbitrary: d)
    (auto simp: assms(1) intro!: and_then_cong dest!: decode_value_bytes)

lemma decode_same_grants:
  "same_grants (length (bytes d)) T T' \<Longrightarrow> in_bounds d \<Longrightarrow>
   decode_value T d depth = decode_value T' d depth"
proof (induction "33 - depth" arbitrary: d depth rule: less_induct)
  case less
  show ?case
  proof (rule decode_value_step_same [OF less.prems])
    fix n d'
    assume d': "bytes d' = bytes d" "in_bounds d'" and depth: "depth \<le> MAX_NESTING"
    have ih: "decode_value T e (Suc depth) = decode_value T' e (Suc depth)"
      if "bytes e = bytes d" "in_bounds e" for e
      using less.hyps [of "Suc depth" e] less.prems that depth by (simp add: MAX_NESTING_def)
    show "decode_values T n d' (Suc depth) = decode_values T' n d' (Suc depth)"
      by (rule decode_values_step_same(1) [where bs = "bytes d"]) (simp_all add: ih d')
    show "decode_entries T n d' (Suc depth) = decode_entries T' n d' (Suc depth)"
      by (rule decode_values_step_same(2) [where bs = "bytes d"]) (simp_all add: ih d')
  qed
qed


lemma decode_values_same_grants:
  "same_grants (length (bytes d)) T T' \<Longrightarrow> in_bounds d \<Longrightarrow>
   decode_values T n d depth = decode_values T' n d depth"
  by (rule decode_values_step_same(1) [where bs = "bytes d"]) (simp_all add: decode_same_grants)

lemma decode_repl_state_same_grants:
  assumes "same_grants (length bs) T T'"
  shows "decode_repl_state T bs = decode_repl_state T' bs"
proof -
  from assms have U: "usize_max T = usize_max T'" by (simp add: same_grants_def)
  note rd = read_same_target [OF U]
  have em: "expect_magic T m d = expect_magic T' m d" for m d
    by (simp add: expect_magic_def rd)
  show ?thesis
  proof (cases "expect_magic T' STATE_MAGIC (decoder_new bs)")
    case (Inl e)
    then show ?thesis by (simp add: decode_repl_state_def em)
  next
    case m: (Inr d1)
    from expect_magic_parsed [OF m] have d1: "bytes d1 = bs" "in_bounds d1"
      by (auto dest: parsed_bytes parsed_in_bounds)
    show ?thesis
    proof (cases "read_len T' d1")
      case (Inl e)
      then show ?thesis using m by (simp add: decode_repl_state_def em rd)
    next
      case (Inr q)
      then obtain n d2 where q: "read_len T' d1 = Inr (n, d2)" by (cases q) auto
      from read_bounds(2) [OF d1(2) q] d1 have d2: "bytes d2 = bs" "in_bounds d2" by auto
      have "reserve_ok T (offset d2) n = reserve_ok T' (offset d2) n" if "n \<le> remaining d2"
        using assms remaining_le [OF d2(1)] that by (simp add: same_grants_def)
      then show ?thesis
        using m q decode_values_same_grants [of d2 T T' n 0] d2 assms
        by (simp add: decode_repl_state_def em rd)
    qed
  qed
qed

section \<open>Sizes\<close>

lemma length_concat_mem: "x \<in> set xs \<Longrightarrow> length x \<le> length (concat xs)"
  by (auto simp: in_set_conv_decomp)

lemma lens_ok_length: "length (ser v) < 2 ^ 32 \<Longrightarrow> lens_ok v"
proof (induction v)
  case (ReplArray vs)
  have "length (ser v) \<le> length (concat (map ser vs))" if "v \<in> set vs" for v
    using that length_concat_mem [of "ser v" "map ser vs"] by simp
  with ReplArray length_concat_ser [of vs] show ?case by fastforce
next
  case (ReplMap es)
  have "length (ser k) + length (ser v) \<le> length (concat (map (\<lambda>(k, v). ser k @ ser v) es))"
    if "(k, v) \<in> set es" for k v
    using that length_concat_mem [of "ser k @ ser v" "map (\<lambda>(k, v). ser k @ ser v) es"] by force
  with ReplMap length_concat_ser2 [of es] show ?case by fastforce
qed auto

lemma lens_ok_state: "length (state_bytes ls) < 2 ^ 32 \<Longrightarrow> v \<in> set ls \<Longrightarrow> lens_ok v"
  using length_concat_mem [of "ser v" "map ser ls"]
  by (intro lens_ok_length) (simp add: state_bytes_def)

section \<open>Properties\<close>

text \<open>C3. Encoding a REPL state and decoding the bytes on any target returns the same
  locals, exactly when they have at most 4096 value nodes; with more nodes the decoder refuses
  the message with \<open>LengthOverflow\<close>.
\<close>

theorem state_round_trip:
  assumes "target_ok T" and "encode_repl_state ls = Inr bs" and "\<forall>v\<in>set ls. strs_ok v"
  shows "decode_repl_state T bs =
    (if total_nodes ls \<le> MAX_VALUE_NODES then Inr ls else Inl LengthOverflow)"
  using assms decode_repl_state_complete [of T ls "[]"] by (auto simp: encode_repl_state_iff)

theorem state_round_trip_witness:
  "decode_repl_state esp_target [82, 83, 82, 49, 2, 0, 0, 0, 3, 1, 6, 1, 0, 0, 0, 0] =
     Inr [ReplBool True, ReplArray [ReplNull]]"
  using state_round_trip [of esp_target "[ReplBool True, ReplArray [ReplNull]]"
      "[82, 83, 82, 49, 2, 0, 0, 0, 3, 1, 6, 1, 0, 0, 0, 0]"]
  by (simp add: encode_repl_state_iff state_bytes_def magic_bytes le_eval MAX_NESTING_def
      MAX_WIRE_BYTES_def MAX_VALUE_NODES_def total_nodes_def)

text \<open>C4. Encoding a REPL response (locals and optional result) and decoding the
  bytes on any target returns the same response when locals and result together have at most
  4096 value nodes, and \<open>LengthOverflow\<close> otherwise.
\<close>

theorem response_round_trip:
  assumes "target_ok T" and "encode_repl_response r = Inr bs"
    and "\<forall>v\<in>set (response_values r). strs_ok v"
  shows "decode_repl_response T bs =
    (if total_nodes (response_values r) \<le> MAX_VALUE_NODES then Inr r else Inl LengthOverflow)"
  using assms decode_repl_response_complete [of T r "[]"] by (auto simp: encode_repl_response_iff)

theorem response_round_trip_witness:
  "decode_repl_response host_target [82, 83, 79, 49, 1, 0, 0, 0, 3, 0, 1, 0] =
     Inr \<lparr>locals = [ReplBool False], result = Some ReplNull\<rparr>"
  using response_round_trip [of host_target "\<lparr>locals = [ReplBool False], result = Some ReplNull\<rparr>"
      "[82, 83, 79, 49, 1, 0, 0, 0, 3, 0, 1, 0]"]
  by (simp add: encode_repl_response_iff response_bytes_def response_values_def magic_bytes le_eval
      MAX_NESTING_def MAX_WIRE_BYTES_def MAX_VALUE_NODES_def total_nodes_def)

text \<open>C12. The decoder accepts only canonical messages: whatever state it returns,
  on any target, encodes back to the very bytes it was read from, so a state has one
  representation on the wire.
\<close>

theorem state_decode_canonical:
  assumes "decode_repl_state T bs = Inr ls"
  shows "encode_repl_state ls = Inr bs"
  using decode_repl_state_sound [OF assms] by (auto simp: encode_repl_state_iff)

theorem state_decode_canonical_witness:
  "encode_repl_state [ReplBool True] = Inr [82, 83, 82, 49, 1, 0, 0, 0, 3, 1]"
  by (rule state_decode_canonical [of host_target])
    (use decode_repl_state_complete [of host_target "[ReplBool True]" "[]"] in
      \<open>simp add: state_bytes_def magic_bytes le_eval MAX_NESTING_def MAX_WIRE_BYTES_def
        MAX_VALUE_NODES_def total_nodes_def\<close>)

text \<open>C13. The same for responses: an accepted response encodes back to its bytes.
\<close>

theorem response_decode_canonical:
  assumes "decode_repl_response T bs = Inr r"
  shows "encode_repl_response r = Inr bs"
  using decode_repl_response_sound [OF assms] by (auto simp: encode_repl_response_iff)

theorem response_decode_canonical_witness:
  "encode_repl_response \<lparr>locals = [], result = Some ReplNull\<rparr> = Inr [82, 83, 79, 49, 0, 0, 0, 0, 1, 0]"
  by (rule response_decode_canonical [of host_target])
    (use decode_repl_response_complete [of host_target "\<lparr>locals = [], result = Some ReplNull\<rparr>" "[]"]
      in \<open>simp add: response_bytes_def response_values_def magic_bytes le_eval MAX_NESTING_def
        MAX_WIRE_BYTES_def MAX_VALUE_NODES_def total_nodes_def\<close>)

text \<open>C27. Whatever bytes arrive, a decoded state is within the limits of the
  format: a message of at most 128 KiB, at most 4096 value nodes, nesting at most 32, valid UTF-8 in every string.
\<close>

theorem decoded_state_bounded:
  assumes "decode_repl_state T bs = Inr ls"
  shows "length bs \<le> MAX_WIRE_BYTES \<and> total_nodes ls \<le> MAX_VALUE_NODES \<and> (\<forall>v\<in>set ls. nests 0 v \<and> strs_ok v)"
  using decode_repl_state_sound [OF assms] by blast

theorem decoded_state_bounded_witness:
  "length (state_bytes [ReplBool True]) \<le> MAX_WIRE_BYTES \<and> total_nodes [ReplBool True] \<le> MAX_VALUE_NODES \<and>
   nests 0 (ReplBool True) \<and> strs_ok (ReplBool True)"
proof -
  have "decode_repl_state host_target (state_bytes [ReplBool True]) = Inr [ReplBool True]"
    using decode_repl_state_complete [of host_target "[ReplBool True]" "[]"]
    by (simp add: state_bytes_def MAX_NESTING_def MAX_WIRE_BYTES_def MAX_VALUE_NODES_def
        total_nodes_def)
  from decoded_state_bounded [OF this] show ?thesis by simp
qed

text \<open>No accepted state message is a proper prefix of another: appending any
  bytes to it, within the size limit, makes the decoder fail with \<open>TrailingData\<close>.
\<close>

theorem state_extension_rejected:
  assumes "target_ok T" and "decode_repl_state T bs = Inr ls" and "xs \<noteq> []"
    and "length (bs @ xs) \<le> MAX_WIRE_BYTES"
  shows "decode_repl_state T (bs @ xs) = Inl TrailingData"
  using assms decode_repl_state_sound [OF assms(2)] decode_repl_state_complete [of T ls xs] by simp

theorem state_extension_rejected_witness:
  "decode_repl_state host_target ([82, 83, 82, 49, 0, 0, 0, 0] @ [0]) = Inl TrailingData"
  by (rule state_extension_rejected [of host_target _ "[]"])
    (use decode_repl_state_complete [of host_target "[]" "[]"] in
      \<open>simp_all add: state_bytes_def magic_bytes le_eval MAX_WIRE_BYTES_def MAX_VALUE_NODES_def
        total_nodes_def\<close>)

text \<open>Every proper prefix of an accepted state message is rejected.
\<close>

theorem state_truncation_rejected:
  assumes "target_ok T" and "decode_repl_state T bs = Inr ls" and "k < length bs"
  shows "\<exists>e. decode_repl_state T (take k bs) = Inl e"
proof (rule ccontr)
  assume "\<nexists>e. decode_repl_state T (take k bs) = Inl e"
  then obtain ks where ks: "decode_repl_state T (take k bs) = Inr ks"
    by (cases "decode_repl_state T (take k bs)") auto
  note S = decode_repl_state_sound [OF ks]
  have len: "length bs \<le> MAX_WIRE_BYTES"
    using decode_repl_state_sound [OF assms(2)] by blast
  have "state_bytes ks @ drop k bs = bs"
    using S by (metis append_take_drop_id)
  then have "decode_repl_state T bs = Inl TrailingData"
    using decode_repl_state_complete [OF assms(1), of ks "drop k bs"] S len assms(3) by simp
  with assms(2) show False by simp
qed

theorem state_truncation_rejected_witness:
  "\<exists>e. decode_repl_state host_target (take 9 [82, 83, 82, 49, 1, 0, 0, 0, 3, 1]) = Inl e"
  by (rule state_truncation_rejected [of host_target _ "[ReplBool True]"])
    (use decode_repl_state_complete [of host_target "[ReplBool True]" "[]"] in
      \<open>simp_all add: state_bytes_def magic_bytes le_eval MAX_NESTING_def MAX_WIRE_BYTES_def
        MAX_VALUE_NODES_def total_nodes_def\<close>)

text \<open>Impossible collection lengths are refused before allocating: the
  decoder's behaviour does not depend on how the allocator would answer a request for more
  elements than the message has bytes, because it never makes one.
\<close>

theorem decoder_allocation_bounded:
  assumes "usize_max T = usize_max T'"
    and "\<forall>off n. n \<le> length bs \<longrightarrow> reserve_ok T off n = reserve_ok T' off n"
  shows "decode_repl_state T bs = decode_repl_state T' bs"
  using assms by (intro decode_repl_state_same_grants) (simp add: same_grants_def)

theorem decoder_allocation_bounded_witness:
  "decode_repl_state (esp_target\<lparr>reserve_ok := \<lambda>_ n. n \<le> 12\<rparr>)
     [82, 83, 82, 49, 255, 255, 255, 255, 6, 6, 6, 6] =
   decode_repl_state esp_target [82, 83, 82, 49, 255, 255, 255, 255, 6, 6, 6, 6]"
  by (rule decoder_allocation_bounded) (simp_all add: esp_target_def)

text \<open>The encoder accepts a state exactly when no value nests deeper than 32
  levels and the message fits in 128 KiB; it has no node limit of its own.
\<close>

theorem encode_state_succeeds_iff:
  "encode_repl_state ls = Inr bs \<longleftrightarrow>
     bs = state_bytes ls \<and> list_all (nests 0) ls \<and> length (state_bytes ls) \<le> MAX_WIRE_BYTES"
proof -
  have "length (state_bytes ls) < 2 ^ 32 \<and> (\<forall>v\<in>set ls. lens_ok v) \<and> length ls < 2 ^ 32"
    if "length (state_bytes ls) \<le> MAX_WIRE_BYTES" "\<forall>v\<in>set ls. nests 0 v"
  proof -
    have "length (state_bytes ls) < 2 ^ 32"
      using that by (simp add: MAX_WIRE_BYTES_def)
    moreover have "length ls \<le> length (state_bytes ls)"
      using length_concat_ser [of ls] by (simp add: state_bytes_def)
    ultimately show ?thesis
      using that lens_ok_state [of ls] by auto
  qed
  then show ?thesis by (auto simp: encode_repl_state_iff list_all_iff)
qed

text \<open>C40. The node limit is only on the decoding side: a state of 4097 null locals
  encodes without error, and both targets then refuse the message.
\<close>

theorem encoder_exceeds_decoder:
  "\<exists>bs. encode_repl_state (replicate 4097 ReplNull) = Inr bs \<and>
     decode_repl_state esp_target bs = Inl LengthOverflow \<and>
     decode_repl_state host_target bs = Inl LengthOverflow"
proof -
  let ?ls = "replicate 4097 ReplNull"
  have len: "length (state_bytes ?ls) = 4105" and nodes: "total_nodes ?ls = 4097"
    by (simp_all add: state_bytes_def total_nodes_def length_concat map_replicate_const
        sum_list_replicate)
  have "encode_repl_state ?ls = Inr (state_bytes ?ls)"
    using len by (simp add: encode_repl_state_iff MAX_WIRE_BYTES_def MAX_NESTING_def)
  then show ?thesis
    using decode_repl_state_complete [of esp_target ?ls "[]"]
      decode_repl_state_complete [of host_target ?ls "[]"] len nodes
    by (simp add: MAX_WIRE_BYTES_def MAX_VALUE_NODES_def MAX_NESTING_def)
qed

end
