(* ===== verification/Crc.thy ===== *)
theory Crc
  imports Prelude
begin

text \<open>
  The checksum of the serial frames: \<open>crc32\<close> and \<open>request_crc\<close> of
  \<open>src/repl_client.rs\<close>. The bit step is a linear map on the 32-bit register with trivial
  kernel, so the register is an injective function of any four consecutive message bytes; that
  gives the error-detection theorems.
\<close>

section \<open>Definitions\<close>

definition crc_bit :: "u32 \<Rightarrow> u32" where
  "crc_bit crc = (let mask = 0 - (crc AND 1) in drop_bit 1 crc XOR (0xedb88320 AND mask))"

definition crc_byte :: "u32 \<Rightarrow> u8 \<Rightarrow> u32" where
  "crc_byte crc b = (crc_bit ^^ 8) (crc XOR ucast b)"

definition crc32 :: "u8 list \<Rightarrow> u32" where
  "crc32 bs = NOT (foldl crc_byte 0xffffffff bs)"

definition request_crc :: "u8 list \<Rightarrow> u8 list \<Rightarrow> u32" where
  "request_crc program state = crc32 program XOR word_rotl 1 (crc32 state)"

section \<open>The bit step is linear and injective\<close>

lemma xor_eq_0_iff: "x XOR y = 0 \<longleftrightarrow> x = y" for x y :: "'a::len word"
proof
  assume "x XOR y = 0"
  then have "\<And>i. bit (x XOR y) i = bit (0 :: 'a word) i" by simp
  then show "x = y" by (intro bit_word_eqI) (simp add: bit_xor_iff)
qed simp

lemma xor_left_inject: "z XOR x = z XOR y \<longleftrightarrow> x = y" for x y z :: "'a::len word"
proof
  assume "z XOR x = z XOR y"
  then have "\<And>i. bit (z XOR x) i = bit (z XOR y) i" by simp
  then show "x = y" by (intro bit_word_eqI) (auto simp: bit_xor_iff)
qed simp

lemma xor_right_inject: "x XOR z = y XOR z \<longleftrightarrow> x = y" for x y z :: "'a::len word"
  using xor_left_inject [of z x y] by (simp only: xor.commute)

lemma crc_bit_alt: "crc_bit x = drop_bit 1 x XOR (if odd x then 0xedb88320 else 0)"
proof -
  have "x AND 1 = of_bool (odd x)"
    by (simp add: and_one_eq mod_2_eq_odd)
  then show ?thesis by (simp add: crc_bit_def)
qed

lemma crc_bit_xor: "crc_bit (x XOR y) = crc_bit x XOR crc_bit y"
  by (auto simp: crc_bit_alt drop_bit_xor even_xor_iff ac_simps)

lemma crc_bit_0 [simp]: "crc_bit 0 = 0"
  by (simp add: crc_bit_def)

lemma poly_top: "bit (0xedb88320 :: u32) 31"
  by (simp add: bit_iff_odd_drop_bit)

lemma crc_bit_eq_0: "crc_bit x = 0 \<longleftrightarrow> x = 0"
proof
  assume *: "crc_bit x = 0"
  have *: "drop_bit 1 x = (if odd x then 0xedb88320 else 0)"
    using * unfolding crc_bit_alt by (rule xor_eq_0_iff [THEN iffD1])
  have e: "even x"
  proof (rule ccontr)
    assume "odd x"
    then have d: "drop_bit 1 x = 0xedb88320"
      unfolding * by (rule if_P)
    have "bit (drop_bit 1 x) 31" unfolding d by (rule poly_top)
    moreover have "\<not> bit (drop_bit 1 x) 31"
      by (auto simp: bit_drop_bit_eq dest: bit_imp_le_length)
    ultimately show False by contradiction
  qed
  with * have z: "drop_bit 1 x = 0" by simp
  have "\<not> bit x k" for k
  proof (cases k)
    case (Suc m)
    have "bit (drop_bit 1 x) m = bit (0 :: u32) m" unfolding z ..
    with Suc show ?thesis by (simp add: bit_drop_bit_eq)
  qed (use e in \<open>simp add: bit_0\<close>)
  then show "x = 0" by (intro bit_word_eqI) simp
qed simp

lemma crc_bits_xor: "(crc_bit ^^ n) (x XOR y) = (crc_bit ^^ n) x XOR (crc_bit ^^ n) y"
  by (induction n) (simp_all add: crc_bit_xor)

lemma crc_bits_eq_0: "(crc_bit ^^ n) x = 0 \<longleftrightarrow> x = 0"
  by (induction n) (simp_all add: crc_bit_eq_0)

lemma crc_bits_inject: "(crc_bit ^^ n) x = (crc_bit ^^ n) y \<longleftrightarrow> x = y"
proof -
  have "(crc_bit ^^ n) x = (crc_bit ^^ n) y \<longleftrightarrow> (crc_bit ^^ n) (x XOR y) = 0"
    by (simp add: crc_bits_xor xor_eq_0_iff)
  also have "\<dots> \<longleftrightarrow> x = y"
    unfolding crc_bits_eq_0 by (rule xor_eq_0_iff)
  finally show ?thesis .
qed

lemma crc_bit_push: "\<not> bit y 31 \<Longrightarrow> crc_bit (push_bit 1 y) = y"
proof -
  assume top: "\<not> bit y 31"
  have "bit (drop_bit 1 (push_bit 1 y)) k = bit y k" if "k < 32" for k
    using top that
    by (cases "k = 31") (auto simp only: bit_drop_bit_eq bit_push_bit_iff o_def, auto dest: bit_imp_le_length)
  then have "drop_bit 1 (push_bit 1 y) = y"
    by (intro bit_word_eqI) simp
  moreover have "even (push_bit 1 y)" by simp
  ultimately show ?thesis unfolding crc_bit_alt by simp
qed

lemma crc_bits_push:
  "(\<And>k. 32 - n \<le> k \<Longrightarrow> k < 32 \<Longrightarrow> \<not> bit y k) \<Longrightarrow> n \<le> 32 \<Longrightarrow> (crc_bit ^^ n) (push_bit n y) = y"
proof (induction n)
  case (Suc n)
  have "push_bit (Suc n) y = push_bit 1 (push_bit n y)"
    by (simp only: push_bit_push_bit) simp
  moreover have "\<not> bit (push_bit n y) 31"
    using Suc.prems(1) [of "31 - n"] Suc.prems(2) by (auto simp: bit_push_bit_iff)
  ultimately have "(crc_bit ^^ Suc n) (push_bit (Suc n) y) = (crc_bit ^^ n) (push_bit n y)"
    by (metis crc_bit_push funpow_Suc_right comp_apply)
  also have "\<dots> = y"
    using Suc by simp
  finally show ?case .
qed simp

section \<open>Feeding bytes\<close>

lemma from_le_high: "8 * length bs \<le> k \<Longrightarrow> \<not> bit (from_le bs :: u32) k"
proof (induction bs arbitrary: k)
  case (Cons c cs)
  then have "\<not> bit (c :: u8) k" "\<not> bit (from_le cs :: u32) (k - 8)"
    by (auto dest: bit_imp_le_length)
  then show ?case by (simp add: bit_simps)
qed simp

lemma from_le_Cons_xor: "(from_le (b # bs) :: u32) = ucast b XOR push_bit 8 (from_le bs)"
proof -
  have "\<not> (bit (ucast b :: u32) k \<and> bit (push_bit 8 (from_le bs) :: u32) k)" for k
    by (auto simp: bit_push_bit_iff bit_ucast_iff dest: bit_imp_le_length)
  then have "bit (ucast b OR push_bit 8 (from_le bs) :: u32) k
      = bit (ucast b XOR push_bit 8 (from_le bs) :: u32) k" for k
    by (auto simp only: bit_or_iff bit_xor_iff)
  then show ?thesis by (intro bit_word_eqI) (simp only: from_le.simps)
qed

lemma feed_from_le:
  "length bs \<le> 4 \<Longrightarrow> foldl crc_byte s bs = (crc_bit ^^ (8 * length bs)) (s XOR from_le bs)"
proof (induction bs arbitrary: s)
  case (Cons b bs)
  let ?x = "from_le bs :: u32"
  have x: "(crc_bit ^^ 8) (push_bit 8 ?x) = ?x"
    using Cons.prems by (intro crc_bits_push) (auto intro!: from_le_high)
  have "foldl crc_byte s (b # bs) = (crc_bit ^^ (8 * length bs)) (crc_byte s b XOR ?x)"
    using Cons by simp
  also have "crc_byte s b XOR ?x = (crc_bit ^^ 8) ((s XOR ucast b) XOR push_bit 8 ?x)"
    unfolding crc_bits_xor x crc_byte_def ..
  also have "(s XOR ucast b) XOR push_bit 8 ?x = s XOR from_le (b # bs)"
    unfolding from_le_Cons_xor by (rule xor.assoc)
  finally have "foldl crc_byte s (b # bs)
      = (crc_bit ^^ (8 * length bs + 8)) (s XOR from_le (b # bs))"
    by (simp only: funpow_add o_def)
  then show ?case by (simp only: list.size mult_Suc_right add.commute) simp
qed simp

lemma feed_inject: "foldl crc_byte s bs = foldl crc_byte t bs \<longleftrightarrow> s = t"
proof (induction bs arbitrary: s t)
  case (Cons b bs)
  have "crc_byte s b = crc_byte t b \<longleftrightarrow> s = t"
    unfolding crc_byte_def crc_bits_inject by (rule xor_right_inject)
  then show ?case by (simp add: Cons)
qed simp

lemma feed_window_inject:
  assumes "length v = length w" "length w \<le> 4"
  shows "foldl crc_byte s v = foldl crc_byte s w \<longleftrightarrow> v = w"
proof
  assume "foldl crc_byte s v = foldl crc_byte s w"
  then have "s XOR from_le v = s XOR from_le w"
    using assms by (simp add: feed_from_le crc_bits_inject)
  then have "(from_le v :: u32) = from_le w"
    by (simp only: xor_left_inject)
  then have "le_bytes (length w) (from_le v :: u32) = le_bytes (length w) (from_le w :: u32)"
    by simp
  then show "v = w" using assms by (simp add: le_bytes_from_le)
qed simp

lemma not_inject: "(NOT a :: 'a::len word) = NOT b \<longleftrightarrow> a = b"
  by (metis bit.double_compl)

lemma crc32_window:
  assumes "length v = length w" "length w \<le> 4"
  shows "crc32 (xs @ v @ ys) = crc32 (xs @ w @ ys) \<longleftrightarrow> v = w"
  using feed_window_inject [OF assms] unfolding crc32_def not_inject by (simp add: feed_inject)

section \<open>Error detection\<close>

text \<open>The frame checksum detects every corruption confined to four consecutive bytes: if two
  messages of the same length differ only inside such a window, their checksums differ.\<close>

theorem crc32_detects_burst:
  assumes "length v = length w" "length w \<le> 4" "v \<noteq> w"
  shows "crc32 (xs @ v @ ys) \<noteq> crc32 (xs @ w @ ys)"
  using crc32_window [OF assms(1,2)] assms(3) by simp

theorem crc32_detects_burst_witness:
  "crc32 ([9, 8] @ [1, 2, 3, 4] @ [7]) \<noteq> crc32 ([9, 8] @ [1, 2, 3, 0x84] @ [7])"
  by (rule crc32_detects_burst) simp_all

lemma rotl_inject: "word_rotl n x = word_rotl n y \<longleftrightarrow> x = y"
  by (metis word_rot_gal)

lemma request_crc_inject:
  "request_crc program state = request_crc program' state \<longleftrightarrow> crc32 program = crc32 program'"
  "request_crc program state = request_crc program state' \<longleftrightarrow> crc32 state = crc32 state'"
  by (simp_all only: request_crc_def xor_right_inject xor_left_inject rotl_inject)

text \<open>The request checksum, which mixes the checksums of the two parts of a request, detects a
  corruption confined to four consecutive bytes of the program, and equally one confined to
  four consecutive bytes of the state.\<close>

theorem request_crc_detects_burst:
  assumes "length v = length w" "length w \<le> 4" "v \<noteq> w"
  shows "request_crc (xs @ v @ ys) state \<noteq> request_crc (xs @ w @ ys) state
       \<and> request_crc program (xs @ v @ ys) \<noteq> request_crc program (xs @ w @ ys)"
  using crc32_window [OF assms(1,2)] assms(3) by (simp add: request_crc_inject)

theorem request_crc_detects_burst_witness:
  "request_crc ([5] @ [1, 2] @ []) [3] \<noteq> request_crc ([5] @ [2, 1] @ []) [3]
   \<and> request_crc [3] ([5] @ [1, 2] @ []) \<noteq> request_crc [3] ([5] @ [2, 1] @ [])"
  by (rule request_crc_detects_burst) simp_all

end
