(* ===== verification/Transport.thy ===== *)
theory Transport
  imports Crc Rust_Str
begin

text \<open>
  The serial transport: \<open>SerialReplTransport\<close> of \<open>src/repl_client.rs\<close>. The byte
  stream underneath (\<open>T: Read + Write\<close>) is a parameter, a record of the three operations
  the code calls; each takes the state of the stream and returns it updated with an
  \<open>io::Result\<close>. The transport writes one framed request, then hunts for the response
  header in whatever the device prints, keeping the rest as device output.
\<close>

section \<open>Input and output\<close>

text \<open>The \<open>io::ErrorKind\<close>s the sources name; any other one carries its name.\<close>

datatype error_kind = UnexpectedEof | InvalidInput | InvalidData | OtherKind string

datatype io_error = Io_Error (kind: error_kind) (message: string)

record 'io io_ops =
  read_exact_op :: "nat \<Rightarrow> 'io \<Rightarrow> (io_error + u8 list) \<times> 'io"
  write_all_op :: "u8 list \<Rightarrow> 'io \<Rightarrow> (io_error + unit) \<times> 'io"
  flush_op :: "'io \<Rightarrow> (io_error + unit) \<times> 'io"

text \<open>The \<open>?\<close> operator on an operation that also changes the stream.\<close>

definition io_then :: "(io_error + 'a) \<times> 's \<Rightarrow> ('a \<Rightarrow> 's \<Rightarrow> (io_error + 'b) \<times> 's)
    \<Rightarrow> (io_error + 'b) \<times> 's" where
  "io_then r f = (case r of (Inl e, s) \<Rightarrow> (Inl e, s) | (Inr a, s) \<Rightarrow> f a s)"

lemma io_then_simps [simp]:
  "io_then (Inl e, s) f = (Inl e, s)"
  "io_then (Inr a, s) f = f a s"
  by (simp_all add: io_then_def)

section \<open>The transport\<close>

definition REPL_REQUEST_MAGIC :: "u8 list" where
  "REPL_REQUEST_MAGIC = as_bytes ''RSSQ''"

definition REPL_RESPONSE_MAGIC :: "u8 list" where
  "REPL_RESPONSE_MAGIC = as_bytes ''RSSP''"

definition FRAME_VERSION :: u16 where
  "FRAME_VERSION = 1"

definition FRAME_HEADER_LEN :: nat where
  "FRAME_HEADER_LEN = 24"

definition MAX_FRAME_BYTES :: nat where
  "MAX_FRAME_BYTES = 128 * 1024"

record 'io transport =
  io :: 'io
  device_output :: "u8 list"
  next_request_id :: u32

definition transport_new :: "'io \<Rightarrow> 'io transport" where
  "transport_new s = \<lparr>io = s, device_output = [], next_request_id = 1\<rparr>"

definition into_inner :: "'io transport \<Rightarrow> 'io" where
  "into_inner t = io t"

definition take_device_output :: "'io transport \<Rightarrow> u8 list \<times> 'io transport" where
  "take_device_output t = (device_output t, t\<lparr>device_output := []\<rparr>)"

definition read_stream_byte ::
  "'io io_ops \<Rightarrow> 'io \<times> u8 list \<Rightarrow> (io_error + u8) \<times> 'io \<times> u8 list" where
  "read_stream_byte ops st = (case st of (s, pending) \<Rightarrow>
     (case pending of
        byte # rest \<Rightarrow> (Inr byte, s, rest)
      | [] \<Rightarrow>
          (case read_exact_op ops 1 s of
             (Inl e, s') \<Rightarrow> (Inl e, s', [])
           | (Inr bytes, s') \<Rightarrow> (Inr (bytes ! 0), s', []))))"

text \<open>The loops that fill \<open>candidate[..4]\<close> and \<open>candidate[4..]\<close>.\<close>

fun read_stream_bytes ::
  "'io io_ops \<Rightarrow> nat \<Rightarrow> 'io \<times> u8 list \<Rightarrow> (io_error + u8 list) \<times> 'io \<times> u8 list" where
  "read_stream_bytes ops 0 st = (Inr [], st)"
| "read_stream_bytes ops (Suc n) st =
     io_then (read_stream_byte ops st) (\<lambda>byte st.
       io_then (read_stream_bytes ops n st) (\<lambda>bytes st. (Inr (byte # bytes), st)))"

text \<open>The inner loop: slide the window over the stream until it holds the magic, pushing the
  bytes that leave it to the device output, at most 64 KiB of them.\<close>

function scan_magic :: "'io io_ops \<Rightarrow> u8 list \<Rightarrow> u8 list \<Rightarrow> 'io \<times> u8 list
    \<Rightarrow> (io_error + unit) \<times> u8 list \<times> 'io \<times> u8 list" where
  "scan_magic ops window out st =
     (if window = REPL_RESPONSE_MAGIC then (Inr (), out, st)
      else if 64 * 1024 \<le> length out then
        (Inl (Io_Error InvalidData ''REPL response prelude exceeds size limit''), out, st)
      else
        (case read_stream_byte ops st of
           (Inl e, st') \<Rightarrow> (Inl e, out @ [window ! 0], st')
         | (Inr byte, st') \<Rightarrow> scan_magic ops (tl window @ [byte]) (out @ [window ! 0]) st'))"
  by pat_completeness auto
termination
  by (relation "measure (\<lambda>(ops, window, out, st). 64 * 1024 - length out)") auto

declare scan_magic.simps [simp del]

definition header_version :: "u8 list \<Rightarrow> u16" where
  "header_version candidate = from_le (slice 4 6 candidate)"

definition header_id :: "u8 list \<Rightarrow> u32" where
  "header_id candidate = from_le (slice 8 12 candidate)"

definition header_status :: "u8 list \<Rightarrow> i32" where
  "header_status candidate = from_le (slice 12 16 candidate)"

definition header_len :: "u8 list \<Rightarrow> u32" where
  "header_len candidate = from_le (slice 16 20 candidate)"

definition header_crc :: "u8 list \<Rightarrow> u32" where
  "header_crc candidate = from_le (slice 20 24 candidate)"

lemma length_read_stream_bytes:
  "read_stream_bytes ops n st = (Inr bytes, st') \<Longrightarrow> length bytes = n"
proof (induction n arbitrary: st bytes st')
  case (Suc n)
  from Suc.prems show ?case
    by (auto simp: io_then_def split: prod.splits sum.splits intro: Suc.IH)
qed simp

lemma read_stream_byte_pending [simp]:
  "read_stream_byte ops (s, b # pending) = (Inr b, s, pending)"
  by (simp add: read_stream_byte_def)

lemma read_stream_bytes_pending:
  "n \<le> length pending \<Longrightarrow>
   read_stream_bytes ops n (s, pending) = (Inr (take n pending), s, drop n pending)"
proof (induction n arbitrary: pending)
  case (Suc n)
  then show ?case by (cases pending) auto
qed simp

lemma scan_magic_length:
  "scan_magic ops window out st = (Inr u, out', st') \<Longrightarrow>
     length out \<le> length out' \<and> (window = REPL_RESPONSE_MAGIC \<or> length out < 64 * 1024)"
proof (induction ops window out st rule: scan_magic.induct)
  case (1 ops window out st)
  from "1.prems" show ?case
    by (subst (asm) scan_magic.simps)
      (auto split: if_splits prod.splits sum.splits dest!: "1.IH")
qed

lemma magic_no_overlap:
  "take 4 (tl (REPL_RESPONSE_MAGIC @ rest)) \<noteq> REPL_RESPONSE_MAGIC"
  by (simp add: REPL_RESPONSE_MAGIC_def as_bytes_def)

text \<open>The outer loop, up to the point where a header for this request is in \<open>candidate\<close>.
  A frame of another request or version is no response: its first byte is device output and
  the other 23 are read again.\<close>

function find_response :: "'io io_ops \<Rightarrow> u32 \<Rightarrow> u8 list \<Rightarrow> 'io \<times> u8 list
    \<Rightarrow> (io_error + u8 list) \<times> u8 list \<times> 'io \<times> u8 list" where
  "find_response ops request_id out st =
     (case read_stream_bytes ops 4 st of
        (Inl e, st1) \<Rightarrow> (Inl e, out, st1)
      | (Inr window, st1) \<Rightarrow>
          (case scan_magic ops window out st1 of
             (Inl e, out1, st2) \<Rightarrow> (Inl e, out1, st2)
           | (Inr _, out1, st2) \<Rightarrow>
               (case read_stream_bytes ops (FRAME_HEADER_LEN - 4) st2 of
                  (Inl e, st3) \<Rightarrow> (Inl e, out1, st3)
                | (Inr rest, s, pending) \<Rightarrow>
                    (let candidate = REPL_RESPONSE_MAGIC @ rest in
                     if header_version candidate \<noteq> FRAME_VERSION
                        \<or> header_id candidate \<noteq> request_id then
                       find_response ops request_id (out1 @ [candidate ! 0])
                         (s, tl candidate @ pending)
                     else (Inr candidate, out1, s, pending)))))"
  by pat_completeness auto

text \<open>Each round pushes a byte, and a round that starts on the rest of a refused header, which
  cannot start with the magic, passes the 64 KiB test first.\<close>

definition find_measure :: "u8 list \<Rightarrow> u8 list \<Rightarrow> nat" where
  "find_measure out pending = 2 * (64 * 1024 + 1 - length out)
     + (if 4 \<le> length pending \<and> take 4 pending \<noteq> REPL_RESPONSE_MAGIC then 0 else 1)"

lemma find_measure_decreases:
  assumes read: "read_stream_bytes ops 4 (s0, pending0) = (Inr window, st1)"
    and scan: "scan_magic ops window out st1 = (Inr u, out1, st2)"
    and rest: "read_stream_bytes ops (FRAME_HEADER_LEN - 4) st2 = (Inr rest, s, pending)"
  shows "find_measure (out1 @ [b]) (tl (REPL_RESPONSE_MAGIC @ rest) @ pending)
       < find_measure out pending0"
proof -
  have len: "length rest = 20"
    using length_read_stream_bytes [OF rest] by (simp add: FRAME_HEADER_LEN_def)
  have m4: "length REPL_RESPONSE_MAGIC = 4"
    by (simp add: REPL_RESPONSE_MAGIC_def)
  have "take 4 (tl (REPL_RESPONSE_MAGIC @ rest) @ pending) = take 4 (tl (REPL_RESPONSE_MAGIC @ rest))"
    using len m4 by simp
  then have "find_measure (out1 @ [b]) (tl (REPL_RESPONSE_MAGIC @ rest) @ pending)
      = 2 * (64 * 1024 - length out1)"
    unfolding find_measure_def using len m4 magic_no_overlap [of rest] by simp
  moreover note scan_magic_length [OF scan]
  moreover have "4 \<le> length pending0 \<and> take 4 pending0 \<noteq> REPL_RESPONSE_MAGIC
      \<Longrightarrow> window \<noteq> REPL_RESPONSE_MAGIC"
    using read by (simp add: read_stream_bytes_pending)
  ultimately show ?thesis unfolding find_measure_def by auto
qed

termination find_response
proof (relation "measure (\<lambda>(ops, request_id, out, s, pending). find_measure out pending)", goal_cases)
  case 1
  then show ?case by simp
next
  case (2 ops request_id out st)
  then show ?case
    by (cases st) (auto elim!: find_measure_decreases [OF sym sym sym])
qed

declare find_response.simps [simp del]

definition request_header :: "u32 \<Rightarrow> u8 list \<Rightarrow> u8 list \<Rightarrow> u8 list" where
  "request_header request_id program state =
     REPL_REQUEST_MAGIC @ u16_bytes FRAME_VERSION @ [0, 0] @ u32_bytes request_id
     @ u32_bytes (of_nat (length program)) @ u32_bytes (of_nat (length state))
     @ u32_bytes (request_crc program state)"

definition send_request :: "'io io_ops \<Rightarrow> u8 list \<Rightarrow> u8 list \<Rightarrow> u8 list \<Rightarrow> 'io
    \<Rightarrow> (io_error + unit) \<times> 'io" where
  "send_request ops header program state s =
     io_then (write_all_op ops header s) (\<lambda>_ s.
     io_then (write_all_op ops program s) (\<lambda>_ s.
     io_then (write_all_op ops state s) (\<lambda>_ s.
     flush_op ops s)))"

definition read_payload :: "'io io_ops \<Rightarrow> u8 list \<Rightarrow> 'io
    \<Rightarrow> (io_error + i32 \<times> u8 list) \<times> 'io" where
  "read_payload ops candidate s =
     (let response_len = unat (header_len candidate) in
      if MAX_FRAME_BYTES < response_len then
        (Inl (Io_Error InvalidData ''REPL response exceeds size limit''), s)
      else io_then (read_exact_op ops response_len s) (\<lambda>response s.
        if crc32 response \<noteq> header_crc candidate then
          (Inl (Io_Error InvalidData ''REPL response CRC mismatch''), s)
        else (Inr (header_status candidate, response), s)))"

text \<open>\<open>execute\<close>. The request id is consumed by every request that passes the size checks;
  the device output is only cleared once the request is flushed. (\<open>saturating_add\<close> is
  the sum here: two slices whose lengths saturate are past the limit either way.)\<close>

definition execute :: "'io io_ops \<Rightarrow> u8 list \<Rightarrow> u8 list \<Rightarrow> 'io transport
    \<Rightarrow> (io_error + i32 \<times> u8 list) \<times> 'io transport" where
  "execute ops program state t =
     (if 2 ^ 32 \<le> length program then
        (Inl (Io_Error InvalidInput ''VMBC frame too large''), t)
      else if 2 ^ 32 \<le> length state then
        (Inl (Io_Error InvalidInput ''state frame too large''), t)
      else if MAX_FRAME_BYTES < length program + length state then
        (Inl (Io_Error InvalidInput ''REPL request exceeds size limit''), t)
      else
        (let request_id = next_request_id t;
             t = t\<lparr>next_request_id := max (request_id + 1) 1\<rparr>;
             header = request_header request_id program state
         in case send_request ops header program state (io t) of
              (Inl e, s) \<Rightarrow> (Inl e, t\<lparr>io := s\<rparr>)
            | (Inr _, s) \<Rightarrow>
                (case find_response ops request_id [] (s, []) of
                   (Inl e, out, s1, _) \<Rightarrow> (Inl e, t\<lparr>io := s1, device_output := out\<rparr>)
                 | (Inr candidate, out, s1, _) \<Rightarrow>
                     (case read_payload ops candidate s1 of
                        (r, s2) \<Rightarrow> (r, t\<lparr>io := s2, device_output := out\<rparr>)))))"

end
