(* ===== verification/Transport_Props.thy ===== *)
theory Transport_Props
  imports Transport
begin

text \<open>
  What the serial transport promises. A stream is abstracted to the bytes that will arrive and
  the bytes that were sent (locale \<open>byte_stream\<close>); on it the two nested loops of
  \<open>execute\<close> compute a plain left-to-right search, \<open>seek\<close>, and the search has a
  declarative meaning: the first response header for this request, at most 64 KiB in.
\<close>

section \<open>The reference search\<close>

definition good_header :: "u32 \<Rightarrow> u8 list \<Rightarrow> bool" where
  "good_header rid c \<longleftrightarrow> header_version c = FRAME_VERSION \<and> header_id c = rid"

datatype search = Found nat | Prelude_Limit nat | Stream_End nat

text \<open>The position reached counts the bytes already given up as device output.\<close>

fun seek :: "u32 \<Rightarrow> nat \<Rightarrow> u8 list \<Rightarrow> search" where
  "seek rid n [] = Stream_End n"
| "seek rid n (b # bs) =
     (let s = b # bs in
      if length s < 4 then Stream_End n
      else if take 4 s = REPL_RESPONSE_MAGIC then
        (if length s < FRAME_HEADER_LEN then Stream_End n
         else if good_header rid (take FRAME_HEADER_LEN s) then Found n
         else seek rid (Suc n) bs)
      else if 64 * 1024 \<le> n then Prelude_Limit n
      else seek rid (Suc n) bs)"

definition header_at :: "u32 \<Rightarrow> u8 list \<Rightarrow> nat \<Rightarrow> bool" where
  "header_at rid s k \<longleftrightarrow> k + FRAME_HEADER_LEN \<le> length s
     \<and> take 4 (drop k s) = REPL_RESPONSE_MAGIC
     \<and> good_header rid (take FRAME_HEADER_LEN (drop k s))"

lemma length_response_magic [simp]: "length REPL_RESPONSE_MAGIC = 4"
  by (simp add: REPL_RESPONSE_MAGIC_def)

lemma seek_short: "length s < 4 \<Longrightarrow> seek rid n s = Stream_End n"
  by (cases s) auto

lemma seek_skip:
  "4 \<le> length s \<Longrightarrow> take 4 s \<noteq> REPL_RESPONSE_MAGIC \<Longrightarrow> n < 64 * 1024 \<Longrightarrow>
   seek rid n s = seek rid (Suc n) (tl s)"
  by (cases s) auto

lemma seek_limit:
  "4 \<le> length s \<Longrightarrow> take 4 s \<noteq> REPL_RESPONSE_MAGIC \<Longrightarrow> 64 * 1024 \<le> n \<Longrightarrow>
   seek rid n s = Prelude_Limit n"
  by (cases s) auto

lemma magic_long: "take 4 s = REPL_RESPONSE_MAGIC \<Longrightarrow> 4 \<le> length s"
  using length_response_magic by (metis length_take min.absorb_iff1 min.commute)

lemma seek_magic:
  "take 4 s = REPL_RESPONSE_MAGIC \<Longrightarrow> seek rid n s =
     (if length s < FRAME_HEADER_LEN then Stream_End n
      else if good_header rid (take FRAME_HEADER_LEN s) then Found n
      else seek rid (Suc n) (tl s))"
proof -
  assume m: "take 4 s = REPL_RESPONSE_MAGIC"
  from magic_long [OF m] obtain b bs where "s = b # bs" by (cases s) auto
  with m magic_long [OF m] show ?thesis by (simp only: seek.simps Let_def list.sel if_True) auto
qed

declare seek.simps(2) [simp del]

lemma header_at_0_tl: "header_at rid s (Suc k) \<longleftrightarrow> header_at rid (tl s) k \<and> s \<noteq> []"
  by (cases s) (simp_all add: header_at_def)

lemma seek_finds:
  "header_at rid s j \<Longrightarrow> (\<forall>i<j. \<not> header_at rid s i) \<Longrightarrow> n + j \<le> 64 * 1024 \<Longrightarrow>
   seek rid n s = Found (n + j)"
proof (induction j arbitrary: n s)
  case 0
  then show ?case by (auto simp: header_at_def seek_magic)
next
  case (Suc j)
  have len: "24 < length s"
    using Suc.prems(1) by (auto simp: header_at_def FRAME_HEADER_LEN_def)
  have "header_at rid (tl s) j"
    using Suc.prems(1) by (simp add: header_at_0_tl)
  moreover have "\<forall>i<j. \<not> header_at rid (tl s) i"
  proof (intro allI impI)
    fix i assume "i < j"
    then have "\<not> header_at rid s (Suc i)" using Suc.prems(2) by blast
    then show "\<not> header_at rid (tl s) i"
      using len unfolding header_at_0_tl by auto
  qed
  ultimately have IH: "seek rid (Suc n) (tl s) = Found (n + Suc j)"
    using Suc.IH [of "tl s" "Suc n"] Suc.prems(3) by simp
  have "\<not> header_at rid s 0" using Suc.prems(2) by simp
  moreover have "FRAME_HEADER_LEN \<le> length s"
    using len by (simp add: FRAME_HEADER_LEN_def)
  ultimately show ?case
    using IH len Suc.prems(3)
    by (cases "take 4 s = REPL_RESPONSE_MAGIC")
      (simp_all add: seek_magic seek_skip header_at_def)
qed

lemma magic_shift: "take 4 s = REPL_RESPONSE_MAGIC \<Longrightarrow> take 4 (tl s) \<noteq> REPL_RESPONSE_MAGIC"
proof
  assume a: "take 4 s = REPL_RESPONSE_MAGIC" and b: "take 4 (tl s) = REPL_RESPONSE_MAGIC"
  have "take 4 s ! 1 = take 4 (tl s) ! 0"
    using arg_cong [OF a, of length] by (cases s) auto
  then show False unfolding a b by (simp add: REPL_RESPONSE_MAGIC_def as_bytes_def)
qed

lemma seek_Found:
  "seek rid n s = Found k \<Longrightarrow>
     n \<le> k \<and> header_at rid s (k - n) \<and> (\<forall>i<k - n. \<not> header_at rid s i)
     \<and> (k \<le> 64 * 1024 \<or> k = n)"
proof (induction s arbitrary: n)
  case (Cons b bs)
  let ?s = "b # bs"
  have long: "4 \<le> length ?s"
    using Cons.prems by (auto simp: seek_short not_less [symmetric])
  have later: ?case
    if r: "seek rid (Suc n) bs = Found k" and no: "\<not> header_at rid ?s 0"
      and lim: "n < 64 * 1024 \<or> \<not> header_at rid bs 0"
  proof -
    note IH = Cons.IH [OF r]
    then have k: "k - n = Suc (k - Suc n)" by arith
    have "\<not> header_at rid ?s i" if "i < k - n" for i
      using that IH no k header_at_0_tl [of rid ?s "i - 1"] by (cases i) auto
    moreover have "header_at rid ?s (k - n)"
      unfolding k header_at_0_tl using IH by simp
    moreover have "k \<le> 64 * 1024" using IH lim by auto
    ultimately show ?thesis using IH by auto
  qed
  show ?case
  proof (cases "take 4 ?s = REPL_RESPONSE_MAGIC")
    case True
    show ?thesis
    proof (cases "good_header rid (take FRAME_HEADER_LEN ?s)")
      case good: True
      with seek_magic [OF True, of rid n] Cons.prems
      have "k = n \<and> FRAME_HEADER_LEN \<le> length ?s" by (simp split: if_splits)
      with True good show ?thesis unfolding header_at_def by simp
    next
      case bad: False
      with seek_magic [OF True, of rid n] Cons.prems
      have r: "seek rid (Suc n) bs = Found k" by (simp split: if_splits)
      have "\<not> header_at rid bs 0"
        using magic_shift [OF True] by (simp add: header_at_def)
      with r bad show ?thesis by (intro later) (simp_all add: header_at_def)
    qed
  next
    case False
    have "n < 64 * 1024"
      using seek_limit [OF long False, of n rid] Cons.prems by (cases "n < 64 * 1024") auto
    moreover from seek_skip [OF long False this] Cons.prems
    have "seek rid (Suc n) bs = Found k" by simp
    ultimately show ?thesis using False by (intro later) (simp_all add: header_at_def)
  qed
qed simp

section \<open>Byte streams\<close>

text \<open>
  What the transport relies on: a read of \<open>n\<close> bytes returns the next \<open>n\<close> bytes that
  arrive or fails, writes are appended to what was sent, and a flush may make the device answer
  (\<open>reply\<close>).
\<close>

locale byte_stream =
  fixes ops :: "'io io_ops"
    and incoming outgoing :: "'io \<Rightarrow> u8 list"
    and reply :: "'io \<Rightarrow> u8 list"
  assumes read_enough: "n \<le> length (incoming s) \<Longrightarrow>
      \<exists>s'. read_exact_op ops n s = (Inr (take n (incoming s)), s')
        \<and> incoming s' = drop n (incoming s) \<and> outgoing s' = outgoing s"
    and read_short: "length (incoming s) < n \<Longrightarrow>
      \<exists>e s'. read_exact_op ops n s = (Inl e, s') \<and> outgoing s' = outgoing s"
    and write_sent: "\<exists>s'. write_all_op ops bs s = (Inr (), s')
        \<and> incoming s' = incoming s \<and> outgoing s' = outgoing s @ bs"
    and flush_sent: "\<exists>s'. flush_op ops s = (Inr (), s')
        \<and> incoming s' = incoming s @ reply s \<and> outgoing s' = outgoing s"
begin

definition stream :: "'io \<times> u8 list \<Rightarrow> u8 list" where
  "stream st = snd st @ incoming (fst st)"

definition same_sent :: "'io \<times> u8 list \<Rightarrow> 'io \<times> u8 list \<Rightarrow> bool" where
  "same_sent st st' \<longleftrightarrow> outgoing (fst st') = outgoing (fst st)"

lemma read_byte_Cons:
  assumes "stream st = b # bs"
  obtains st' where "read_stream_byte ops st = (Inr b, st')" "stream st' = bs"
    "snd st' = drop 1 (snd st)" "same_sent st st'"
proof (cases st)
  case (Pair s pending)
  show ?thesis
  proof (cases pending)
    case Nil
    with assms Pair have "1 \<le> length (incoming s)" "incoming s = b # bs"
      by (simp_all add: stream_def)
    with read_enough [of 1 s] Pair Nil show ?thesis
      by (auto simp: read_stream_byte_def stream_def same_sent_def intro!: that)
  next
    case (Cons c cs)
    with assms Pair show ?thesis
      by (auto simp: stream_def same_sent_def intro!: that)
  qed
qed

lemma read_byte_Nil:
  assumes "stream st = []"
  obtains e st' where "read_stream_byte ops st = (Inl e, st')" "same_sent st st'"
proof (cases st)
  case (Pair s pending)
  with assms have "length (incoming s) < 1" "pending = []" by (simp_all add: stream_def)
  with read_short [of s 1] Pair show ?thesis
    by (auto simp: read_stream_byte_def same_sent_def intro!: that)
qed

lemma same_sent_trans [trans]: "same_sent a b \<Longrightarrow> same_sent b c \<Longrightarrow> same_sent a c"
  by (simp add: same_sent_def)

lemma read_bytes_enough:
  "n \<le> length (stream st) \<Longrightarrow>
     \<exists>st'. read_stream_bytes ops n st = (Inr (take n (stream st)), st')
       \<and> stream st' = drop n (stream st) \<and> snd st' = drop n (snd st) \<and> same_sent st st'"
proof (induction n arbitrary: st)
  case 0
  then show ?case by (simp add: same_sent_def)
next
  case (Suc n)
  then obtain b bs where b: "stream st = b # bs" by (cases "stream st") auto
  then obtain st1 where st1: "read_stream_byte ops st = (Inr b, st1)" "stream st1 = bs"
    "snd st1 = drop 1 (snd st)" "same_sent st st1" by (rule read_byte_Cons)
  with Suc b obtain st2 where st2: "read_stream_bytes ops n st1 = (Inr (take n bs), st2)"
    "stream st2 = drop n bs" "snd st2 = drop n (snd st1)" "same_sent st1 st2"
    by fastforce
  with st1 b show ?case
    using same_sent_trans by (auto simp: drop_Suc)
qed

lemma read_bytes_short:
  "length (stream st) < n \<Longrightarrow>
     \<exists>e st'. read_stream_bytes ops n st = (Inl e, st') \<and> same_sent st st'"
proof (induction n arbitrary: st)
  case (Suc n)
  show ?case
  proof (cases "stream st")
    case Nil
    then show ?thesis by (elim read_byte_Nil) auto
  next
    case (Cons b bs)
    then obtain st1 where st1: "read_stream_byte ops st = (Inr b, st1)" "stream st1 = bs"
      "snd st1 = drop 1 (snd st)" "same_sent st st1" by (rule read_byte_Cons)
    with Suc Cons obtain e st2 where "read_stream_bytes ops n st1 = (Inl e, st2)" "same_sent st1 st2"
      by fastforce
    with st1 show ?thesis using same_sent_trans by auto
  qed
qed simp

end

section \<open>The loops compute the search\<close>

definition limit_error :: io_error where
  "limit_error = Io_Error InvalidData ''REPL response prelude exceeds size limit''"

text \<open>How a search that failed is reported.\<close>

definition reports :: "search \<Rightarrow> nat \<Rightarrow> io_error \<Rightarrow> bool" where
  "reports r k e \<longleftrightarrow> r = Stream_End k \<or> r = Prelude_Limit k \<and> e = limit_error"

context byte_stream
begin

lemma scan_seek:
  assumes "length window = 4"
  shows "case scan_magic ops window out st of
      (Inr u, out1, st1) \<Rightarrow> \<exists>j. out1 = out @ take j (window @ stream st)
        \<and> stream st1 = drop j (stream st) \<and> j \<le> length (stream st)
        \<and> take 4 (drop j (window @ stream st)) = REPL_RESPONSE_MAGIC
        \<and> seek rid (length out) (window @ stream st)
          = seek rid (length out + j) (drop j (window @ stream st))
        \<and> snd st1 = drop j (snd st) \<and> same_sent st st1
    | (Inl e, out1, st1) \<Rightarrow> \<exists>j \<le> length (window @ stream st). out1 = out @ take j (window @ stream st)
        \<and> reports (seek rid (length out) (window @ stream st)) (length out + j) e \<and> same_sent st st1"
  using assms
proof (induction "stream st" arbitrary: window out st)
  case Nil
  have S: "window @ stream st = window" using Nil(1) by simp
  obtain e st' where r: "read_stream_byte ops st = (Inl e, st')" "same_sent st st'"
    using Nil(1) by (metis read_byte_Nil)
  consider "window = REPL_RESPONSE_MAGIC"
    | "window \<noteq> REPL_RESPONSE_MAGIC" "64 * 1024 \<le> length out"
    | "window \<noteq> REPL_RESPONSE_MAGIC" "length out < 64 * 1024" by linarith
  then show ?case
  proof cases
    case 1
    then show ?thesis
      unfolding S by (subst scan_magic.simps) (auto simp: same_sent_def intro!: exI [of _ 0])
  next
    case 2
    then show ?thesis
      unfolding S using Nil(2) seek_limit [of window "length out" rid]
      by (subst scan_magic.simps)
        (auto simp: same_sent_def reports_def limit_error_def intro!: exI [of _ 0])
  next
    case 3
    have "seek rid (length out) window = Stream_End (Suc (length out))"
      using 3 Nil(2) by (simp add: seek_skip seek_short)
    moreover have "[window ! 0] = take 1 window" using Nil(2) by (cases window) auto
    ultimately show ?thesis
      unfolding S using 3 r Nil(2)
      by (subst scan_magic.simps) (auto simp: reports_def intro!: exI [of _ 1])
  qed
next
  case (Cons b bs)
  obtain w ws where w: "window = w # ws" "length ws = 3"
    using Cons.prems by (cases window) auto
  obtain st1 where st1: "read_stream_byte ops st = (Inr b, st1)" "stream st1 = bs"
    "snd st1 = drop 1 (snd st)" "same_sent st st1"
    using Cons(2) by (metis read_byte_Cons)
  have eq: "stream st = b # stream st1"
    using Cons(2) st1(2) by simp
  have S: "window @ stream st = w # (ws @ [b]) @ stream st1"
    using eq w by simp
  have t4: "take 4 (w # (ws @ [b]) @ stream st1) = window" using w by simp
  consider "window = REPL_RESPONSE_MAGIC"
    | "window \<noteq> REPL_RESPONSE_MAGIC" "64 * 1024 \<le> length out"
    | "window \<noteq> REPL_RESPONSE_MAGIC" "length out < 64 * 1024" by linarith
  then show ?case
  proof cases
    case 1
    then show ?thesis
      unfolding S using t4
      by (subst scan_magic.simps) (auto simp: same_sent_def Cons(2) intro!: exI [of _ 0])
  next
    case 2
    then have "seek rid (length out) (w # (ws @ [b]) @ stream st1) = Prelude_Limit (length out)"
      using t4 w by (intro seek_limit) simp_all
    then show ?thesis
      unfolding S using 2
      by (subst scan_magic.simps)
        (auto simp: same_sent_def reports_def limit_error_def intro!: exI [of _ 0])
  next
    case 3
    let ?S1 = "(ws @ [b]) @ stream st1"
    have step: "scan_magic ops window out st = scan_magic ops (ws @ [b]) (out @ [w]) st1"
      using 3 st1 w by (subst scan_magic.simps) simp
    have skip: "seek rid (length out) (w # ?S1) = seek rid (length (out @ [w])) ?S1"
      using 3 t4 w seek_skip [of "w # ?S1" "length out" rid] by simp
    have IH: "case scan_magic ops (ws @ [b]) (out @ [w]) st1 of
      (Inr u, out1, st2) \<Rightarrow> \<exists>j. out1 = (out @ [w]) @ take j ?S1
        \<and> stream st2 = drop j (stream st1) \<and> j \<le> length (stream st1)
        \<and> take 4 (drop j ?S1) = REPL_RESPONSE_MAGIC
        \<and> seek rid (length (out @ [w])) ?S1 = seek rid (length (out @ [w]) + j) (drop j ?S1)
        \<and> snd st2 = drop j (snd st1) \<and> same_sent st1 st2
    | (Inl e, out1, st2) \<Rightarrow> \<exists>j \<le> length ?S1. out1 = (out @ [w]) @ take j ?S1
        \<and> reports (seek rid (length (out @ [w])) ?S1) (length (out @ [w]) + j) e \<and> same_sent st1 st2"
      by (rule Cons(1)) (use st1 w in simp_all)
    obtain r out1 st2 where r: "scan_magic ops (ws @ [b]) (out @ [w]) st1 = (r, out1, st2)"
      by (metis prod_cases3)
    show ?thesis
    proof (cases r)
      case (Inl e)
      with IH r obtain j where j: "j \<le> length ?S1" "out1 = (out @ [w]) @ take j ?S1"
        "reports (seek rid (length (out @ [w])) ?S1) (length (out @ [w]) + j) e" "same_sent st1 st2"
        by auto
      then show ?thesis
        unfolding S step r Inl skip prod.case sum.case
        using same_sent_trans [OF st1(4)] by (intro exI [of _ "Suc j"]) simp
    next
      case (Inr u)
      with IH r obtain j where j: "out1 = (out @ [w]) @ take j ?S1"
        "stream st2 = drop j (stream st1)" "j \<le> length (stream st1)"
        "take 4 (drop j ?S1) = REPL_RESPONSE_MAGIC"
        "seek rid (length (out @ [w])) ?S1 = seek rid (length (out @ [w]) + j) (drop j ?S1)"
        "snd st2 = drop j (snd st1)" "same_sent st1 st2"
        by auto
      then show ?thesis
        unfolding S step r Inr skip prod.case sum.case
        by (intro exI [of _ "Suc j"] conjI same_sent_trans [OF st1(4)])
          (simp_all add: eq st1(3))
    qed
  qed
qed

text \<open>What a run of the outer loop owes the search.\<close>

definition finds :: "u32 \<Rightarrow> u8 list \<Rightarrow> 'io \<times> u8 list
    \<Rightarrow> (io_error + u8 list) \<times> u8 list \<times> 'io \<times> u8 list \<Rightarrow> bool" where
  "finds rid out st res = (case res of
      (Inr c, out1, st1) \<Rightarrow> \<exists>j. seek rid (length out) (stream st) = Found (length out + j)
        \<and> c = take FRAME_HEADER_LEN (drop j (stream st)) \<and> out1 = out @ take j (stream st)
        \<and> stream st1 = drop (j + FRAME_HEADER_LEN) (stream st) \<and> snd st1 = [] \<and> same_sent st st1
    | (Inl e, out1, st1) \<Rightarrow> \<exists>j \<le> length (stream st). out1 = out @ take j (stream st)
        \<and> reports (seek rid (length out) (stream st)) (length out + j) e \<and> same_sent st st1)"

lemma finds_Inl:
  "j \<le> length (stream st) \<Longrightarrow> reports (seek rid (length out) (stream st)) (length out + j) e \<Longrightarrow>
   same_sent st st1 \<Longrightarrow> finds rid out st (Inl e, out @ take j (stream st), st1)"
  by (auto simp: finds_def)

lemma finds_Inr:
  "seek rid (length out) (stream st) = Found (length out + j) \<Longrightarrow>
   stream st1 = drop (j + FRAME_HEADER_LEN) (stream st) \<Longrightarrow> snd st1 = [] \<Longrightarrow> same_sent st st1 \<Longrightarrow>
   finds rid out st (Inr (take FRAME_HEADER_LEN (drop j (stream st))), out @ take j (stream st), st1)"
  by (auto simp: finds_def)

text \<open>A refused header: the search goes on one byte further.\<close>

lemma finds_shift:
  assumes j: "j < length (stream st)" and str: "stream st' = drop (Suc j) (stream st)"
    and seek: "seek rid (length out) (stream st) = seek rid (length out + Suc j) (drop (Suc j) (stream st))"
    and same: "same_sent st st'"
    and rest: "finds rid (out @ take (Suc j) (stream st)) st' res"
  shows "finds rid out st res"
proof -
  let ?S = "stream st"
  have len: "length (out @ take (Suc j) ?S) = length out + Suc j" using j by simp
  have tk: "(out @ take (Suc j) ?S) @ take i (drop (Suc j) ?S) = out @ take (Suc j + i) ?S" for i
    by (simp only: take_add append_assoc)
  have sum: "length out + Suc j + i = length out + (Suc j + i)"
    "drop i (drop (Suc j) ?S) = drop (Suc j + i) ?S"
    "drop (i + L) (drop (Suc j) ?S) = drop (Suc j + i + L) ?S" for i L
    by (simp_all add: add.commute add.left_commute)
  obtain r out1 st1 where res: "res = (r, out1, st1)" by (metis prod_cases3)
  note rest = rest [unfolded res finds_def prod.case str len tk seek [symmetric] sum]
  show ?thesis
  proof (cases r)
    case (Inl e)
    with rest obtain i where i: "i \<le> length (drop (Suc j) ?S)" "out1 = out @ take (Suc j + i) ?S"
      "reports (seek rid (length out) ?S) (length out + (Suc j + i)) e" "same_sent st' st1"
      by auto
    show ?thesis
      unfolding res Inl i(2) by (rule finds_Inl) (use i j same_sent_trans [OF same i(4)] in auto)
  next
    case (Inr c)
    with rest obtain i where i: "seek rid (length out) ?S = Found (length out + (Suc j + i))"
      "c = take FRAME_HEADER_LEN (drop (Suc j + i) ?S)" "out1 = out @ take (Suc j + i) ?S"
      "stream st1 = drop (Suc j + i + FRAME_HEADER_LEN) ?S" "snd st1 = []" "same_sent st' st1"
      by (auto simp: add.assoc)
    show ?thesis
      unfolding res Inr i(2,3) by (rule finds_Inr) (use i same_sent_trans [OF same i(6)] in auto)
  qed
qed

text \<open>One round of the outer loop on a stream that holds a whole window.\<close>

lemma header_split:
  "take 4 (drop j s) = REPL_RESPONSE_MAGIC \<Longrightarrow>
   REPL_RESPONSE_MAGIC @ take 20 (drop (j + 4) s) = take FRAME_HEADER_LEN (drop j s)"
  using take_add [of 4 20 "drop j s"] by (simp add: FRAME_HEADER_LEN_def add.commute)

lemma find_round:
  assumes S: "4 \<le> length (stream st)" and pend: "length (snd st) < FRAME_HEADER_LEN"
  shows "finds rid out st (find_response ops rid out st) \<or>
    (\<exists>j s3. let c = take FRAME_HEADER_LEN (drop j (stream st)) in
       j + FRAME_HEADER_LEN \<le> length (stream st) \<and> take 4 (drop j (stream st)) = REPL_RESPONSE_MAGIC
       \<and> \<not> good_header rid c \<and> seek rid (length out) (stream st) = seek rid (length out + j) (drop j (stream st))
       \<and> incoming s3 = drop (j + FRAME_HEADER_LEN) (stream st) \<and> same_sent st (s3, tl c)
       \<and> find_response ops rid out st
         = find_response ops rid (out @ take j (stream st) @ [c ! 0]) (s3, tl c))"
proof -
  let ?S = "stream st"
  have L: "FRAME_HEADER_LEN - 4 = 20" "FRAME_HEADER_LEN = 24" by (simp_all add: FRAME_HEADER_LEN_def)
  obtain st1 where st1: "read_stream_bytes ops 4 st = (Inr (take 4 ?S), st1)"
    "stream st1 = drop 4 ?S" "snd st1 = drop 4 (snd st)" "same_sent st st1"
    using read_bytes_enough [OF S] by auto
  have S1: "take 4 ?S @ stream st1 = ?S" using st1(2) by simp
  obtain r out1 st2 where scan: "scan_magic ops (take 4 ?S) out st1 = (r, out1, st2)"
    by (metis prod_cases3)
  have "length (take 4 ?S) = 4" using S by simp
  note spec = scan_seek [OF this, where out = out and st = st1 and rid = rid,
      unfolded scan prod.case S1]
  show ?thesis
  proof (cases r)
    case (Inl e)
    with spec obtain j where j: "j \<le> length ?S" "out1 = out @ take j ?S"
      "reports (seek rid (length out) ?S) (length out + j) e" "same_sent st1 st2" by auto
    have "find_response ops rid out st = (Inl e, out @ take j ?S, st2)"
      by (subst find_response.simps) (simp add: st1(1) scan Inl j(2))
    with finds_Inl [OF j(1,3) same_sent_trans [OF st1(4) j(4)]] show ?thesis by simp
  next
    case (Inr u)
    with spec obtain j where j: "out1 = out @ take j ?S" "stream st2 = drop (j + 4) ?S"
      "take 4 (drop j ?S) = REPL_RESPONSE_MAGIC" "j + 4 \<le> length ?S"
      "seek rid (length out) ?S = seek rid (length out + j) (drop j ?S)"
      "snd st2 = drop (4 + j) (snd st)" "same_sent st1 st2"
      using S st1(2,3) by (auto simp: add.commute)
    note same2 = same_sent_trans [OF st1(4) j(7)]
    show ?thesis
    proof (cases "length ?S < j + 24")
      case True
      then have "length (stream st2) < 20" using j(2,4) by simp
      then obtain e st3 where rest: "read_stream_bytes ops 20 st2 = (Inl e, st3)" "same_sent st2 st3"
        using read_bytes_short by blast
      have "seek rid (length out) ?S = Stream_End (length out + j)"
        unfolding j(5) seek_magic [OF j(3)] using True L by simp
      then have "finds rid out st (Inl e, out @ take j ?S, st3)"
        using j(4) same_sent_trans [OF same2 rest(2)] by (intro finds_Inl) (auto simp: reports_def)
      moreover have "find_response ops rid out st = (Inl e, out @ take j ?S, st3)"
        by (subst find_response.simps) (simp add: st1(1) scan Inr L(1) rest(1) j(1))
      ultimately show ?thesis by simp
    next
      case long: False
      let ?c = "take FRAME_HEADER_LEN (drop j ?S)"
      obtain st3 where rest: "read_stream_bytes ops 20 st2 = (Inr (take 20 (drop (j + 4) ?S)), st3)"
        "stream st3 = drop (j + 24) ?S" "snd st3 = drop (24 + j) (snd st)" "same_sent st2 st3"
      proof -
        have "20 \<le> length (stream st2)" using j(2) long by simp
        from read_bytes_enough [OF this] show ?thesis
          using that unfolding j(2,6) drop_drop by (auto simp: add.commute)
      qed
      have "snd st3 = []" using rest(3) pend L by simp
      then obtain s3 where s3: "st3 = (s3, [])" by (cases st3) auto
      note same3 = same_sent_trans [OF same2 rest(4)]
      have round: "find_response ops rid out st =
        (if \<not> good_header rid ?c then find_response ops rid (out @ take j ?S @ [?c ! 0]) (s3, tl ?c)
         else (Inr ?c, out @ take j ?S, st3))"
        by (subst find_response.simps)
          (simp add: st1(1) scan Inr L(1) rest(1) header_split [OF j(3)] s3 good_header_def j(1) Let_def)
      show ?thesis
      proof (cases "good_header rid ?c")
        case True
        have "seek rid (length out) ?S = Found (length out + j)"
          unfolding j(5) seek_magic [OF j(3)] using True long L by simp
        then have "finds rid out st (Inr ?c, out @ take j ?S, st3)"
          using rest(2) s3 same3 L(2) by (intro finds_Inr) simp_all
        with True round show ?thesis by simp
      next
        case False
        have "incoming s3 = drop (j + FRAME_HEADER_LEN) ?S" "same_sent st (s3, tl ?c)"
          using rest(2) s3 same3 L(2) by (simp_all add: stream_def same_sent_def)
        with False round long L(2) j(3,5) show ?thesis
          by (intro disjI2 exI [of _ j] exI [of _ s3]) (simp add: Let_def)
      qed
    qed
  qed
qed

lemma find_seek:
  "length (snd st) < FRAME_HEADER_LEN \<Longrightarrow> finds rid out st (find_response ops rid out st)"
proof (induction "length (stream st)" arbitrary: out st rule: less_induct)
  case less
  let ?S = "stream st"
  show ?case
  proof (cases "length ?S < 4")
    case True
    then obtain e st' where r: "read_stream_bytes ops 4 st = (Inl e, st')" "same_sent st st'"
      using read_bytes_short by blast
    have "find_response ops rid out st = (Inl e, out @ take 0 ?S, st')"
      by (subst find_response.simps) (simp add: r(1))
    then show ?thesis
      using True r(2) finds_Inl [of 0 st rid out e st'] by (simp add: reports_def seek_short)
  next
    case False
    then have "4 \<le> length ?S" by simp
    note find_round [OF this less.prems, of rid out]
    moreover have ?thesis
      if long: "j + FRAME_HEADER_LEN \<le> length ?S" and c: "c = take FRAME_HEADER_LEN (drop j ?S)"
        and magic: "take 4 (drop j ?S) = REPL_RESPONSE_MAGIC" and bad: "\<not> good_header rid c"
        and seek: "seek rid (length out) ?S = seek rid (length out + j) (drop j ?S)"
        and inc: "incoming s3 = drop (j + FRAME_HEADER_LEN) ?S" and same: "same_sent st (s3, tl c)"
        and round: "find_response ops rid out st
          = find_response ops rid (out @ take j ?S @ [c ! 0]) (s3, tl c)"
      for j c s3
    proof -
      have L: "0 < FRAME_HEADER_LEN" by (simp add: FRAME_HEADER_LEN_def)
      have j: "j < length ?S" using long L by simp
      have hd: "out @ take j ?S @ [c ! 0] = out @ take (Suc j) ?S"
        using j L by (simp add: c take_Suc_conv_app_nth)
      have "c @ drop (j + FRAME_HEADER_LEN) ?S = drop j ?S"
        unfolding c by (metis append_take_drop_id drop_drop add.commute)
      moreover have "c \<noteq> []" using j L by (simp add: c)
      ultimately have str: "stream (s3, tl c) = drop (Suc j) ?S"
        by (metis fst_conv snd_conv stream_def inc tl_append2 drop_Suc tl_drop)
      have "seek rid (length out) ?S = seek rid (length out + Suc j) (drop (Suc j) ?S)"
        unfolding seek seek_magic [OF magic] using bad long c by (simp add: tl_drop drop_Suc)
      moreover have "finds rid (out @ take (Suc j) ?S) (s3, tl c)
          (find_response ops rid (out @ take (Suc j) ?S) (s3, tl c))"
        by (rule less.hyps) (use j L str c long in auto)
      ultimately show ?thesis
        unfolding round hd by (intro finds_shift [OF j str _ same])
    qed
    ultimately show ?thesis unfolding Let_def by blast
  qed
qed

end

end
