(* ===== verification/Transport_Safety.thy ===== *)
theory Transport_Safety
  imports Transport_Props
begin

text \<open>
  The properties of \<open>SerialReplTransport\<close>: it returns exactly the first intact response
  to its own request that the device sends, whatever else the device prints, and refuses
  damaged or oversized frames. Stated for every byte stream; the in-memory stream of the
  tests of \<open>src/repl_client.rs\<close> is the instance.
\<close>

section \<open>The in-memory stream\<close>

text \<open>\<open>CursorIo\<close>: \<open>read_exact\<close> of a cursor that runs dry has consumed what was left.\<close>

record cursor_io =
  unread :: "u8 list"
  written :: "u8 list"

definition cursor_new :: "u8 list \<Rightarrow> cursor_io" where
  "cursor_new bytes = \<lparr>unread = bytes, written = []\<rparr>"

definition cursor_read_exact :: "nat \<Rightarrow> cursor_io \<Rightarrow> (io_error + u8 list) \<times> cursor_io" where
  "cursor_read_exact n s =
     (if n \<le> length (unread s) then (Inr (take n (unread s)), s\<lparr>unread := drop n (unread s)\<rparr>)
      else (Inl (Io_Error UnexpectedEof ''failed to fill whole buffer''), s\<lparr>unread := []\<rparr>))"

definition cursor_write_all :: "u8 list \<Rightarrow> cursor_io \<Rightarrow> (io_error + unit) \<times> cursor_io" where
  "cursor_write_all bytes s = (Inr (), s\<lparr>written := written s @ bytes\<rparr>)"

definition cursor_flush :: "cursor_io \<Rightarrow> (io_error + unit) \<times> cursor_io" where
  "cursor_flush s = (Inr (), s)"

definition cursor_ops :: "cursor_io io_ops" where
  "cursor_ops = \<lparr>read_exact_op = cursor_read_exact, write_all_op = cursor_write_all,
     flush_op = cursor_flush\<rparr>"

interpretation cursor: byte_stream cursor_ops unread written "\<lambda>_. []"
  by unfold_locales
    (simp_all add: cursor_ops_def cursor_read_exact_def cursor_write_all_def cursor_flush_def)

section \<open>Response frames\<close>

definition response_header :: "u32 \<Rightarrow> u8 list \<Rightarrow> i32 \<Rightarrow> u32 \<Rightarrow> u32 \<Rightarrow> u8 list" where
  "response_header rid reserved status len crc =
     REPL_RESPONSE_MAGIC @ u16_bytes FRAME_VERSION @ reserved @ u32_bytes rid
     @ u32_bytes status @ u32_bytes len @ u32_bytes crc"

definition response_frame :: "u32 \<Rightarrow> u8 list \<Rightarrow> i32 \<Rightarrow> u8 list \<Rightarrow> u8 list" where
  "response_frame rid reserved status payload =
     response_header rid reserved status (of_nat (length payload)) (crc32 payload) @ payload"

lemma length_response_header:
  "length reserved = 2 \<Longrightarrow> length (response_header rid reserved status len crc) = 24"
  by (simp add: response_header_def)

lemma response_header_fields:
  assumes r: "length reserved = 2" and c_def: "c = response_header rid reserved status len crc"
  shows "header_version c = FRAME_VERSION" "header_id c = rid" "header_status c = status"
    "header_len c = len" "header_crc c = crc" "take 4 c = REPL_RESPONSE_MAGIC"
proof -
  let ?m = REPL_RESPONSE_MAGIC and ?v = "u16_bytes FRAME_VERSION"
  show "header_version c = FRAME_VERSION"
    unfolding header_version_def c_def response_header_def
    by (rule le16.dec_slice) simp_all
  show "header_id c = rid"
    using r le32.dec_slice [of "?m @ ?v @ reserved" 8 12 rid]
    by (simp add: header_id_def c_def response_header_def)
  show "header_status c = status"
    using r le32.dec_slice [of "?m @ ?v @ reserved @ u32_bytes rid" 12 16 status]
    by (simp add: header_status_def c_def response_header_def)
  show "header_len c = len"
    using r le32.dec_slice [of "?m @ ?v @ reserved @ u32_bytes rid @ u32_bytes status" 16 20 len]
    by (simp add: header_len_def c_def response_header_def)
  show "header_crc c = crc"
    using r le32.dec_slice
      [of "?m @ ?v @ reserved @ u32_bytes rid @ u32_bytes status @ u32_bytes len" 20 24 crc "[]"]
    by (simp add: header_crc_def c_def response_header_def)
  show "take 4 c = REPL_RESPONSE_MAGIC"
    by (simp add: c_def response_header_def)
qed

text \<open>Conversely, every accepted header is such a header.\<close>

lemma good_header_frame:
  assumes len: "length c = 24" and magic: "take 4 c = REPL_RESPONSE_MAGIC" and good: "good_header rid c"
  shows "c = response_header rid (slice 6 8 c) (header_status c) (header_len c) (header_crc c)"
proof -
  have v: "u16_bytes FRAME_VERSION = slice 4 6 c"
    using good len le16.enc_dec [of "slice 4 6 c"] by (simp add: good_header_def header_version_def)
  have i: "u32_bytes rid = slice 8 12 c"
    using good len le32.enc_dec [of "slice 8 12 c"] by (simp add: good_header_def header_id_def)
  have f: "u32_bytes (header_status c) = slice 12 16 c" "u32_bytes (header_len c) = slice 16 20 c"
    "u32_bytes (header_crc c) = slice 20 24 c"
    using len by (simp_all add: header_status_def header_len_def header_crc_def le32.enc_dec)
  have tk: "take a c @ slice a b c @ xs = take b c @ xs" if "a \<le> b" for a b xs
    using slice_append_take [OF that, of c] by (metis append_assoc)
  have "take 20 c @ slice 20 24 c = c"
    using len slice_append_take [of 20 24 c] by simp
  then show ?thesis
    unfolding response_header_def v i f magic [symmetric] by (simp add: tk)
qed

section \<open>Requests and replies\<close>

text \<open>The bytes waiting once the request of \<open>execute\<close> has been sent, and what a successful
  run has sent.\<close>

definition arriving :: "'io io_ops \<Rightarrow> ('io \<Rightarrow> u8 list) \<Rightarrow> u8 list \<Rightarrow> u8 list \<Rightarrow> 'io transport
    \<Rightarrow> u8 list" where
  "arriving ops incoming program state t = incoming (snd (send_request ops
     (request_header (next_request_id t) program state) program state (io t)))"

definition request_frame :: "u32 \<Rightarrow> u8 list \<Rightarrow> u8 list \<Rightarrow> u8 list" where
  "request_frame rid program state = request_header rid program state @ program @ state"

text \<open>No response header for the request starts inside the noise in front of a frame.\<close>

definition clean_noise :: "u32 \<Rightarrow> u8 list \<Rightarrow> u8 list \<Rightarrow> bool" where
  "clean_noise rid noise frame \<longleftrightarrow> length noise \<le> 64 * 1024
     \<and> (\<forall>k<length noise. \<not> header_at rid (noise @ frame) k)"

definition after_request :: "u32 \<Rightarrow> 'io transport \<Rightarrow> 'io transport" where
  "after_request rid t = t\<lparr>next_request_id := max (rid + 1) 1\<rparr>"

lemma header_at_frame:
  assumes "length reserved = 2" "c = response_header rid reserved status len crc"
  shows "header_at rid (noise @ c @ tail) (length noise)"
proof -
  have "length c = 24" using assms by (simp add: length_response_header)
  moreover have "good_header rid c"
    unfolding good_header_def using response_header_fields [OF assms] by simp
  moreover have "take 4 c = REPL_RESPONSE_MAGIC"
    using response_header_fields [OF assms] by simp
  ultimately show ?thesis by (simp add: header_at_def FRAME_HEADER_LEN_def)
qed

lemma read_payload_Inr:
  "read_payload ops c s = (Inr (status, payload), s') \<longleftrightarrow>
     unat (header_len c) \<le> MAX_FRAME_BYTES \<and> status = header_status c \<and> crc32 payload = header_crc c
     \<and> read_exact_op ops (unat (header_len c)) s = (Inr payload, s')"
  by (auto simp: read_payload_def Let_def io_then_def split: prod.splits sum.splits if_splits)

lemma size_ok:
  "length program + length state \<le> MAX_FRAME_BYTES \<Longrightarrow>
     length program < 2 ^ 32 \<and> length state < 2 ^ 32"
  by (simp add: MAX_FRAME_BYTES_def)

context byte_stream
begin

lemma send_ok:
  "\<exists>s1. send_request ops h p st s = (Inr (), s1) \<and> outgoing s1 = outgoing s @ h @ p @ st"
proof -
  obtain s1 where 1: "write_all_op ops h s = (Inr (), s1)" "outgoing s1 = outgoing s @ h"
    using write_sent by blast
  obtain s2 where 2: "write_all_op ops p s1 = (Inr (), s2)" "outgoing s2 = outgoing s1 @ p"
    using write_sent by blast
  obtain s3 where 3: "write_all_op ops st s2 = (Inr (), s3)" "outgoing s3 = outgoing s2 @ st"
    using write_sent by blast
  obtain s4 where 4: "flush_op ops s3 = (Inr (), s4)" "outgoing s4 = outgoing s3"
    using flush_sent by blast
  show ?thesis unfolding send_request_def by (simp add: 1 2 3 4)
qed

text \<open>After the request, \<open>execute\<close> is the search for the header and the payload read.\<close>

lemma execute_search:
  assumes size: "length program + length state \<le> MAX_FRAME_BYTES"
  obtains r out s1 pending where
    "finds (next_request_id t) [] (snd (send_request ops
       (request_header (next_request_id t) program state) program state (io t)), []) (r, out, s1, pending)"
    "outgoing s1 = outgoing (io t) @ request_frame (next_request_id t) program state"
    "execute ops program state t = (case r of
       Inl e \<Rightarrow> (Inl e, after_request (next_request_id t) (t\<lparr>io := s1, device_output := out\<rparr>))
     | Inr c \<Rightarrow> (case read_payload ops c s1 of (res, s2) \<Rightarrow>
         (res, after_request (next_request_id t) (t\<lparr>io := s2, device_output := out\<rparr>))))"
proof -
  let ?rid = "next_request_id t"
  let ?h = "request_header ?rid program state"
  obtain s0 where s0: "send_request ops ?h program state (io t) = (Inr (), s0)"
    "outgoing s0 = outgoing (io t) @ ?h @ program @ state"
    using send_ok by blast
  obtain r out s1 pending where f: "find_response ops ?rid [] (s0, []) = (r, out, s1, pending)"
    by (metis prod_cases4)
  have "finds ?rid [] (s0, []) (find_response ops ?rid [] (s0, []))"
    by (rule find_seek) (simp add: FRAME_HEADER_LEN_def)
  then have fs: "finds ?rid [] (s0, []) (r, out, s1, pending)" unfolding f .
  then have "outgoing s1 = outgoing s0"
    by (auto simp: finds_def same_sent_def split: sum.splits)
  with s0 have o1: "outgoing s1 = outgoing (io t) @ request_frame ?rid program state"
    by (simp add: request_frame_def)
  have ex: "execute ops program state t = (case r of
       Inl e \<Rightarrow> (Inl e, after_request ?rid (t\<lparr>io := s1, device_output := out\<rparr>))
     | Inr c \<Rightarrow> (case read_payload ops c s1 of (res, s2) \<Rightarrow>
         (res, after_request ?rid (t\<lparr>io := s2, device_output := out\<rparr>))))"
    using size size_ok [OF size] s0(1)
    by (simp add: execute_def Let_def f after_request_def not_less split: sum.split prod.split)
  show thesis
    by (rule that [of r out s1 pending, OF _ o1 ex]) (simp add: s0(1) fs)
qed

lemma execute_found:
  assumes size: "length program + length state \<le> MAX_FRAME_BYTES"
    and arr: "arriving ops incoming program state t = noise @ c @ tail"
    and c: "length reserved = 2" "c = response_header (next_request_id t) reserved status len crc"
    and clean: "clean_noise (next_request_id t) noise (c @ tail)"
  shows "\<exists>s1. incoming s1 = tail
    \<and> outgoing s1 = outgoing (io t) @ request_frame (next_request_id t) program state
    \<and> execute ops program state t = (case read_payload ops c s1 of (res, s2) \<Rightarrow>
         (res, after_request (next_request_id t) (t\<lparr>io := s2, device_output := noise\<rparr>)))"
proof -
  let ?rid = "next_request_id t"
  let ?st = "(snd (send_request ops (request_header ?rid program state) program state (io t)), [])"
  have str: "stream ?st = noise @ c @ tail"
    using arr by (simp add: arriving_def stream_def)
  have len: "length c = FRAME_HEADER_LEN"
    using c by (simp add: length_response_header FRAME_HEADER_LEN_def)
  have seek: "seek ?rid 0 (stream ?st) = Found (length noise)"
    unfolding str using seek_finds [OF header_at_frame [OF c, of noise tail], of 0] clean
    by (simp add: clean_noise_def)
  obtain r out s1 pending where f: "finds ?rid [] ?st (r, out, s1, pending)"
    and o1: "outgoing s1 = outgoing (io t) @ request_frame ?rid program state"
    and ex: "execute ops program state t = (case r of
       Inl e \<Rightarrow> (Inl e, after_request ?rid (t\<lparr>io := s1, device_output := out\<rparr>))
     | Inr c \<Rightarrow> (case read_payload ops c s1 of (res, s2) \<Rightarrow>
         (res, after_request ?rid (t\<lparr>io := s2, device_output := out\<rparr>))))"
    using execute_search [OF size, of t] by blast
  have "r = Inr c \<and> out = noise \<and> incoming s1 = tail"
  proof (cases r)
    case (Inl e)
    with f seek show ?thesis by (auto simp: finds_def reports_def)
  next
    case (Inr c')
    with f seek have "c' = take FRAME_HEADER_LEN (drop (length noise) (stream ?st))"
      "out = take (length noise) (stream ?st)"
      "pending @ incoming s1 = drop (length noise + FRAME_HEADER_LEN) (stream ?st)" "pending = []"
      by (auto simp: finds_def) (simp add: stream_def)
    then show ?thesis using Inr len by (simp add: str)
  qed
  with o1 ex show ?thesis by auto
qed

lemma execute_accepts:
  assumes size: "length program + length state \<le> MAX_FRAME_BYTES"
    and arr: "arriving ops incoming program state t
      = noise @ response_frame (next_request_id t) reserved status payload @ tail"
    and r: "length reserved = 2" and len: "length payload \<le> MAX_FRAME_BYTES"
    and clean: "clean_noise (next_request_id t) noise
      (response_frame (next_request_id t) reserved status payload @ tail)"
  shows "\<exists>t'. execute ops program state t = (Inr (status, payload), t')
    \<and> device_output t' = noise \<and> incoming (io t') = tail
    \<and> outgoing (io t') = outgoing (io t) @ request_frame (next_request_id t) program state"
proof -
  let ?c = "response_header (next_request_id t) reserved status (of_nat (length payload)) (crc32 payload)"
  note f = response_header_fields [OF r refl, of "next_request_id t" status
      "of_nat (length payload)" "crc32 payload"]
  obtain s1 where s1: "incoming s1 = payload @ tail"
    "outgoing s1 = outgoing (io t) @ request_frame (next_request_id t) program state"
    and ex: "execute ops program state t = (case read_payload ops ?c s1 of (res, s2) \<Rightarrow>
      (res, after_request (next_request_id t) (t\<lparr>io := s2, device_output := noise\<rparr>)))"
    using execute_found [OF size _ r refl, of t noise status "of_nat (length payload)"
        "crc32 payload" "payload @ tail"] arr clean
    unfolding response_frame_def append_assoc by blast
  have n: "unat (of_nat (length payload) :: u32) = length payload"
    using len by (simp add: unat_of_nat MAX_FRAME_BYTES_def)
  obtain s2 where s2: "read_exact_op ops (length payload) s1 = (Inr payload, s2)"
    "incoming s2 = tail" "outgoing s2 = outgoing s1"
    using read_enough [of "length payload" s1] s1(1) by auto
  have "read_payload ops ?c s1 = (Inr (status, payload), s2)"
    using s2(1) len by (simp add: read_payload_Inr f n)
  with ex s1(2) s2 show ?thesis by (simp add: after_request_def)
qed

lemma execute_accepted:
  assumes size: "length program + length state \<le> MAX_FRAME_BYTES"
    and ok: "execute ops program state t = (Inr (status, payload), t')"
  shows "\<exists>reserved. length reserved = 2 \<and> length payload \<le> MAX_FRAME_BYTES
    \<and> arriving ops incoming program state t
      = device_output t' @ response_frame (next_request_id t) reserved status payload @ incoming (io t')
    \<and> clean_noise (next_request_id t) (device_output t')
        (response_frame (next_request_id t) reserved status payload @ incoming (io t'))"
proof -
  let ?rid = "next_request_id t"
  let ?st = "(snd (send_request ops (request_header ?rid program state) program state (io t)), [])"
  obtain r out s1 pending where f: "finds ?rid [] ?st (r, out, s1, pending)"
    and "outgoing s1 = outgoing (io t) @ request_frame ?rid program state"
    and ex: "execute ops program state t = (case r of
       Inl e \<Rightarrow> (Inl e, after_request ?rid (t\<lparr>io := s1, device_output := out\<rparr>))
     | Inr c \<Rightarrow> (case read_payload ops c s1 of (res, s2) \<Rightarrow>
         (res, after_request ?rid (t\<lparr>io := s2, device_output := out\<rparr>))))"
    using execute_search [OF size, of t] by blast
  obtain c where r: "r = Inr c" using ex ok by (cases r) auto
  obtain s2 where p: "read_payload ops c s1 = (Inr (status, payload), s2)"
    and t': "t' = after_request ?rid (t\<lparr>io := s2, device_output := out\<rparr>)"
    using ex ok unfolding r by (auto split: prod.splits)
  obtain j where j: "seek ?rid 0 (stream ?st) = Found j" "c = take FRAME_HEADER_LEN (drop j (stream ?st))"
    "out = take j (stream ?st)" "incoming s1 = drop (j + FRAME_HEADER_LEN) (stream ?st)"
    using f unfolding r finds_def by (auto simp: stream_def)
  note found = seek_Found [OF j(1)]
  have len: "length c = 24" and magic: "take 4 c = REPL_RESPONSE_MAGIC" and good: "good_header ?rid c"
    using found j(2) by (auto simp: header_at_def FRAME_HEADER_LEN_def)
  let ?h = "response_header ?rid (slice 6 8 c) (header_status c) (header_len c) (header_crc c)"
  have n: "length payload = unat (header_len c) \<and> incoming s1 = payload @ incoming s2"
  proof -
    have rd: "read_exact_op ops (unat (header_len c)) s1 = (Inr payload, s2)"
      using p unfolding read_payload_Inr by blast
    show ?thesis
    proof (cases "unat (header_len c) \<le> length (incoming s1)")
      case True
      from read_enough [OF this] rd have "payload = take (unat (header_len c)) (incoming s1)"
        "incoming s2 = drop (unat (header_len c)) (incoming s1)" by auto
      with True show ?thesis by simp
    next
      case False
      with read_short [of s1 "unat (header_len c)"] rd show ?thesis by auto
    qed
  qed
  then have l: "of_nat (length payload) = header_len c" by simp
  have st: "status = header_status c" "crc32 payload = header_crc c"
    using p unfolding read_payload_Inr by blast+
  have "?h = c" by (rule good_header_frame [OF len magic good, symmetric])
  then have frame: "response_frame ?rid (slice 6 8 c) status payload = c @ payload"
    unfolding response_frame_def l st by (rule arg_cong)
  have "stream ?st = out @ c @ incoming s1"
    unfolding j(2-4) add.commute [of j] drop_drop [symmetric] append_take_drop_id ..
  then have whole: "stream ?st
      = out @ response_frame ?rid (slice 6 8 c) status payload @ incoming s2"
    using n frame by simp
  moreover have "length out = j"
    using found unfolding j(3) header_at_def by simp
  then have "clean_noise ?rid out (response_frame ?rid (slice 6 8 c) status payload @ incoming s2)"
    using found unfolding clean_noise_def whole [symmetric] by auto
  moreover have "device_output t' = out" "io t' = s2"
    by (simp_all add: t' after_request_def)
  moreover have "length (slice 6 8 c) = 2" using len by simp
  moreover have "length payload \<le> MAX_FRAME_BYTES"
    using p n unfolding read_payload_Inr by simp
  moreover have "stream ?st = arriving ops incoming program state t"
    by (simp add: arriving_def stream_def)
  ultimately show ?thesis by metis
qed

lemma execute_damaged:
  assumes size: "length program + length state \<le> MAX_FRAME_BYTES"
    and arr: "arriving ops incoming program state t
      = noise @ response_header (next_request_id t) reserved status (of_nat (length damaged)) (crc32 payload)
        @ damaged @ tail"
    and r: "length reserved = 2" and len: "length damaged \<le> MAX_FRAME_BYTES"
    and diff: "crc32 damaged \<noteq> crc32 payload"
    and clean: "clean_noise (next_request_id t) noise
      (response_header (next_request_id t) reserved status (of_nat (length damaged)) (crc32 payload)
        @ damaged @ tail)"
  shows "\<exists>t'. execute ops program state t
    = (Inl (Io_Error InvalidData ''REPL response CRC mismatch''), t') \<and> device_output t' = noise"
proof -
  let ?c = "response_header (next_request_id t) reserved status (of_nat (length damaged)) (crc32 payload)"
  note f = response_header_fields [OF r refl, of "next_request_id t" status
      "of_nat (length damaged)" "crc32 payload"]
  obtain s1 where s1: "incoming s1 = damaged @ tail"
    and ex: "execute ops program state t = (case read_payload ops ?c s1 of (res, s2) \<Rightarrow>
      (res, after_request (next_request_id t) (t\<lparr>io := s2, device_output := noise\<rparr>)))"
    using execute_found [OF size arr r refl clean] by blast
  have n: "unat (of_nat (length damaged) :: u32) = length damaged"
    using len by (simp add: unat_of_nat MAX_FRAME_BYTES_def)
  obtain s2 where s2: "read_exact_op ops (length damaged) s1 = (Inr damaged, s2)"
    using read_enough [of "length damaged" s1] s1(1) by auto
  have "read_payload ops ?c s1 = (Inl (Io_Error InvalidData ''REPL response CRC mismatch''), s2)"
    using s2 len diff by (simp add: read_payload_def f n)
  with ex show ?thesis by (simp add: after_request_def)
qed

end

section \<open>Properties\<close>

lemma cursor_arriving [simp]: "arriving cursor_ops unread program state t = unread (io t)"
  by (simp add: arriving_def send_request_def cursor_ops_def cursor_write_all_def cursor_flush_def)

lemma header_at_first_byte:
  assumes "header_at rid s k"
  shows "s ! k = 0x52"
proof -
  have "k < length s" using assms by (simp add: header_at_def FRAME_HEADER_LEN_def)
  then have "s ! k = take 4 (drop k s) ! 0" by simp
  also have "\<dots> = 0x52"
    using assms by (simp add: header_at_def REPL_RESPONSE_MAGIC_def as_bytes_def)
  finally show ?thesis .
qed

text \<open>Sufficient for clean noise: a log without a capital \<open>R\<close>, or a response to another
  request.\<close>

lemma clean_noise_log:
  assumes "\<forall>b\<in>set noise. b \<noteq> 0x52" "length noise \<le> 64 * 1024"
  shows "clean_noise rid noise frame"
  using assms by (auto simp: clean_noise_def nth_append dest!: header_at_first_byte)

lemma crc32_Nil [simp]: "crc32 [] = 0"
  by (simp add: crc32_def)

text \<open>C5. Whatever the device prints first (boot logs, answers to earlier requests, at most 64 KiB
  without a header of this request), \<open>execute\<close> finds the response frame, returns its status
  and payload, leaves what precedes it as device output and what follows it unread, and has sent
  exactly one request frame.\<close>

theorem transport_resynchronises:
  assumes "byte_stream ops incoming outgoing reply"
    and "length program + length state \<le> MAX_FRAME_BYTES"
    and "arriving ops incoming program state t
      = noise @ response_frame (next_request_id t) reserved status payload @ tail"
    and "length reserved = 2" and "length payload \<le> MAX_FRAME_BYTES"
    and "clean_noise (next_request_id t) noise
      (response_frame (next_request_id t) reserved status payload @ tail)"
  shows "\<exists>t'. execute ops program state t = (Inr (status, payload), t')
    \<and> device_output t' = noise \<and> incoming (io t') = tail
    \<and> outgoing (io t') = outgoing (io t) @ request_frame (next_request_id t) program state"
  by (rule byte_stream.execute_accepts [OF assms])

text \<open>A stale answer to request 9 in front of the answer to request 1.\<close>

definition stale_stream :: "u8 list" where
  "stale_stream = response_frame 9 [0, 0] 5 []"

lemma stale_bytes: "stale_stream
    = [0x52, 0x53, 0x53, 0x50, 1, 0, 0, 0, 9, 0, 0, 0, 5, 0, 0, 0, 0, 0, 0, 0, 0, 0, 0, 0]"
  by (simp add: stale_stream_def response_frame_def response_header_def REPL_RESPONSE_MAGIC_def
      as_bytes_def FRAME_VERSION_def le_eval)

lemma stale_clean: "clean_noise 1 stale_stream frame"
proof -
  have bad: "header_id (stale_stream @ frame) = 9"
    by (simp add: stale_bytes header_id_def slice_def)
  have "\<not> header_at 1 (stale_stream @ frame) k" if "k < 24" for k
  proof (cases "k = 0")
    case True
    have "take 24 (stale_stream @ frame) = stale_stream" by (simp add: stale_bytes)
    then show ?thesis
      using True by (simp add: header_at_def good_header_def FRAME_HEADER_LEN_def stale_bytes
          header_id_def slice_def)
  next
    case False
    have "length stale_stream = 24" by (simp add: stale_bytes)
    with False that have "(stale_stream @ frame) ! k = tl stale_stream ! (k - 1)"
      "k - 1 < length (tl stale_stream)" by (simp_all add: nth_append nth_tl)
    then have "(stale_stream @ frame) ! k \<in> set (tl stale_stream)" by simp
    moreover have "0x52 \<notin> set (tl stale_stream)" by (simp add: stale_bytes)
    ultimately show ?thesis by (metis header_at_first_byte)
  qed
  then show ?thesis by (simp add: clean_noise_def stale_bytes)
qed

theorem transport_resynchronises_witness:
  "\<exists>t'. execute cursor_ops [1] [2]
       (transport_new (cursor_new (stale_stream @ response_frame 1 [0, 0] 3 [] @ [77])))
     = (Inr (3, []), t') \<and> device_output t' = stale_stream \<and> unread (io t') = [77]
     \<and> written (io t') = request_frame 1 [1] [2]"
  using transport_resynchronises [OF cursor.byte_stream_axioms, of "[1]" "[2]"
      "transport_new (cursor_new (stale_stream @ response_frame 1 [0, 0] 3 [] @ [77]))"
      stale_stream "[0, 0]" 3 "[]" "[77]"]
  by (simp add: transport_new_def cursor_new_def MAX_FRAME_BYTES_def stale_clean)

text \<open>C6. Conversely an \<open>Ok\<close> result is never made up: the stream contained an intact response frame
  with the returned status and payload, carrying the id of this very request and the right
  checksum, and it was the first one.\<close>

theorem transport_accepts_only_frames:
  assumes "byte_stream ops incoming outgoing reply"
    and "length program + length state \<le> MAX_FRAME_BYTES"
    and "execute ops program state t = (Inr (status, payload), t')"
  shows "\<exists>reserved. length reserved = 2 \<and> length payload \<le> MAX_FRAME_BYTES
    \<and> arriving ops incoming program state t
      = device_output t' @ response_frame (next_request_id t) reserved status payload @ incoming (io t')
    \<and> clean_noise (next_request_id t) (device_output t')
        (response_frame (next_request_id t) reserved status payload @ incoming (io t'))"
  by (rule byte_stream.execute_accepted [OF assms])

lemma stale_execute:
  "\<exists>t'. execute cursor_ops [1] [2]
       (transport_new (cursor_new (stale_stream @ response_frame 1 [0, 0] 3 [] @ [77])))
     = (Inr (3, []), t') \<and> device_output t' = stale_stream \<and> unread (io t') = [77]"
  using cursor.execute_accepts [of "[1]" "[2]"
      "transport_new (cursor_new (stale_stream @ response_frame 1 [0, 0] 3 [] @ [77]))"
      stale_stream "[0, 0]" 3 "[]" "[77]"]
  by (auto simp: transport_new_def cursor_new_def MAX_FRAME_BYTES_def stale_clean)

theorem transport_accepts_only_frames_witness:
  "\<exists>reserved. length reserved = 2 \<and> length ([] :: u8 list) \<le> MAX_FRAME_BYTES
     \<and> stale_stream @ response_frame 1 [0, 0] 3 [] @ [77]
       = stale_stream @ response_frame 1 reserved 3 [] @ [77]
     \<and> clean_noise 1 stale_stream (response_frame 1 reserved 3 [] @ [77])"
proof -
  let ?t = "transport_new (cursor_new (stale_stream @ response_frame 1 [0, 0] 3 [] @ [77]))"
  obtain t' where t': "execute cursor_ops [1] [2] ?t = (Inr (3, []), t')"
    "device_output t' = stale_stream" "unread (io t') = [77]"
    using stale_execute by blast
  have "length [1 :: u8] + length [2 :: u8] \<le> MAX_FRAME_BYTES" by (simp add: MAX_FRAME_BYTES_def)
  from transport_accepts_only_frames [OF cursor.byte_stream_axioms this t'(1)] show ?thesis
    unfolding t'(2,3) cursor_arriving by (simp add: transport_new_def cursor_new_def)
qed

text \<open>C23. A response whose payload was damaged in transit inside a window of four bytes is refused with
  the CRC mismatch error; it is never handed to the session.\<close>

theorem damaged_response_rejected:
  assumes "byte_stream ops incoming outgoing reply"
    and "length program + length state \<le> MAX_FRAME_BYTES"
    and "arriving ops incoming program state t
      = noise @ response_header (next_request_id t) reserved status (of_nat (length (xs @ v @ ys)))
          (crc32 (xs @ w @ ys)) @ (xs @ v @ ys) @ tail"
    and "length reserved = 2" and "length (xs @ v @ ys) \<le> MAX_FRAME_BYTES"
    and "length v = length w" "length w \<le> 4" "v \<noteq> w"
    and "clean_noise (next_request_id t) noise
      (response_header (next_request_id t) reserved status (of_nat (length (xs @ v @ ys)))
        (crc32 (xs @ w @ ys)) @ (xs @ v @ ys) @ tail)"
  shows "\<exists>t'. execute ops program state t
    = (Inl (Io_Error InvalidData ''REPL response CRC mismatch''), t') \<and> device_output t' = noise"
  using byte_stream.execute_damaged [OF assms(1-5) _ assms(9)] crc32_window [OF assms(6,7)] assms(8)
  by blast

theorem damaged_response_rejected_witness:
  "\<exists>t'. execute cursor_ops [1] [2] (transport_new (cursor_new
       (response_header 1 [0, 0] 3 2 (crc32 ([5] @ [6] @ [])) @ [5, 7])))
     = (Inl (Io_Error InvalidData ''REPL response CRC mismatch''), t') \<and> device_output t' = []"
  using damaged_response_rejected [OF cursor.byte_stream_axioms, of "[1]" "[2]"
      "transport_new (cursor_new (response_header 1 [0, 0] 3 2 (crc32 ([5] @ [6] @ [])) @ [5, 7]))"
      "[]" "[0, 0]" 3 "[5]" "[7]" "[]" "[6]" "[]"]
  by (simp add: transport_new_def cursor_new_def MAX_FRAME_BYTES_def clean_noise_def)

lemma execute_oversized:
  "MAX_FRAME_BYTES < length program + length state \<Longrightarrow>
     \<exists>m. execute ops program state t = (Inl (Io_Error InvalidInput m), t)"
  by (auto simp: execute_def)

lemma execute_next_id:
  "length program + length state \<le> MAX_FRAME_BYTES \<Longrightarrow>
     next_request_id (snd (execute ops program state t)) = max (next_request_id t + 1) 1"
  using size_ok [of program state]
  by (simp add: execute_def Let_def not_less split: prod.split sum.split)

text \<open>A request over 128 KiB is refused with \<open>InvalidInput\<close> before anything is written: the
  stream, the collected device output and the next request id are as before.\<close>

theorem oversized_request_untouched:
  assumes "MAX_FRAME_BYTES < length program + length state"
  shows "\<exists>m. execute ops program state t = (Inl (Io_Error InvalidInput m), t)"
  by (rule execute_oversized [OF assms])

theorem oversized_request_untouched_witness:
  "\<exists>m. execute cursor_ops (replicate 131073 0) [] (transport_new (cursor_new []))
     = (Inl (Io_Error InvalidInput m), transport_new (cursor_new []))"
  by (rule oversized_request_untouched) (simp add: MAX_FRAME_BYTES_def)

text \<open>The request ids that a transport hands out.\<close>

fun request_ids :: "'io io_ops \<Rightarrow> (u8 list \<times> u8 list) list \<Rightarrow> 'io transport \<Rightarrow> u32 list" where
  "request_ids ops [] t = []"
| "request_ids ops ((program, state) # rs) t =
     next_request_id t # request_ids ops rs (snd (execute ops program state t))"

definition nth_id :: "nat \<Rightarrow> u32" where
  "nth_id k = of_nat (k mod (2 ^ 32 - 1) + 1)"

lemma nth_id_Suc: "max (nth_id k + 1) 1 = nth_id (Suc k)"
proof -
  let ?M = "2 ^ 32 - 1 :: nat" and ?r = "k mod (2 ^ 32 - 1)"
  have r: "?r < ?M" by simp
  show ?thesis
  proof (cases "Suc ?r = ?M")
    case True
    then have "nth_id k + 1 = of_nat (2 ^ 32)" by (simp add: nth_id_def flip: of_nat_Suc)
    moreover have "(of_nat (2 ^ 32) :: u32) = 0" by simp
    moreover have "Suc k mod ?M = 0" using True by (simp add: mod_Suc)
    ultimately show ?thesis by (simp add: nth_id_def)
  next
    case False
    then have m: "Suc k mod ?M = Suc ?r" by (simp add: mod_Suc)
    have "unat (of_nat (Suc (Suc ?r)) :: u32) = Suc (Suc ?r)"
      using r False by (simp only: unat_of_nat) (simp add: mod_less)
    then have "(1 :: u32) \<le> of_nat (Suc (Suc ?r))"
      by (simp only: word_le_nat_alt) simp
    moreover have "nth_id k + 1 = of_nat (Suc (Suc ?r))"
      by (simp add: nth_id_def)
    moreover have "nth_id (Suc k) = of_nat (Suc (Suc ?r))"
      unfolding nth_id_def m by simp
    ultimately show ?thesis by (simp only: max_absorb1)
  qed
qed

lemma request_ids_from:
  "next_request_id t = nth_id k \<Longrightarrow>
   (\<forall>(program, state)\<in>set rs. length program + length state \<le> MAX_FRAME_BYTES) \<Longrightarrow>
   request_ids ops rs t = map nth_id [k..<k + length rs]"
proof (induction rs arbitrary: k t)
  case (Cons r rs)
  obtain program state where r: "r = (program, state)" by (cases r)
  with Cons.prems have "next_request_id (snd (execute ops program state t)) = nth_id (Suc k)"
    by (simp add: execute_next_id nth_id_Suc)
  from Cons.IH [OF this] Cons.prems r show ?case
    by (simp add: upt_conv_Cons del: upt_Suc)
qed simp

text \<open>A transport numbers its requests 1, 2, 3 and so on, and after 4294967295 starts again at 1: no
  request ever carries the id 0, and two requests share an id only when they are a multiple of
  \<open>2 ^ 32 - 1\<close> requests apart, whether or not the requests succeed.\<close>

theorem request_ids_cycle:
  assumes "\<forall>(program, state)\<in>set rs. length program + length state \<le> MAX_FRAME_BYTES"
  shows "request_ids ops rs (transport_new s)
    = map (\<lambda>k. of_nat (k mod (2 ^ 32 - 1) + 1)) [0..<length rs]"
  using request_ids_from [OF _ assms, of "transport_new s" 0 ops]
  by (simp add: transport_new_def nth_id_def)

theorem request_ids_cycle_witness:
  "request_ids cursor_ops [([1], [2]), ([3], [])] (transport_new (cursor_new []))
     = map (\<lambda>k. of_nat (k mod (2 ^ 32 - 1) + 1)) [0..<length [([1::u8], [2::u8]), ([3], [])]]"
  by (rule request_ids_cycle) (simp add: MAX_FRAME_BYTES_def)

text \<open>The device output a search can collect, on any stream.\<close>

lemma scan_magic_bound:
  "scan_magic ops window out st = (r, out1, st1) \<Longrightarrow> length out1 \<le> max (64 * 1024) (length out)"
proof (induction ops window out st rule: scan_magic.induct)
  case (1 ops window out st)
  from "1.prems" show ?case
    by (subst (asm) scan_magic.simps) (auto split: if_splits prod.splits sum.splits dest!: "1.IH")
qed

definition stuck :: "u8 list \<Rightarrow> bool" where
  "stuck pending \<longleftrightarrow> 4 \<le> length pending \<and> take 4 pending \<noteq> REPL_RESPONSE_MAGIC"

lemma stuck_after_header:
  "length rest = 20 \<Longrightarrow> stuck (tl (REPL_RESPONSE_MAGIC @ rest) @ pending)"
  using magic_no_overlap [of rest] by (simp add: stuck_def)

lemma find_response_bound:
  "length out \<le> 64 * 1024 \<or> length out = 64 * 1024 + 1 \<and> stuck (snd st) \<Longrightarrow>
   find_response ops rid out st = (r, out1, st1) \<Longrightarrow> length out1 \<le> 64 * 1024 + 1"
proof (induction ops rid out st rule: find_response.induct)
  case (1 ops rid out st)
  note eq = "1.prems"(2) [unfolded find_response.simps [of ops rid out st]]
  obtain w st2 where w: "read_stream_bytes ops 4 st = (w, st2)" by (metis prod.exhaust)
  show ?case
  proof (cases w)
    case (Inl e)
    then show ?thesis using "1.prems"(1) eq w by auto
  next
    case (Inr window)
    obtain q out2 st3 where q: "scan_magic ops window out st2 = (q, out2, st3)" by (metis prod_cases3)
    have "length out = 64 * 1024 + 1 \<Longrightarrow> window \<noteq> REPL_RESPONSE_MAGIC"
      using "1.prems"(1) w Inr by (cases st) (auto simp: stuck_def read_stream_bytes_pending)
    then have out2: "length out2 \<le> 64 * 1024 + 1"
      "q = Inr u \<Longrightarrow> length out2 \<le> 64 * 1024" for u
      using scan_magic_bound [OF q] "1.prems"(1) scan_magic_length [of ops window out st2 u out2 st3] q
      by auto
    obtain v st4 where v: "read_stream_bytes ops (FRAME_HEADER_LEN - 4) st3 = (v, st4)"
      by (metis prod.exhaust)
    show ?thesis
    proof (cases "\<exists>u rest. q = Inr u \<and> v = Inr rest")
      case False
      then show ?thesis using eq w Inr q v out2(1) by (cases q; cases v) auto
    next
      case True
      then obtain rest s pending where ok: "q = Inr ()" "v = Inr rest" "st4 = (s, pending)"
        by (cases st4) auto
      let ?c = "REPL_RESPONSE_MAGIC @ rest"
      show ?thesis
      proof (cases "header_version ?c \<noteq> FRAME_VERSION \<or> header_id ?c \<noteq> rid")
        case bad: True
        have "length rest = 20"
          using length_read_stream_bytes v ok(2) by (simp add: FRAME_HEADER_LEN_def) blast
        note stuck = stuck_after_header [OF this, of pending]
        have "find_response ops rid (out2 @ [?c ! 0]) (s, tl ?c @ pending) = (r, out1, st1)"
          using eq bad by (simp add: w Inr q v ok Let_def)
        note "1.IH" [OF w [symmetric] Inr q [symmetric] ok(1) refl v [symmetric] ok(2)
            ok(3) [symmetric] refl bad _ this]
        moreover have "length out2 \<le> 65535 \<or> length out2 = 65536"
          using out2(2) [OF ok(1)] by linarith
        ultimately show ?thesis using stuck by auto
      next
        case good: False
        then show ?thesis using eq out2(1) by (auto simp: w Inr q v ok Let_def)
      qed
    qed
  qed
qed

text \<open>On any stream at all, one that never stops talking included, \<open>execute\<close> returns having kept
  at most \<open>64 * 1024 + 1\<close> bytes of device output: the model is total, so the two nested
  loops end, and the extra byte is that of a foreign header found exactly at the limit.\<close>

theorem device_output_bounded:
  "device_output (snd (execute ops program state t)) = device_output t
     \<or> length (device_output (snd (execute ops program state t))) \<le> 64 * 1024 + 1"
proof (cases "length program + length state \<le> MAX_FRAME_BYTES")
  case True
  from True size_ok [OF True] show ?thesis
    by (auto simp: execute_def Let_def not_less split: prod.split sum.split
        dest!: find_response_bound [of "[]" "(_, [])", rotated])
next
  case False
  with execute_oversized [of program state ops t] show ?thesis by auto
qed

text \<open>A device that floods the line without answering.\<close>

lemma seek_Stream_End:
  "seek rid n s = Stream_End k \<Longrightarrow>
   n \<le> 64 * 1024 \<or> n = 64 * 1024 + 1 \<and> take 4 s \<noteq> REPL_RESPONSE_MAGIC \<Longrightarrow>
   n + length s < 64 * 1024 + FRAME_HEADER_LEN"
proof (induction s arbitrary: n)
  case (Cons b bs)
  let ?s = "b # bs"
  show ?case
  proof (cases "take 4 ?s = REPL_RESPONSE_MAGIC")
    case True
    show ?thesis
    proof (cases "length ?s < FRAME_HEADER_LEN")
      case long: False
      with seek_magic [OF True, of rid n] Cons.prems(1)
      have "seek rid (Suc n) bs = Stream_End k" by (simp split: if_splits)
      moreover have "n \<le> 64 * 1024" using True Cons.prems(2) by simp
      then have "Suc n \<le> 64 * 1024 \<or> Suc n = 64 * 1024 + 1 \<and> take 4 bs \<noteq> REPL_RESPONSE_MAGIC"
        using magic_shift [OF True] by (cases "n = 64 * 1024") simp_all
      ultimately show ?thesis using Cons.IH by fastforce
    qed (use True Cons.prems(2) in auto)
  next
    case False
    show ?thesis
    proof (cases "length ?s < 4")
      case True
      then show ?thesis using Cons.prems(2) by (auto simp: FRAME_HEADER_LEN_def)
    next
      case long: False
      then have "4 \<le> length ?s" by simp
      then have "n < 64 * 1024" "seek rid (Suc n) bs = Stream_End k"
        using seek_limit [OF _ False, of n rid] seek_skip [OF _ False, of n rid] Cons.prems(1)
        by (cases "n < 64 * 1024"; simp)+
      with Cons.IH [OF this(2)] show ?thesis by simp
    qed
  qed
qed (auto simp: FRAME_HEADER_LEN_def)

lemma seek_flood:
  assumes no: "\<forall>k\<le>64 * 1024. \<not> header_at rid s k"
    and len: "64 * 1024 + FRAME_HEADER_LEN \<le> length s"
  obtains k where "seek rid 0 s = Prelude_Limit k"
proof (cases "seek rid 0 s")
  case (Found k)
  with seek_Found [OF this] no show ?thesis by auto
next
  case (Stream_End k)
  with seek_Stream_End [OF this] len show ?thesis by simp
qed (rule that)

context byte_stream
begin

lemma execute_flood:
  assumes size: "length program + length state \<le> MAX_FRAME_BYTES"
    and no: "\<forall>k\<le>64 * 1024. \<not> header_at (next_request_id t) (arriving ops incoming program state t) k"
    and len: "64 * 1024 + FRAME_HEADER_LEN \<le> length (arriving ops incoming program state t)"
  shows "fst (execute ops program state t)
    = Inl (Io_Error InvalidData ''REPL response prelude exceeds size limit'')"
proof -
  let ?rid = "next_request_id t"
  let ?st = "(snd (send_request ops (request_header ?rid program state) program state (io t)), [])"
  have str: "stream ?st = arriving ops incoming program state t"
    by (simp add: arriving_def stream_def)
  obtain k where k: "seek ?rid 0 (stream ?st) = Prelude_Limit k"
    using seek_flood [OF no len] unfolding str by blast
  obtain r out s1 pending where f: "finds ?rid [] ?st (r, out, s1, pending)"
    and "outgoing s1 = outgoing (io t) @ request_frame ?rid program state"
    and ex: "execute ops program state t = (case r of
       Inl e \<Rightarrow> (Inl e, after_request ?rid (t\<lparr>io := s1, device_output := out\<rparr>))
     | Inr c \<Rightarrow> (case read_payload ops c s1 of (res, s2) \<Rightarrow>
         (res, after_request ?rid (t\<lparr>io := s2, device_output := out\<rparr>))))"
    using execute_search [OF size, of t] by blast
  obtain e where e: "r = Inl e" and rep: "\<exists>j. reports (seek ?rid 0 (stream ?st)) j e"
    using f k by (cases r) (auto simp: finds_def)
  have "e = limit_error" using rep unfolding k reports_def by auto
  then show ?thesis using ex e by (simp add: limit_error_def)
qed

end

text \<open>A device that prints 64 KiB and a header's worth of bytes without a header of this request
  makes \<open>execute\<close> give up with the size limit error instead of waiting for ever.\<close>

theorem flood_is_refused:
  assumes "byte_stream ops incoming outgoing reply"
    and "length program + length state \<le> MAX_FRAME_BYTES"
    and "\<forall>k\<le>64 * 1024. \<not> header_at (next_request_id t) (arriving ops incoming program state t) k"
    and "64 * 1024 + FRAME_HEADER_LEN \<le> length (arriving ops incoming program state t)"
  shows "fst (execute ops program state t)
    = Inl (Io_Error InvalidData ''REPL response prelude exceeds size limit'')"
  by (rule byte_stream.execute_flood [OF assms])

theorem flood_is_refused_witness:
  "fst (execute cursor_ops [1] [2] (transport_new (cursor_new (replicate 65560 0))))
    = Inl (Io_Error InvalidData ''REPL response prelude exceeds size limit'')"
proof (rule flood_is_refused [OF cursor.byte_stream_axioms])
  have "\<not> header_at 1 (replicate 65560 0) k" if "k \<le> 64 * 1024" for k
    using that header_at_first_byte [of 1 "replicate 65560 0" k] by (intro notI) simp
  then show "\<forall>k\<le>64 * 1024. \<not> header_at
      (next_request_id (transport_new (cursor_new (replicate 65560 0))))
      (arriving cursor_ops unread [1] [2] (transport_new (cursor_new (replicate 65560 0)))) k"
    by (simp add: transport_new_def cursor_new_def)
qed (simp_all add: MAX_FRAME_BYTES_def FRAME_HEADER_LEN_def transport_new_def cursor_new_def)

end
