(* ===== verification/Btree.thy ===== *)
theory Btree
  imports Prelude "HOL-Library.List_Lexorder" "HOL-Library.Char_ord"
begin

text \<open>
  \<open>BTreeMap\<close>: the entries in ascending key order. The client code inserts, looks up, tests
  for keys and iterates in order; what it may rely on is the locale \<open>ordered_map\<close>, and the
  sorted association list is its interpretation.
\<close>

section \<open>The interface\<close>

locale ordered_map =
  fixes empty :: 'm
    and insert :: "'k::linorder \<Rightarrow> 'v \<Rightarrow> 'm \<Rightarrow> 'm"
    and get :: "'m \<Rightarrow> 'k \<Rightarrow> 'v option"
    and entries :: "'m \<Rightarrow> ('k \<times> 'v) list"
    and invar :: "'m \<Rightarrow> bool"
  assumes invar_empty: "invar empty"
    and invar_insert: "invar m \<Longrightarrow> invar (insert k v m)"
    and get_empty: "get empty k = None"
    and get_insert: "invar m \<Longrightarrow> get (insert k v m) k' = (if k' = k then Some v else get m k')"
    and entries_sorted: "invar m \<Longrightarrow> sorted_wrt (<) (List.map fst (entries m))"
    and entries_get: "invar m \<Longrightarrow> get m = map_of (entries m)"
begin

text \<open>\<open>collect\<close>, and any loop that inserts: the last entry for a key wins.\<close>

definition insert_all :: "('k \<times> 'v) list \<Rightarrow> 'm \<Rightarrow> 'm" where
  "insert_all kvs m = foldl (\<lambda>m (k, v). insert k v m) m kvs"

lemma insert_all_simps [simp]:
  "insert_all [] m = m"
  "insert_all ((k, v) # kvs) m = insert_all kvs (insert k v m)"
  by (simp_all add: insert_all_def)

lemma invar_insert_all: "invar m \<Longrightarrow> invar (insert_all kvs m)"
  by (induction kvs arbitrary: m) (auto simp: invar_insert)

lemma get_insert_all:
  "invar m \<Longrightarrow> get (insert_all kvs m) k = (case map_of (rev kvs) k of Some v \<Rightarrow> Some v | None \<Rightarrow> get m k)"
proof (induction kvs arbitrary: m)
  case (Cons kv kvs)
  then show ?case
    by (cases kv) (auto simp: invar_insert get_insert map_add_def split: option.splits)
qed simp

lemma get_collect: "get (insert_all kvs empty) = map_of (rev kvs)"
  by (rule ext) (simp add: get_insert_all invar_empty get_empty split: option.split)

lemma distinct_keys: "invar m \<Longrightarrow> distinct (List.map fst (entries m))"
  using entries_sorted strict_sorted_iff by blast

lemma entries_keys: "invar m \<Longrightarrow> fst ` set (entries m) = dom (get m)"
  by (simp add: entries_get dom_map_of_conv_image_fst)

lemma entries_mem: "invar m \<Longrightarrow> (k, v) \<in> set (entries m) \<longleftrightarrow> get m k = Some v"
  by (simp add: entries_get distinct_keys)

text \<open>Two maps with the same lookups list the same entries in the same order.\<close>

lemma entries_unique: "invar m \<Longrightarrow> invar m' \<Longrightarrow> get m = get m' \<Longrightarrow> entries m = entries m'"
proof -
  assume m: "invar m" "invar m'" and eq: "get m = get m'"
  have "set (entries m) = set (entries m')"
    using entries_mem m eq by auto
  then have k: "List.map fst (entries m) = List.map fst (entries m')"
    using m entries_sorted by (intro sorted_distinct_set_unique)
      (auto simp: strict_sorted_iff simp flip: image_set)
  have from_keys: "entries m = List.map (\<lambda>k. (k, the (get m k))) (List.map fst (entries m))"
    if "invar m" for m
    using that by (auto simp: comp_def entries_mem intro!: map_idI [symmetric])
  show ?thesis
    using from_keys [OF m(1)] from_keys [OF m(2)] eq k by simp
qed

end

section \<open>Sorted association lists\<close>

type_synonym ('k, 'v) btree = "('k \<times> 'v) list"

fun bt_insert :: "'k::linorder \<Rightarrow> 'v \<Rightarrow> ('k, 'v) btree \<Rightarrow> ('k, 'v) btree" where
  "bt_insert k v [] = [(k, v)]"
| "bt_insert k v ((k', v') # m) =
     (if k < k' then (k, v) # (k', v') # m
      else if k = k' then (k, v) # m
      else (k', v') # bt_insert k v m)"

definition bt_sorted :: "('k::linorder, 'v) btree \<Rightarrow> bool" where
  "bt_sorted m \<longleftrightarrow> sorted_wrt (<) (map fst m)"

lemma bt_insert_keys: "fst ` set (bt_insert k v m) = insert k (fst ` set m)"
  by (induction k v m rule: bt_insert.induct) auto

lemma bt_sorted_insert: "bt_sorted m \<Longrightarrow> bt_sorted (bt_insert k v m)"
proof (induction k v m rule: bt_insert.induct)
  case (2 k v k' v' m)
  then show ?case
    using bt_insert_keys [of k v m] by (auto simp: bt_sorted_def simp flip: image_set)
qed (simp add: bt_sorted_def)

lemma bt_get_insert: "bt_sorted m \<Longrightarrow> map_of (bt_insert k v m) k' = (if k' = k then Some v else map_of m k')"
  by (induction k v m rule: bt_insert.induct) (auto simp: bt_sorted_def)

interpretation bt: ordered_map "[]" bt_insert map_of "\<lambda>m. m" bt_sorted
  by unfold_locales (auto simp: bt_sorted_def bt_sorted_insert [unfolded bt_sorted_def]
      bt_get_insert [unfolded bt_sorted_def])

end
