(* ===== verification/Vm_Types.thy ===== *)
theory Vm_Types
  imports Wire Btree
begin

text \<open>
  The data the sources read of the virtual machine crate (\<open>vm\<close>, \<open>pd_vm_nostd\<close>), which is
  not part of the repository: values, programs with their debug information and type map, local
  bindings, and compiler errors. Only the fields and constructors that the sources name are here;
  whatever else those types hold is a type parameter. What the crate computes (compiling,
  encoding, running) is a parameter of the definitions that call it.
\<close>

section \<open>Values, types and schemas\<close>

text \<open>\<open>vm::Value\<close>; the payload of a callable is opaque.\<close>

datatype 'c vm_value =
    VNull
  | VInt i64
  | VFloat f64
  | VBool bool
  | VString string
  | VBytes "u8 list"
  | VArray "'c vm_value list"
  | VMap "('c vm_value \<times> 'c vm_value) list"
  | VCallable 'c

datatype value_type =
  T_Unknown | T_Null | T_Int | T_Float | T_Bool | T_String | T_Bytes | T_Array | T_Map | T_Callable

text \<open>\<open>TypeSchema\<close>; the schemas the sources never name are \<open>S_Other\<close>.\<close>

datatype 's type_schema =
    S_Unknown
  | S_Null
  | S_Int
  | S_Float
  | S_Bool
  | S_String
  | S_Bytes
  | S_Array "'s type_schema"
  | S_Map "'s type_schema"
  | S_Callable "'s type_schema list" "'s type_schema"
  | S_Other 's

record 's type_map =
  local_schemas :: "'s type_schema option list"
  local_types :: "value_type list"
  optional_slots :: "bool list"

section \<open>Programs\<close>

text \<open>\<open>vm::Program\<close>. Debug information is used through \<open>local_index\<close> only, so it is that
  function.\<close>

record ('c, 's) vm_program =
  prog_code :: "u8 list"
  constants :: "'c vm_value list"
  prog_types :: "'s type_map option"
  debug :: "(string \<Rightarrow> u8 option) option"
  local_count :: nat

text \<open>\<open>OpCode\<close> is a fieldless enum over \<open>u8\<close>; an opcode is its byte, and
  \<open>OpCode::try_from\<close> is the test \<open>is_opcode\<close>.\<close>

record isa =
  is_opcode :: "u8 \<Rightarrow> bool"
  operand_len :: "u8 \<Rightarrow> nat"
  op_ldloc :: u8
  op_stloc :: u8
  op_ldc :: u8
  op_call :: u8
  detach_local_index :: u16

section \<open>The compiler's view of a session\<close>

record 's local_binding =
  bind_name :: string
  bind_mutable :: bool
  bind_schema :: "'s type_schema option"
  bind_optional :: bool

record 's local_state =
  binding :: "'s local_binding"
  bind_moved :: bool

text \<open>\<open>SourceError\<close>: a parse error (with the \<open>code\<close> field the client looks at) or a compile
  error.\<close>

datatype 'e source_error = Source_Parse "string option" 'e | Source_Compile 'e

record ('c, 's) compiled_repl =
  program :: "('c, 's) vm_program"
  compiled_locals :: nat
  bindings :: "'s local_binding list"

end
