(* ===== verification/Moves.thy ===== *)
theory Moves
  imports Vm_Types
begin

text \<open>
  Which saved locals a snippet moves away: \<open>locals_moved_by_rebinding\<close> of
  \<open>src/repl_client.rs\<close>. It walks the compiled bytecode once, recognising three instruction
  patterns after a load of a local; a later store to the local takes the mark off again, except
  the store that is part of the pattern itself. The reference reads off the last event of each
  local.
\<close>

section \<open>The walk\<close>

text \<open>\<open>by_slot\<close>: names in map order, so a slot shared by several names keeps the last.\<close>

definition by_slot :: "(string \<Rightarrow> u8 option) \<Rightarrow> string list \<Rightarrow> u8 \<Rightarrow> string option" where
  "by_slot local_index names = map_of (rev (List.map_filter
     (\<lambda>name. map_option (\<lambda>slot. (slot, name)) (local_index name)) names))"

definition opcode_at :: "isa \<Rightarrow> u8 list \<Rightarrow> nat \<Rightarrow> u8 option" where
  "opcode_at I cs i = (case get_at i cs of
       Some b \<Rightarrow> if is_opcode I b then Some b else None
     | None \<Rightarrow> None)"

text \<open>The constant that the operand of an \<open>Ldc\<close> at \<open>i - 1\<close> selects.\<close>

definition constant_at :: "('c, 's) vm_program \<Rightarrow> nat \<Rightarrow> 'c vm_value option" where
  "constant_at P i = (case get_range i (i + 4) (prog_code P) of
       Some bs \<Rightarrow> get_at (unat (from_le bs :: u32)) (constants P)
     | None \<Rightarrow> None)"

text \<open>Load a local, store it in another.\<close>

definition direct_target :: "isa \<Rightarrow> ('c, 's) vm_program \<Rightarrow> nat \<Rightarrow> u8 \<Rightarrow> bool" where
  "direct_target I P ip source \<longleftrightarrow> opcode_at I (prog_code P) (ip + 2) = Some (op_stloc I)
     \<and> (case get_at (ip + 3) (prog_code P) of Some target \<Rightarrow> target \<noteq> source | None \<Rightarrow> False)"

text \<open>Load a local, then overwrite it with null.\<close>

definition null_store :: "isa \<Rightarrow> ('c, 's) vm_program \<Rightarrow> nat \<Rightarrow> u8 \<Rightarrow> bool" where
  "null_store I P ip source \<longleftrightarrow> opcode_at I (prog_code P) (ip + 2) = Some (op_ldc I)
     \<and> constant_at P (ip + 3) = Some VNull
     \<and> get_at (ip + 7) (prog_code P) = Some (op_stloc I)
     \<and> get_at (ip + 8) (prog_code P) = Some source"

text \<open>Load a local, then call the detach builtin on its slot.\<close>

definition detach_local :: "isa \<Rightarrow> ('c, 's) vm_program \<Rightarrow> nat \<Rightarrow> u8 \<Rightarrow> bool" where
  "detach_local I P ip source \<longleftrightarrow> opcode_at I (prog_code P) (ip + 2) = Some (op_ldc I)
     \<and> constant_at P (ip + 3) = Some (VInt (ucast source))
     \<and> get_at (ip + 7) (prog_code P) = Some (op_call I)
     \<and> map_option from_le (get_range (ip + 8) (ip + 10) (prog_code P)) = Some (detach_local_index I)
     \<and> get_at (ip + 10) (prog_code P) = Some 1"

text \<open>The slot and name a load or store at \<open>ip\<close> is about, when it is a saved local.\<close>

definition local_at :: "u8 \<Rightarrow> ('c, 's) vm_program \<Rightarrow> (u8 \<Rightarrow> string option) \<Rightarrow> nat \<Rightarrow> (u8 \<times> string) option" where
  "local_at op P slots ip =
     (if prog_code P ! ip = op then
        (case get_at (ip + 1) (prog_code P) of
           Some slot \<Rightarrow> map_option (Pair slot) (slots slot)
         | None \<Rightarrow> None)
      else None)"

text \<open>The two \<open>if\<close>s of the loop body, on the sets \<open>moved\<close> and \<open>move_store_offsets\<close>.\<close>

definition load_step :: "isa \<Rightarrow> ('c, 's) vm_program \<Rightarrow> (u8 \<Rightarrow> string option) \<Rightarrow> nat
    \<Rightarrow> string set \<times> nat set \<Rightarrow> string set \<times> nat set" where
  "load_step I P slots ip st = (case st of (moved, stores) \<Rightarrow>
     (case local_at (op_ldloc I) P slots ip of
        None \<Rightarrow> (moved, stores)
      | Some (source, name) \<Rightarrow>
          (let moved = (if direct_target I P ip source then insert name moved else moved);
               moved = (if null_store I P ip source \<or> detach_local I P ip source
                 then insert name moved else moved)
           in (moved, if null_store I P ip source then insert (ip + 7) stores else stores))))"

definition store_step :: "isa \<Rightarrow> ('c, 's) vm_program \<Rightarrow> (u8 \<Rightarrow> string option) \<Rightarrow> nat
    \<Rightarrow> string set \<times> nat set \<Rightarrow> string set \<times> nat set" where
  "store_step I P slots ip st = (case st of (moved, stores) \<Rightarrow>
     (if ip \<in> stores then (moved, stores)
      else case local_at (op_stloc I) P slots ip of
        None \<Rightarrow> (moved, stores)
      | Some (target, name) \<Rightarrow> (moved - {name}, stores)))"

function walk_moves :: "isa \<Rightarrow> ('c, 's) vm_program \<Rightarrow> (u8 \<Rightarrow> string option) \<Rightarrow> nat
    \<Rightarrow> string set \<times> nat set \<Rightarrow> string set" where
  "walk_moves I P slots ip st =
     (if ip < length (prog_code P) \<and> is_opcode I (prog_code P ! ip) then
        walk_moves I P slots (ip + 1 + operand_len I (prog_code P ! ip))
          (store_step I P slots ip (load_step I P slots ip st))
      else fst st)"
  by pat_completeness auto
termination
  by (relation "measure (\<lambda>(I, P, slots, ip, st). length (prog_code P) - ip)") auto

declare walk_moves.simps [simp del]

text \<open>The locals are the session's, here by their names in map order.\<close>

definition locals_moved_by_rebinding :: "isa \<Rightarrow> ('c, 's) vm_program \<Rightarrow> string list \<Rightarrow> string set" where
  "locals_moved_by_rebinding I P names = (case debug P of
       None \<Rightarrow> {}
     | Some local_index \<Rightarrow> walk_moves I P (by_slot local_index names) 0 ({}, {}))"

section \<open>The last event of a local\<close>

text \<open>The instructions the walk visits from \<open>ip\<close> on: up to the first byte that is no opcode.\<close>

function visited :: "isa \<Rightarrow> u8 list \<Rightarrow> nat \<Rightarrow> nat list" where
  "visited I cs ip =
     (if ip < length cs \<and> is_opcode I (cs ! ip) then ip # visited I cs (ip + 1 + operand_len I (cs ! ip))
      else [])"
  by pat_completeness auto
termination
  by (relation "measure (\<lambda>(I, cs, ip). length cs - ip)") auto

declare visited.simps [simp del]

definition moves_out :: "isa \<Rightarrow> ('c, 's) vm_program \<Rightarrow> (u8 \<Rightarrow> string option) \<Rightarrow> string \<Rightarrow> nat \<Rightarrow> bool" where
  "moves_out I P slots name ip \<longleftrightarrow> (\<exists>source. local_at (op_ldloc I) P slots ip = Some (source, name)
     \<and> (direct_target I P ip source \<or> null_store I P ip source \<or> detach_local I P ip source))"

text \<open>The store of the null pattern does not count as a new value.\<close>

definition pattern_store :: "isa \<Rightarrow> ('c, 's) vm_program \<Rightarrow> (u8 \<Rightarrow> string option) \<Rightarrow> nat \<Rightarrow> bool" where
  "pattern_store I P slots ip \<longleftrightarrow> (\<exists>i\<in>set (visited I (prog_code P) 0). \<exists>source name. ip = i + 7
     \<and> local_at (op_ldloc I) P slots i = Some (source, name) \<and> null_store I P i source)"

definition stores_new :: "isa \<Rightarrow> ('c, 's) vm_program \<Rightarrow> (u8 \<Rightarrow> string option) \<Rightarrow> string \<Rightarrow> nat \<Rightarrow> bool" where
  "stores_new I P slots name ip \<longleftrightarrow> (\<exists>target. local_at (op_stloc I) P slots ip = Some (target, name))
     \<and> \<not> pattern_store I P slots ip"

definition last_moved :: "isa \<Rightarrow> ('c, 's) vm_program \<Rightarrow> (u8 \<Rightarrow> string option) \<Rightarrow> nat set \<Rightarrow> string set" where
  "last_moved I P slots D = {name. \<exists>i\<in>D. moves_out I P slots name i
     \<and> (\<forall>j\<in>D. i \<le> j \<longrightarrow> \<not> stores_new I P slots name j)}"

definition pattern_offsets :: "isa \<Rightarrow> ('c, 's) vm_program \<Rightarrow> (u8 \<Rightarrow> string option) \<Rightarrow> nat set \<Rightarrow> nat set" where
  "pattern_offsets I P slots D = {i + 7 | i. i \<in> D \<and> (\<exists>source name.
     local_at (op_ldloc I) P slots i = Some (source, name) \<and> null_store I P i source)}"

lemma visited_ge: "j \<in> set (visited I cs ip) \<Longrightarrow> ip \<le> j"
proof (induction I cs ip rule: visited.induct)
  case (1 I cs ip)
  show ?case
  proof (cases "ip < length cs \<and> is_opcode I (cs ! ip)")
    case True
    with 1(2) have "j = ip \<or> j \<in> set (visited I cs (ip + 1 + operand_len I (cs ! ip)))"
      by (subst (asm) visited.simps) auto
    with 1(1) [OF True] show ?thesis by auto
  next
    case False
    with 1(2) show ?thesis by (subst (asm) visited.simps) auto
  qed
qed

lemma visited_sorted: "sorted_wrt (<) (visited I cs ip)"
proof (induction I cs ip rule: visited.induct)
  case (1 I cs ip)
  then show ?case
    by (subst visited.simps) (auto dest!: visited_ge)
qed

lemma last_moved_insert:
  "\<forall>d\<in>D. d < ip \<Longrightarrow> last_moved I P slots (insert ip D)
     = (last_moved I P slots D \<union> {name. moves_out I P slots name ip}) - {name. stores_new I P slots name ip}"
  by (auto simp: last_moved_def)

lemma pattern_offsets_insert:
  "pattern_offsets I P slots (insert ip D) = pattern_offsets I P slots D
     \<union> {i. i = ip + 7 \<and> (\<exists>source name. local_at (op_ldloc I) P slots ip = Some (source, name)
          \<and> null_store I P ip source)}"
  by (auto simp: pattern_offsets_def)

lemma load_step_eq:
  "load_step I P slots ip (moved, stores) =
     (moved \<union> {name. moves_out I P slots name ip},
      stores \<union> {i. i = ip + 7 \<and> (\<exists>source name. local_at (op_ldloc I) P slots ip = Some (source, name)
          \<and> null_store I P ip source)})"
  by (auto simp: load_step_def moves_out_def Let_def split: option.splits)

lemma store_step_eq:
  "(ip \<in> stores \<longleftrightarrow> pattern_store I P slots ip) \<Longrightarrow>
   store_step I P slots ip (moved, stores) = (moved - {name. stores_new I P slots name ip}, stores)"
  by (auto simp: store_step_def stores_new_def split: option.splits)

lemma walk_moves_last:
  "visited I (prog_code P) 0 = past @ visited I (prog_code P) ip \<Longrightarrow>
   walk_moves I P slots ip (last_moved I P slots (set past), pattern_offsets I P slots (set past))
     = last_moved I P slots (set (visited I (prog_code P) 0))"
proof (induction I "prog_code P" ip arbitrary: past rule: visited.induct)
  case (1 I ip)
  let ?cs = "prog_code P"
  show ?case
  proof (cases "ip < length ?cs \<and> is_opcode I (?cs ! ip)")
    case False
    then have "visited I ?cs ip = []" by (subst visited.simps) auto
    then show ?thesis using 1(2) False by (subst walk_moves.simps) auto
  next
    case True
    let ?next = "ip + 1 + operand_len I (?cs ! ip)"
    have v: "visited I ?cs ip = ip # visited I ?cs ?next"
      using True by (subst visited.simps) auto
    have all: "visited I ?cs 0 = (past @ [ip]) @ visited I ?cs ?next"
      using 1(2) v by simp
    have past: "\<forall>d\<in>set past. d < ip"
      using visited_sorted [of I ?cs 0] unfolding all by (simp add: sorted_wrt_append)
    have later: "\<forall>d\<in>set (visited I ?cs ?next). ip < d"
      using visited_ge [of _ I ?cs ?next] by fastforce
    let ?stores = "pattern_offsets I P slots (insert ip (set past))"
    have "ip \<in> ?stores \<longleftrightarrow> pattern_store I P slots ip"
      unfolding pattern_offsets_def pattern_store_def all using later by fastforce
    from store_step_eq [OF this, of "last_moved I P slots (set past) \<union> {name. moves_out I P slots name ip}"]
    have "store_step I P slots ip (load_step I P slots ip
        (last_moved I P slots (set past), pattern_offsets I P slots (set past)))
      = (last_moved I P slots (insert ip (set past)), ?stores)"
      unfolding load_step_eq last_moved_insert [OF past] pattern_offsets_insert by simp
    then show ?thesis
      using 1(1) [OF True, of "past @ [ip]"] all True by (subst walk_moves.simps) simp
  qed
qed

section \<open>Properties\<close>

text \<open>C14. The walk with its two sets reports exactly the saved locals whose last event is a move: the
  program has debug information, some visited instruction moves the local out (loads it to
  store it elsewhere, to overwrite it with null, or to detach it), and no visited store from
  there on gives it a new value, the null store of the pattern not counting as one. Instructions
  are visited up to the first byte that is no opcode.\<close>

theorem moved_iff_last_event:
  "name \<in> locals_moved_by_rebinding I P names \<longleftrightarrow>
     (\<exists>local_index. debug P = Some local_index \<and> (let slots = by_slot local_index names in
        \<exists>i\<in>set (visited I (prog_code P) 0). moves_out I P slots name i
          \<and> {j \<in> set (visited I (prog_code P) 0). i \<le> j} \<inter> Collect (stores_new I P slots name) = {}))"
proof (cases "debug P")
  case None
  then show ?thesis by (simp add: locals_moved_by_rebinding_def)
next
  case (Some local_index)
  let ?slots = "by_slot local_index names"
  have "walk_moves I P ?slots 0 ({}, {}) = last_moved I P ?slots (set (visited I (prog_code P) 0))"
    using walk_moves_last [of I P "[]" 0 ?slots] by (simp add: last_moved_def pattern_offsets_def)
  then show ?thesis using Some by (auto simp: locals_moved_by_rebinding_def last_moved_def Let_def)
qed

end
