(* ===== verification/Session.thy ===== *)
theory Session
  imports Moves Transport
begin

text \<open>
  \<open>SerialReplSession\<close> of \<open>src/repl_client.rs\<close>: the locals a user has defined, and
  \<open>eval\<close>, which compiles a snippet against them, sends program and values to the device and
  takes the values back. The compiler and the program encoder of the \<open>vm\<close> crate are
  parameters (record \<open>repl_vm\<close>), and so is the transport (\<open>ReplTransport::execute\<close>).
\<close>

section \<open>State and errors\<close>

record 's session_local =
  val_of :: repl_value
  is_mutable :: bool
  schema :: "'s type_schema option"
  optional :: bool
  moved :: bool

text \<open>\<open>BTreeMap<String, SessionLocal>\<close>, the only field of \<open>SerialReplSession\<close>.\<close>

type_synonym 's session = "(string, 's session_local) btree"

datatype 'e client_error =
    Compile_Error "'e source_error"
  | Encode_Error string
  | Wire_Error wire_error
  | Io_Failed io_error
  | Device i32
  | MissingDebugInfo
  | MissingLocal string
  | InvalidLocalCount nat nat

record ('c, 's, 'e) repl_vm =
  compile_for_repl :: "string \<Rightarrow> 's local_state list \<Rightarrow> 'e source_error + ('c, 's) compiled_repl"
  with_local_count :: "('c, 's) vm_program \<Rightarrow> nat \<Rightarrow> ('c, 's) vm_program"
  encode_program :: "('c, 's) vm_program \<Rightarrow> string + u8 list"
  instructions :: isa

text \<open>The derived \<open>Debug\<close> of \<open>ReplWireError\<close> and the \<open>Display\<close> of the errors;
  \<open>SourceError\<close> prints itself.\<close>

definition wire_error_debug :: "wire_error \<Rightarrow> string" where
  "wire_error_debug e = (case e of
       InvalidMagic \<Rightarrow> ''InvalidMagic''
     | InvalidTag b \<Rightarrow> ''InvalidTag('' @ show_nat (unat b) @ '')''
     | InvalidBool b \<Rightarrow> ''InvalidBool('' @ show_nat (unat b) @ '')''
     | InvalidUtf8 \<Rightarrow> ''InvalidUtf8''
     | UnexpectedEnd \<Rightarrow> ''UnexpectedEnd''
     | TrailingData \<Rightarrow> ''TrailingData''
     | LengthOverflow \<Rightarrow> ''LengthOverflow''
     | NestingTooDeep \<Rightarrow> ''NestingTooDeep'')"

definition client_error_display :: "('e source_error \<Rightarrow> string) \<Rightarrow> 'e client_error \<Rightarrow> string" where
  "client_error_display show_source e = (case e of
       Compile_Error err \<Rightarrow> show_source err
     | Encode_Error err \<Rightarrow> ''failed to encode VMBC: '' @ err
     | Wire_Error err \<Rightarrow> ''invalid REPL payload: '' @ wire_error_debug err
     | Io_Failed err \<Rightarrow> ''serial transport failed: '' @ message err
     | Device status \<Rightarrow> ''device execution failed with status '' @ show_int (sint status)
     | MissingDebugInfo \<Rightarrow> ''compiled REPL snippet has no debug info''
     | MissingLocal name \<Rightarrow> ''compiled REPL local '' @ [CHR 0x27] @ name @ [CHR 0x27] @ '' is missing''
     | InvalidLocalCount expected actual \<Rightarrow>
         ''device returned '' @ show_nat actual @ '' locals, expected '' @ show_nat expected)"

definition session_new :: "'s session" where
  "session_new = []"

definition session_clear :: "'s session \<Rightarrow> 's session" where
  "session_clear s = []"

section \<open>Compiling\<close>

definition compile_states :: "'s session \<Rightarrow> 's local_state list" where
  "compile_states ls = map (\<lambda>(name, l).
     \<lparr>binding = \<lparr>bind_name = name, bind_mutable = is_mutable l, bind_schema = schema l,
        bind_optional = optional l\<rparr>, bind_moved = moved l\<rparr>) ls"

text \<open>A snippet that does not compile is tried again with a semicolon; the second error is
  reported when it is the more telling one.\<close>

definition compile_snippet :: "('c, 's, 'e) repl_vm \<Rightarrow> string \<Rightarrow> 's session
    \<Rightarrow> 'e source_error + ('c, 's) compiled_repl" where
  "compile_snippet V source ls =
     (let trimmed = trim_end source; states = compile_states ls in
      case compile_for_repl V trimmed states of
        Inr compiled \<Rightarrow> Inr compiled
      | Inl first_error \<Rightarrow>
          if \<not> ends_with trimmed '';'' then
            (case compile_for_repl V (trimmed @ '';'') states of
               Inr compiled \<Rightarrow> Inr compiled
             | Inl (Source_Parse (Some c) err) \<Rightarrow> Inl (Source_Parse (Some c) err)
             | Inl (Source_Compile err) \<Rightarrow> Inl (Source_Compile err)
             | Inl (Source_Parse None err) \<Rightarrow> Inl first_error)
          else Inl first_error)"

section \<open>Schemas\<close>

definition schema_from_value :: "repl_value \<Rightarrow> 's type_schema option" where
  "schema_from_value v = Some (case v of
       ReplNull \<Rightarrow> S_Null
     | ReplInt _ \<Rightarrow> S_Int
     | ReplFloat _ \<Rightarrow> S_Float
     | ReplBool _ \<Rightarrow> S_Bool
     | ReplString _ \<Rightarrow> S_String
     | ReplBytes _ \<Rightarrow> S_Bytes
     | ReplArray _ \<Rightarrow> S_Array S_Unknown
     | ReplMap _ \<Rightarrow> S_Map S_Unknown)"

definition schema_from_value_type :: "value_type \<Rightarrow> 's type_schema option" where
  "schema_from_value_type t = (case t of
       T_Unknown \<Rightarrow> None
     | T_Null \<Rightarrow> Some S_Null
     | T_Int \<Rightarrow> Some S_Int
     | T_Float \<Rightarrow> Some S_Float
     | T_Bool \<Rightarrow> Some S_Bool
     | T_String \<Rightarrow> Some S_String
     | T_Bytes \<Rightarrow> Some S_Bytes
     | T_Array \<Rightarrow> Some (S_Array S_Unknown)
     | T_Map \<Rightarrow> Some (S_Map S_Unknown)
     | T_Callable \<Rightarrow> Some (S_Callable [] S_Unknown))"

text \<open>\<open>Option::or_else\<close> and \<open>Option::or\<close>.\<close>

definition or_else :: "'a option \<Rightarrow> 'a option \<Rightarrow> 'a option" where
  "or_else x y = (case x of Some a \<Rightarrow> Some a | None \<Rightarrow> y)"

definition local_schema :: "('c, 's) vm_program \<Rightarrow> nat \<Rightarrow> repl_value \<Rightarrow> 's type_schema option \<times> bool" where
  "local_schema P slot v = (case prog_types P of
       None \<Rightarrow> (schema_from_value v, False)
     | Some tm \<Rightarrow>
         (or_else (or_else
            (Option.bind (get_at slot (local_schemas tm)) (\<lambda>s. s))
            (Option.bind (get_at slot (local_types tm)) schema_from_value_type))
            (schema_from_value v),
          (case get_at slot (optional_slots tm) of Some b \<Rightarrow> b | None \<Rightarrow> False)))"

section \<open>Evaluating\<close>

text \<open>Fallible steps that may also panic, chained as \<open>?\<close> chains them.\<close>

definition step_then :: "('e + 'a) outcome \<Rightarrow> ('a \<Rightarrow> ('e + 'b) outcome) \<Rightarrow> ('e + 'b) outcome" where
  "step_then r f = (case r of
       Panicked \<Rightarrow> Panicked
     | Returned (Inl e) \<Rightarrow> Returned (Inl e)
     | Returned (Inr a) \<Rightarrow> f a)"

lemma step_then_simps [simp]:
  "step_then Panicked f = Panicked"
  "step_then (Returned (Inl e)) f = Returned (Inl e)"
  "step_then (Returned (Inr a)) f = f a"
  by (simp_all add: step_then_def)

lemma step_then_Inr:
  "step_then r f = Returned (Inr b) \<longleftrightarrow> (\<exists>a. r = Returned (Inr a) \<and> f a = Returned (Inr b))"
  by (auto simp: step_then_def split: outcome.splits sum.splits)

lemma step_then_Panicked:
  "step_then r f = Panicked \<longleftrightarrow> r = Panicked \<or> (\<exists>a. r = Returned (Inr a) \<and> f a = Panicked)"
  by (auto simp: step_then_def split: outcome.splits sum.splits)

text \<open>\<open>debug.local_index(name).ok_or_else(MissingLocal)\<close>.\<close>

definition slot_of :: "(string \<Rightarrow> u8 option) \<Rightarrow> string \<Rightarrow> 'e client_error + nat" where
  "slot_of local_index name = ok_or (MissingLocal name) (map_option unat (local_index name))"

text \<open>The seed: one value per slot of the program, the saved ones in their slots. Writing past
  the end panics.\<close>

fun fill_seed :: "(string \<Rightarrow> u8 option) \<Rightarrow> 's session \<Rightarrow> repl_value list
    \<Rightarrow> ('e client_error + repl_value list) outcome" where
  "fill_seed local_index [] seed = Returned (Inr seed)"
| "fill_seed local_index ((name, l) # ls) seed =
     step_then (Returned (slot_of local_index name)) (\<lambda>slot.
     if slot < length seed then fill_seed local_index ls (seed[slot := val_of l]) else Panicked)"

text \<open>One round of the loop of \<open>sync\<close>: the value the device returned for a binding, with its
  schema and whether it is moved.\<close>

definition sync_local :: "('c, 's) vm_program \<Rightarrow> string set \<Rightarrow> repl_value \<Rightarrow> nat \<Rightarrow> 's local_binding
    \<Rightarrow> 's session_local" where
  "sync_local P moved_by_rebinding v slot b =
     (let (sch, opt) = local_schema P slot v;
          mv = bind_name b \<in> moved_by_rebinding
            \<or> \<not> opt \<and> v = ReplNull \<and> sch \<in> {Some S_String, Some S_Bytes}
      in \<lparr>val_of = v, is_mutable = bind_mutable b, schema = sch, optional = opt, moved = mv\<rparr>)"

fun sync_loop :: "('c, 's) vm_program \<Rightarrow> (string \<Rightarrow> u8 option) \<Rightarrow> string set \<Rightarrow> repl_value list
    \<Rightarrow> 's local_binding list \<Rightarrow> 's session \<Rightarrow> ('e client_error + 's session) outcome" where
  "sync_loop P local_index mv vs [] nxt = Returned (Inr nxt)"
| "sync_loop P local_index mv vs (b # bs) nxt =
     step_then (Returned (slot_of local_index (bind_name b))) (\<lambda>slot.
     if slot < length vs then
       sync_loop P local_index mv vs bs
         (bt_insert (bind_name b) (sync_local P mv (vs ! slot) slot b) nxt)
     else Panicked)"

text \<open>The new locals; the caller keeps the old ones when this fails.\<close>

definition sync :: "('c, 's) vm_program \<Rightarrow> 's local_binding list \<Rightarrow> string set \<Rightarrow> repl_response
    \<Rightarrow> ('e client_error + 's session) outcome" where
  "sync P bs mv response = (case debug P of
       None \<Rightarrow> Returned (Inl MissingDebugInfo)
     | Some local_index \<Rightarrow> sync_loop P local_index mv (locals response) bs [])"

text \<open>\<open>eval\<close> up to the call of the transport.\<close>

record ('c, 's) request =
  req_program :: "('c, 's) vm_program"
  req_bindings :: "'s local_binding list"
  req_moved :: "string set"
  req_code :: "u8 list"
  req_state :: "u8 list"

definition prepare :: "('c, 's, 'e) repl_vm \<Rightarrow> string \<Rightarrow> 's session
    \<Rightarrow> ('e client_error + ('c, 's) request) outcome" where
  "prepare V source ls =
     step_then (Returned (map_err Compile_Error (compile_snippet V source ls))) (\<lambda>compiled.
     let mv = locals_moved_by_rebinding (instructions V) (program compiled) (map fst ls);
         P = with_local_count V (program compiled) (compiled_locals compiled)
     in step_then (Returned (ok_or MissingDebugInfo (debug P))) (\<lambda>local_index.
        step_then (fill_seed local_index ls (replicate (local_count P) ReplNull)) (\<lambda>seed.
        step_then (Returned (map_err Encode_Error (encode_program V P))) (\<lambda>encoded_program.
        step_then (Returned (map_err Wire_Error (encode_repl_state seed))) (\<lambda>encoded_state.
        Returned (Inr \<lparr>req_program = P, req_bindings = bindings compiled, req_moved = mv,
          req_code = encoded_program, req_state = encoded_state\<rparr>))))))"

text \<open>\<open>eval\<close> after it. A failed snippet with a payload still updates the locals, without
  the moves.\<close>

definition absorb :: "target \<Rightarrow> ('c, 's) request \<Rightarrow> 's session \<Rightarrow> i32 \<Rightarrow> u8 list
    \<Rightarrow> (('e client_error + repl_value option) \<times> 's session) outcome" where
  "absorb T rq ls status payload =
     (if status \<noteq> 0 \<and> payload = [] then Returned (Inl (Device status), ls)
      else case decode_repl_response T payload of
        Inl e \<Rightarrow> Returned (Inl (Wire_Error e), ls)
      | Inr response \<Rightarrow>
          if length (locals response) \<noteq> local_count (req_program rq) then
            Returned (Inl (InvalidLocalCount (local_count (req_program rq)) (length (locals response))), ls)
          else (case sync (req_program rq) (req_bindings rq)
                       (if status = 0 then req_moved rq else {}) response of
              Panicked \<Rightarrow> Panicked
            | Returned (Inl e) \<Rightarrow> Returned (Inl e, ls)
            | Returned (Inr ls') \<Rightarrow>
                Returned (if status \<noteq> 0 then Inl (Device status) else Inr (result response), ls')))"

text \<open>The transport is any \<open>ReplTransport\<close>: \<open>exec\<close> is its \<open>execute\<close>.\<close>

definition eval :: "target \<Rightarrow> ('c, 's, 'e) repl_vm
    \<Rightarrow> (u8 list \<Rightarrow> u8 list \<Rightarrow> 't \<Rightarrow> (io_error + i32 \<times> u8 list) \<times> 't)
    \<Rightarrow> string \<Rightarrow> 's session \<Rightarrow> 't
    \<Rightarrow> (('e client_error + repl_value option) \<times> 's session \<times> 't) outcome" where
  "eval T V exec source ls tr = (case prepare V source ls of
       Panicked \<Rightarrow> Panicked
     | Returned (Inl e) \<Rightarrow> Returned (Inl e, ls, tr)
     | Returned (Inr rq) \<Rightarrow>
         (case exec (req_code rq) (req_state rq) tr of
            (Inl e, tr') \<Rightarrow> Returned (Inl (Io_Failed e), ls, tr')
          | (Inr (status, payload), tr') \<Rightarrow>
              (case absorb T rq ls status payload of
                 Panicked \<Rightarrow> Panicked
               | Returned (r, ls') \<Rightarrow> Returned (r, ls', tr'))))"

end
