(* ===== verification/Session_Props.thy ===== *)
theory Session_Props
  imports Session Wire_Props
begin

text \<open>
  What \<open>SerialReplSession::eval\<close> promises: nothing reaches the device unless the snippet
  compiled, the values sent are the saved ones in their slots, the session only changes by a
  complete response, and then holds exactly the bindings of the snippet.
\<close>

section \<open>Loops\<close>

definition slot_no :: "(string \<Rightarrow> u8 option) \<Rightarrow> string \<Rightarrow> nat" where
  "slot_no local_index name = unat (the (local_index name))"

lemma step_slot:
  "step_then (Returned (slot_of li name)) f = (case li name of
     None \<Rightarrow> Returned (Inl (MissingLocal name)) | Some _ \<Rightarrow> f (slot_no li name))"
  by (simp add: slot_of_def slot_no_def split: option.split)

text \<open>The value a slot is seeded with: that of the last local in it.\<close>

definition seed_value :: "(string \<Rightarrow> u8 option) \<Rightarrow> 's session \<Rightarrow> nat \<Rightarrow> repl_value option" where
  "seed_value li ls = map_of (rev (map (\<lambda>(name, l). (slot_no li name, val_of l)) ls))"

lemma seed_value_Cons:
  "seed_value li ((name, l) # ls) i = (case seed_value li ls i of
     Some v \<Rightarrow> Some v | None \<Rightarrow> if i = slot_no li name then Some (val_of l) else None)"
  by (simp add: seed_value_def map_add_def split: option.split)

lemma fill_seed_Inr:
  "fill_seed li ls seed = (Returned (Inr seed') :: ('e client_error + _) outcome) \<Longrightarrow>
     seed' = map (\<lambda>i. case seed_value li ls i of Some v \<Rightarrow> v | None \<Rightarrow> seed ! i) [0..<length seed]
     \<and> (\<forall>name\<in>set (map fst ls). li name \<noteq> None \<and> slot_no li name < length seed)"
proof (induction ls arbitrary: seed)
  case Nil
  then show ?case by (simp add: seed_value_def map_nth)
next
  case (Cons nl ls)
  obtain name l where nl: "nl = (name, l)" by (cases nl)
  show ?case
  proof (cases "li name")
    case None
    with Cons.prems nl show ?thesis by (simp add: step_slot)
  next
    case 2: (Some _)
    with Cons.prems nl have s: "slot_no li name < length seed"
      and r: "fill_seed li ls (seed[slot_no li name := val_of l])
        = (Returned (Inr seed') :: ('e client_error + _) outcome)"
      by (auto simp: step_slot split: if_splits)
    from Cons.IH [OF r] s 2 nl show ?thesis
      by (auto simp: seed_value_Cons nth_list_update split: option.splits)
  qed
qed

lemma fill_seed_Panicked:
  "fill_seed li ls seed = Panicked \<Longrightarrow>
     \<exists>name\<in>set (map fst ls). li name \<noteq> None \<and> length seed \<le> slot_no li name"
proof (induction ls arbitrary: seed)
  case (Cons nl ls)
  obtain name l where nl: "nl = (name, l)" by (cases nl)
  show ?case
  proof (cases "li name")
    case None
    with Cons.prems nl show ?thesis by (simp add: step_slot)
  next
    case 2: (Some _)
    with Cons nl show ?thesis
      by (cases "slot_no li name < length seed") (fastforce simp: not_less step_slot)+
  qed
qed simp

definition synced :: "('c, 's) vm_program \<Rightarrow> (string \<Rightarrow> u8 option) \<Rightarrow> string set \<Rightarrow> repl_value list
    \<Rightarrow> 's local_binding \<Rightarrow> 's session_local" where
  "synced P li mv vs b = sync_local P mv (vs ! slot_no li (bind_name b)) (slot_no li (bind_name b)) b"

lemma sync_loop_Inr:
  "sync_loop P li mv vs bs nxt = (Returned (Inr nxt') :: ('e client_error + _) outcome) \<Longrightarrow>
     nxt' = bt.insert_all (map (\<lambda>b. (bind_name b, synced P li mv vs b)) bs) nxt
     \<and> (\<forall>b\<in>set bs. li (bind_name b) \<noteq> None \<and> slot_no li (bind_name b) < length vs)"
proof (induction bs arbitrary: nxt)
  case (Cons b bs)
  show ?case
  proof (cases "li (bind_name b)")
    case None
    with Cons.prems show ?thesis by (simp add: step_slot)
  next
    case 2: (Some _)
    with Cons.prems have s: "slot_no li (bind_name b) < length vs"
      and r: "sync_loop P li mv vs bs (bt_insert (bind_name b) (synced P li mv vs b) nxt)
        = (Returned (Inr nxt') :: ('e client_error + _) outcome)"
      by (auto simp: synced_def step_slot split: if_splits)
    from Cons.IH [OF r] s 2 show ?thesis by simp
  qed
qed simp

lemma sync_loop_Panicked:
  "sync_loop P li mv vs bs nxt = Panicked \<Longrightarrow>
     \<exists>b\<in>set bs. li (bind_name b) \<noteq> None \<and> length vs \<le> slot_no li (bind_name b)"
proof (induction bs arbitrary: nxt)
  case (Cons b bs)
  show ?case
  proof (cases "li (bind_name b)")
    case None
    with Cons.prems show ?thesis by (simp add: step_slot)
  next
    case 2: (Some _)
    with Cons show ?thesis
      by (cases "slot_no li (bind_name b) < length vs") (fastforce simp: not_less step_slot)+
  qed
qed simp

text \<open>The binding that decides about a name: the last one.\<close>

definition last_binding :: "'s local_binding list \<Rightarrow> string \<Rightarrow> 's local_binding option" where
  "last_binding bs = map_of (rev (map (\<lambda>b. (bind_name b, b)) bs))"

lemma sync_Inr:
  assumes "sync P bs mv response = Returned (Inr ls')"
  obtains li where "debug P = Some li" "bt_sorted ls'"
    "map_of ls' = (\<lambda>name. map_option (synced P li mv (locals response)) (last_binding bs name))"
    "\<forall>b\<in>set bs. li (bind_name b) \<noteq> None \<and> slot_no li (bind_name b) < length (locals response)"
proof -
  obtain li where li: "debug P = Some li"
    using assms by (auto simp: sync_def split: option.splits)
  note r = sync_loop_Inr [OF assms [unfolded sync_def li option.case]]
  let ?f = "synced P li mv (locals response)"
  from r
  have ls': "ls' = bt.insert_all (map (\<lambda>b. (bind_name b, ?f b)) bs) []" by simp
  have "map_of (rev (map (\<lambda>b. (bind_name b, ?f b)) bs)) name = map_option ?f (last_binding bs name)" for name
    unfolding last_binding_def rev_map
    by (induction bs rule: rev_induct) simp_all
  then have "map_of ls' = (\<lambda>name. map_option ?f (last_binding bs name))"
    unfolding ls' bt.get_collect by auto
  moreover have "bt_sorted ls'"
    unfolding ls' by (rule bt.invar_insert_all) (rule bt.invar_empty)
  ultimately show ?thesis
    using that [OF li] r by blast
qed

section \<open>The phases of eval\<close>

text \<open>The values sent: one per slot, the saved locals in their slots, null elsewhere.\<close>

definition seed_of :: "(string \<Rightarrow> u8 option) \<Rightarrow> 's session \<Rightarrow> nat \<Rightarrow> repl_value list" where
  "seed_of li ls n = map (\<lambda>i. case seed_value li ls i of Some v \<Rightarrow> v | None \<Rightarrow> ReplNull) [0..<n]"

text \<open>The session holds what a response says about the bindings of a snippet.\<close>

definition holds_response :: "('c, 's) vm_program \<Rightarrow> 's local_binding list \<Rightarrow> string set
    \<Rightarrow> repl_value list \<Rightarrow> 's session \<Rightarrow> bool" where
  "holds_response P bs mv vs ls \<longleftrightarrow> (\<exists>li. debug P = Some li \<and> bt_sorted ls
     \<and> (\<forall>b\<in>set bs. li (bind_name b) \<noteq> None \<and> slot_no li (bind_name b) < length vs)
     \<and> map_of ls = (\<lambda>name. map_option (synced P li mv vs) (last_binding bs name)))"

lemma prepare_Inr:
  fixes V :: "('c, 's, 'e) repl_vm"
  assumes "prepare V source ls = Returned (Inr rq)"
  obtains compiled li where "compile_snippet V source ls = Inr compiled"
    "req_program rq = with_local_count V (program compiled) (compiled_locals compiled)"
    "req_bindings rq = bindings compiled"
    "req_moved rq = locals_moved_by_rebinding (instructions V) (program compiled) (map fst ls)"
    "debug (req_program rq) = Some li" "encode_program V (req_program rq) = Inr (req_code rq)"
    "encode_repl_state (seed_of li ls (local_count (req_program rq))) = Inr (req_state rq)"
proof -
  obtain compiled where c: "compile_snippet V source ls = Inr compiled"
    using assms by (auto simp: prepare_def step_then_Inr)
  define P where "P = with_local_count V (program compiled) (compiled_locals compiled)"
  obtain li where li: "debug P = Some li"
    using assms c by (cases "debug P") (auto simp: prepare_def P_def)
  note rest = assms [unfolded prepare_def c map_err_simps step_then_simps Let_def
      P_def [symmetric] li ok_or_simps step_then_Inr]
  then obtain seed where "fill_seed li ls (replicate (local_count P) ReplNull)
      = (Returned (Inr seed) :: ('e client_error + _) outcome)"
    and e: "encode_program V P = Inr (req_code rq)" "encode_repl_state seed = Inr (req_state rq)"
    "req_program rq = P" "req_bindings rq = bindings compiled"
    "req_moved rq = locals_moved_by_rebinding (instructions V) (program compiled) (map fst ls)"
    by auto
  from fill_seed_Inr [OF this(1)] have "seed = seed_of li ls (local_count P)"
    by (auto simp: seed_of_def split: option.split)
  with e li c show ?thesis by (intro that) (auto simp: P_def)
qed

lemma prepare_Panicked:
  fixes V :: "('c, 's, 'e) repl_vm"
  assumes "prepare V source ls = Panicked"
  obtains compiled P li name where "compile_snippet V source ls = Inr compiled"
    "P = with_local_count V (program compiled) (compiled_locals compiled)"
    "debug P = Some li" "li name \<noteq> None" "local_count P \<le> slot_no li name"
proof -
  obtain compiled where c: "compile_snippet V source ls = Inr compiled"
    using assms by (auto simp: prepare_def step_then_Panicked)
  define P where "P = with_local_count V (program compiled) (compiled_locals compiled)"
  obtain li where li: "debug P = Some li"
    using assms c by (cases "debug P") (auto simp: prepare_def P_def)
  note rest = assms [unfolded prepare_def c map_err_simps step_then_simps Let_def
      P_def [symmetric] li ok_or_simps step_then_Panicked]
  then have "fill_seed li ls (replicate (local_count P) ReplNull)
      = (Panicked :: ('e client_error + _) outcome)" by auto
  from fill_seed_Panicked [OF this] show ?thesis
    using that [OF c P_def li] by auto
qed

lemma sync_holds:
  "sync P bs mv response = Returned (Inr ls') \<Longrightarrow> holds_response P bs mv (locals response) ls'"
  by (erule sync_Inr) (auto simp: holds_response_def)

lemma absorb_cases:
  fixes r :: "'e client_error + repl_value option"
  assumes "absorb T rq ls status payload = Returned (r, ls')"
  obtains (kept) e where "r = Inl e" "ls' = ls"
  | (synced) response where "decode_repl_response T payload = Inr response"
    "length (locals response) = local_count (req_program rq)"
    "holds_response (req_program rq) (req_bindings rq) (if status = 0 then req_moved rq else {})
       (locals response) ls'"
    "r = (if status \<noteq> 0 then Inl (Device status) else Inr (result response))"
proof (cases "status \<noteq> 0 \<and> payload = []")
  case True
  with assms show ?thesis by (intro kept) (auto simp: absorb_def)
next
  case no: False
  show ?thesis
  proof (cases "decode_repl_response T payload")
    case (Inl e)
    with assms no show ?thesis by (intro kept) (auto simp: absorb_def)
  next
    case (Inr response)
    show ?thesis
    proof (cases "length (locals response) = local_count (req_program rq)")
      case False
      with assms no Inr show ?thesis by (intro kept) (auto simp: absorb_def)
    next
      case len: True
      let ?mv = "if status = 0 then req_moved rq else {}"
      show ?thesis
      proof (cases "sync (req_program rq) (req_bindings rq) ?mv response
            :: ('e client_error + _) outcome")
        case Panicked
        with assms no Inr len show ?thesis by (simp add: absorb_def)
      next
        case (Returned q)
        show ?thesis
        proof (cases q)
          case (Inl e)
          with assms no Inr len Returned show ?thesis
            by (intro kept [of e]) (simp_all add: absorb_def \<open>decode_repl_response T payload = Inr response\<close>)
        next
          case (Inr ls1)
          with assms no len Returned \<open>decode_repl_response T payload = Inr response\<close>
          have "ls1 = ls'" "r = (if status \<noteq> 0 then Inl (Device status) else Inr (result response))"
            by (auto simp: absorb_def)
          with Returned Inr sync_holds [of "req_program rq" "req_bindings rq" ?mv response ls1] show ?thesis
            by (intro synced [OF \<open>decode_repl_response T payload = Inr response\<close> len]) auto
        qed
      qed
    qed
  qed
qed

end
