(* ===== verification/Session_Safety.thy ===== *)
theory Session_Safety
  imports Session_Props Wire_Safety
begin

text \<open>
  The properties of \<open>SerialReplSession\<close>, each with an instance on a small compiler and
  device.
\<close>

section \<open>A compiler and a device for the examples\<close>

definition demo_program :: "nat \<Rightarrow> (unit, unit) vm_program" where
  "demo_program n = \<lparr>prog_code = [], constants = [], prog_types = None,
     debug = Some (\<lambda>name. if name = ''x'' then Some 0 else None), local_count = n\<rparr>"

definition demo_isa :: isa where
  "demo_isa = \<lparr>is_opcode = \<lambda>_. False, operand_len = \<lambda>_. 0, op_ldloc = 1, op_stloc = 2, op_ldc = 3,
     op_call = 4, detach_local_index = 9\<rparr>"

definition demo_binding :: "unit local_binding" where
  "demo_binding = \<lparr>bind_name = ''x'', bind_mutable = True, bind_schema = None, bind_optional = False\<rparr>"

definition demo_compiled :: "(unit, unit) compiled_repl" where
  "demo_compiled = \<lparr>program = demo_program 0, compiled_locals = 1, bindings = [demo_binding]\<rparr>"

definition demo_vm :: "(unit, unit, unit) repl_vm" where
  "demo_vm = \<lparr>compile_for_repl = \<lambda>source states.
       if source = ''x'' then Inr demo_compiled else Inl (Source_Compile ()),
     with_local_count = \<lambda>P n. P\<lparr>local_count := n\<rparr>, encode_program = \<lambda>P. Inr [1],
     instructions = demo_isa\<rparr>"

definition demo_session :: "unit session" where
  "demo_session = [(''x'', \<lparr>val_of = ReplBool True, is_mutable = True, schema = Some S_Bool,
     optional = False, moved = False\<rparr>)]"

definition demo_payload :: "u8 list" where
  "demo_payload = response_bytes \<lparr>locals = [ReplBool False], result = Some ReplNull\<rparr>"

text \<open>A device that counts its calls and answers every request with a status.\<close>

definition demo_device :: "i32 \<Rightarrow> u8 list \<Rightarrow> u8 list \<Rightarrow> nat \<Rightarrow> (io_error + i32 \<times> u8 list) \<times> nat" where
  "demo_device status code state calls = (Inr (status, demo_payload), Suc calls)"

lemma demo_trim: "trim_end ''x'' = ''x''"
  by (simp add: trim_end_def trim_end_chars_def chars_ascii is_whitespace_def bytes_str_def eq_char_of
      take_bit_eq_mod del: chars.simps)

lemma demo_compile: "compile_snippet demo_vm ''x'' ls = Inr demo_compiled"
  by (simp add: compile_snippet_def demo_trim demo_vm_def)

lemma demo_fields [simp]:
  "with_local_count demo_vm P n = P\<lparr>local_count := n\<rparr>" "encode_program demo_vm P = Inr [1]"
  "instructions demo_vm = demo_isa" "program demo_compiled = demo_program 0"
  "compiled_locals demo_compiled = 1" "bindings demo_compiled = [demo_binding]"
  "debug (demo_program n) = Some (\<lambda>name. if name = ''x'' then Some 0 else None)"
  "prog_types (demo_program n) = None" "local_count (demo_program n) = n"
  "demo_program n\<lparr>local_count := m\<rparr> = demo_program m"
  by (simp_all add: demo_vm_def demo_compiled_def demo_program_def)

lemma demo_moves: "locals_moved_by_rebinding demo_isa (demo_program n) names = {}"
  unfolding locals_moved_by_rebinding_def
  by (simp, subst walk_moves.simps) (simp add: demo_program_def)

definition demo_request :: "(unit, unit) request" where
  "demo_request = \<lparr>req_program = demo_program 1, req_bindings = [demo_binding], req_moved = {},
     req_code = [1], req_state = state_bytes [ReplBool True]\<rparr>"

lemma demo_prepare: "prepare demo_vm ''x'' demo_session = Returned (Inr demo_request)"
proof -
  have "encode_repl_state [ReplBool True] = Inr (state_bytes [ReplBool True])"
    by (simp add: encode_repl_state_iff state_bytes_def MAX_NESTING_def MAX_WIRE_BYTES_def)
  then show ?thesis
    by (simp add: prepare_def demo_compile demo_moves Let_def demo_session_def step_slot slot_no_def
        demo_request_def)
qed

lemma demo_decode:
  "decode_repl_response host_target demo_payload
     = Inr \<lparr>locals = [ReplBool False], result = Some ReplNull\<rparr>"
  unfolding demo_payload_def
  using decode_repl_response_complete
    [of host_target "\<lparr>locals = [ReplBool False], result = Some ReplNull\<rparr>" "[]"]
  by (simp add: response_values_def response_bytes_def MAX_NESTING_def MAX_WIRE_BYTES_def
      MAX_VALUE_NODES_def total_nodes_def)

lemma demo_payload_nonempty: "demo_payload \<noteq> []"
  by (simp add: demo_payload_def response_bytes_def magic_bytes)

definition demo_after :: "unit session" where
  "demo_after = [(''x'', \<lparr>val_of = ReplBool False, is_mutable = True, schema = Some S_Bool,
     optional = False, moved = False\<rparr>)]"

lemma demo_absorb:
  "absorb host_target demo_request demo_session status demo_payload
     = Returned (if status = 0 then Inr (Some ReplNull) else Inl (Device status), demo_after)"
  by (simp add: absorb_def demo_payload_nonempty demo_decode demo_request_def sync_def step_slot
      slot_no_def demo_binding_def sync_local_def local_schema_def schema_from_value_def Let_def
      demo_after_def)

lemma demo_eval:
  "eval host_target demo_vm (demo_device status) ''x'' demo_session calls
     = Returned (if status = 0 then Inr (Some ReplNull) else Inl (Device status), demo_after, Suc calls)"
  by (simp add: eval_def demo_prepare demo_device_def demo_absorb)

section \<open>Properties\<close>

lemma eval_cases:
  fixes r :: "'e client_error + repl_value option"
  assumes "eval T V exec source ls tr = Returned (r, ls', tr')"
  obtains (early) e where "prepare V source ls = Returned (Inl e)" "r = Inl e" "ls' = ls" "tr' = tr"
  | (io) rq e where "prepare V source ls = Returned (Inr rq)"
      "exec (req_code rq) (req_state rq) tr = (Inl e, tr')" "r = Inl (Io_Failed e)" "ls' = ls"
  | (answered) rq status payload where "prepare V source ls = Returned (Inr rq)"
      "exec (req_code rq) (req_state rq) tr = (Inr (status, payload), tr')"
      "absorb T rq ls status payload = Returned (r, ls')"
proof (cases "prepare V source ls")
  case Panicked
  with assms show ?thesis by (simp add: eval_def)
next
  case (Returned q)
  show ?thesis
  proof (cases q)
    case (Inl e)
    with Returned assms show ?thesis by (intro early [of e]) (simp_all add: eval_def)
  next
    case (Inr rq)
    obtain a tr1 where a: "exec (req_code rq) (req_state rq) tr = (a, tr1)" by (metis prod.exhaust)
    show ?thesis
    proof (cases a)
      case (Inl e)
      with Returned Inr a assms show ?thesis by (intro io [of rq e]) (simp_all add: eval_def)
    next
      case b: (Inr sp)
      obtain status payload where "sp = (status, payload)" by (cases sp)
      with Returned Inr a b assms show ?thesis
        by (intro answered [of rq status payload]) (auto simp: eval_def split: outcome.splits)
    qed
  qed
qed

text \<open>An \<open>eval\<close> that returns has either failed before the transport (the snippet does not
  compile, a saved local has no slot, the program or the values cannot be encoded), and then
  neither session nor transport have changed, or it has called the transport exactly once, with
  the encoded program and values.\<close>

theorem eval_reaches_device_once:
  assumes "eval T V exec source ls tr = Returned (r, ls', tr')"
  shows "(\<exists>e. prepare V source ls = Returned (Inl e) \<and> r = Inl e \<and> ls' = ls \<and> tr' = tr)
    \<or> (\<exists>rq. prepare V source ls = Returned (Inr rq)
          \<and> tr' = snd (exec (req_code rq) (req_state rq) tr))"
  using assms by (cases rule: eval_cases) auto

theorem eval_reaches_device_once_witness:
  "(\<exists>e. prepare demo_vm ''x'' demo_session = Returned (Inl e)
      \<and> Inr (Some ReplNull) = (Inl e :: unit client_error + _) \<and> demo_after = demo_session \<and> Suc 7 = (7 :: nat))
    \<or> (\<exists>rq. prepare demo_vm ''x'' demo_session = Returned (Inr rq)
          \<and> Suc 7 = snd (demo_device 0 (req_code rq) (req_state rq) 7))"
  using eval_reaches_device_once [OF demo_eval [of 0 7]] by simp

text \<open>C26. What \<open>eval\<close> sends: the encoding of the compiled program with its local count set, and
  the encoding of one value per slot, where every saved local is in the slot the compiler gave
  its name and every other slot is null.\<close>

theorem request_carries_session:
  assumes "prepare V source ls = Returned (Inr rq)"
  shows "\<exists>compiled li. compile_snippet V source ls = Inr compiled
    \<and> req_program rq = with_local_count V (program compiled) (compiled_locals compiled)
    \<and> debug (req_program rq) = Some li
    \<and> encode_program V (req_program rq) = Inr (req_code rq)
    \<and> encode_repl_state (seed_of li ls (local_count (req_program rq))) = Inr (req_state rq)"
  using assms by (rule prepare_Inr) blast

theorem request_carries_session_witness:
  "\<exists>compiled li. compile_snippet demo_vm ''x'' demo_session = Inr compiled
    \<and> demo_program 1 = with_local_count demo_vm (program compiled) (compiled_locals compiled)
    \<and> debug (demo_program 1) = Some li \<and> encode_program demo_vm (demo_program 1) = Inr [1]
    \<and> encode_repl_state (seed_of li demo_session 1) = Inr (state_bytes [ReplBool True])"
  using request_carries_session [OF demo_prepare] by (simp add: demo_request_def)



text \<open>C24. A failed \<open>eval\<close> leaves the session as it was, with one exception: the device reported a
  nonzero status together with a response for this program, and then the session holds that
  response, with no local marked as moved by rebinding.\<close>

theorem failed_eval_keeps_session:
  fixes e :: "'e client_error"
  assumes "eval T V exec source ls tr = Returned (Inl e, ls', tr')"
  shows "ls' = ls \<or> (\<exists>rq status payload response. e = Device status \<and> status \<noteq> 0
    \<and> prepare V source ls = Returned (Inr rq)
    \<and> exec (req_code rq) (req_state rq) tr = (Inr (status, payload), tr')
    \<and> decode_repl_response T payload = Inr response
    \<and> holds_response (req_program rq) (req_bindings rq) {} (locals response) ls')"
  using assms
proof (cases rule: eval_cases)
  case (answered rq status payload)
  from answered(3) show ?thesis
  proof (cases rule: absorb_cases)
    case (synced response)
    then have "status \<noteq> 0" "e = Device status" by (auto split: if_splits)
    with synced answered show ?thesis by auto
  qed simp
qed auto

theorem failed_eval_keeps_session_witness:
  "demo_after = demo_session \<or> (\<exists>rq status payload response.
    (Device 5 :: unit client_error) = Device status \<and> status \<noteq> 0
    \<and> prepare demo_vm ''x'' demo_session = Returned (Inr rq)
    \<and> demo_device 5 (req_code rq) (req_state rq) 7 = (Inr (status, payload), Suc 7)
    \<and> decode_repl_response host_target payload = Inr response
    \<and> holds_response (req_program rq) (req_bindings rq) {} (locals response) demo_after)"
  using failed_eval_keeps_session [of host_target demo_vm "demo_device 5" "''x''" demo_session 7
      "Device 5" demo_after "Suc 7"] demo_eval [of 5 7] by simp

text \<open>What the session relies on of the compiler: names get slots of the program.\<close>

definition slots_in_range :: "('c, 's, 'e) repl_vm \<Rightarrow> string \<Rightarrow> 's session \<Rightarrow> bool" where
  "slots_in_range V source ls \<longleftrightarrow> (\<forall>compiled li name slot.
     compile_snippet V source ls = Inr compiled \<longrightarrow>
     debug (with_local_count V (program compiled) (compiled_locals compiled)) = Some li \<longrightarrow>
     li name = Some slot \<longrightarrow>
     unat slot < local_count (with_local_count V (program compiled) (compiled_locals compiled)))"

lemma absorb_Panicked:
  fixes V :: "('c, 's, 'e) repl_vm"
  assumes "absorb T rq ls status payload = (Panicked :: (('e client_error + _) \<times> _) outcome)"
  obtains li name where "debug (req_program rq) = Some li" "li name \<noteq> None"
    "local_count (req_program rq) \<le> slot_no li name"
proof -
  obtain response mv where r: "length (locals response) = local_count (req_program rq)"
    "sync (req_program rq) (req_bindings rq) mv response = (Panicked :: ('e client_error + _) outcome)"
    using assms by (auto simp: absorb_def split: if_splits sum.splits outcome.splits)
  then obtain li where li: "debug (req_program rq) = Some li"
    by (auto simp: sync_def split: option.splits)
  from sync_loop_Panicked [OF r(2) [unfolded sync_def li option.case]] r(1) li show ?thesis
    by (auto intro: that)
qed

text \<open>C25. The two index expressions of \<open>eval\<close> and \<open>sync\<close> never go out of bounds, whatever the
  device answers, as long as the compiler gives every name a slot below the local count: a
  response with another number of values is refused before it is indexed.\<close>

theorem eval_never_panics:
  fixes V :: "('c, 's, 'e) repl_vm"
  assumes "slots_in_range V source ls"
  shows "eval T V exec source ls tr \<noteq> Panicked"
proof
  assume p: "eval T V exec source ls tr = Panicked"
  show False
  proof (cases "prepare V source ls")
    case Panicked
    then show False
      by (rule prepare_Panicked) (use assms in \<open>auto simp: slots_in_range_def slot_no_def not_le [symmetric]\<close>)
  next
    case (Returned q)
    with p obtain rq where rq: "prepare V source ls = Returned (Inr rq)"
      by (cases q) (auto simp: eval_def)
    with p obtain status payload where "absorb T rq ls status payload
        = (Panicked :: (('e client_error + _) \<times> _) outcome)"
      by (auto simp: eval_def split: prod.splits sum.splits outcome.splits)
    then obtain li name where "debug (req_program rq) = Some li" "li name \<noteq> None"
      "local_count (req_program rq) \<le> slot_no li name"
      by (rule absorb_Panicked)
    moreover obtain compiled where "compile_snippet V source ls = Inr compiled"
      "req_program rq = with_local_count V (program compiled) (compiled_locals compiled)"
      using rq by (rule prepare_Inr)
    ultimately show False
      using assms by (auto simp: slots_in_range_def slot_no_def not_le [symmetric])
  qed
qed

lemma demo_slots: "slots_in_range demo_vm ''x'' ls"
  by (auto simp: slots_in_range_def demo_compile split: if_splits)

theorem eval_never_panics_witness:
  "eval host_target demo_vm (demo_device 0) ''x'' demo_session 7 \<noteq> Panicked"
  by (rule eval_never_panics [OF demo_slots])

text \<open>The invariant of a session: sorted by name, every local with a schema and a value of the
  wire format.\<close>

definition local_ok :: "'s session_local \<Rightarrow> bool" where
  "local_ok l \<longleftrightarrow> nests 0 (val_of l) \<and> strs_ok (val_of l) \<and> schema l \<noteq> None"

definition session_ok :: "'s session \<Rightarrow> bool" where
  "session_ok ls \<longleftrightarrow> bt_sorted ls \<and> list_all (local_ok \<circ> snd) ls"

lemma session_ok_empty: "session_ok session_new" "session_ok (session_clear ls)"
  by (simp_all add: session_ok_def session_new_def session_clear_def bt_sorted_def)

lemma local_schema_Some: "\<exists>sch. fst (local_schema P slot v) = Some sch"
  by (simp add: local_schema_def schema_from_value_def or_else_def split: option.split)

lemma holds_response_ok:
  assumes "holds_response P bs mv vs ls" and vs: "\<forall>v\<in>set vs. nests 0 v \<and> strs_ok v"
  shows "session_ok ls"
proof -
  obtain li where li: "debug P = Some li" "bt_sorted ls"
    "map_of ls = (\<lambda>name. map_option (synced P li mv vs) (last_binding bs name))"
    "\<forall>b\<in>set bs. slot_no li (bind_name b) < length vs"
    using assms(1) by (auto simp: holds_response_def)
  have "local_ok l" if "(name, l) \<in> set ls" for name l
  proof -
    have "map_of ls name = Some l"
      using that bt.entries_mem [OF li(2)] by blast
    then obtain b where b: "last_binding bs name = Some b" "l = synced P li mv vs b"
      unfolding li(3) by auto
    from b(1) have "b \<in> set bs"
      unfolding last_binding_def by (auto dest!: map_of_SomeD)
    with li(4) have "slot_no li (bind_name b) < length vs" by blast
    then have "vs ! slot_no li (bind_name b) \<in> set vs" by simp
    then show ?thesis
      using vs local_schema_Some [of P "slot_no li (bind_name b)" "vs ! slot_no li (bind_name b)"]
      by (auto simp: b(2) local_ok_def synced_def sync_local_def Let_def split: prod.split)
  qed
  then show ?thesis using li(2) by (auto simp: session_ok_def list_all_iff)
qed

lemma demo_session_ok: "session_ok demo_session"
  by (simp add: session_ok_def local_ok_def bt_sorted_def MAX_NESTING_def demo_session_def)

text \<open>C11. Every session a client can reach is well formed: the new session and a cleared one are, and
  \<open>eval\<close> keeps it so, whether it succeeds or fails and whatever the device answers. Saved
  values come from decoded responses only, so they are always within the limits of the wire
  format, and every local has a schema.\<close>

theorem session_invariant:
  fixes r :: "'e client_error + repl_value option"
  assumes "session_ok ls" and "eval T V exec source ls tr = Returned (r, ls', tr')"
  shows "session_ok ls' \<and> session_ok (session_clear ls') \<and> session_ok (session_new :: 's session)"
proof -
  have "session_ok ls'"
    using assms(2)
  proof (cases rule: eval_cases)
    case (answered rq status payload)
    from answered(3) show ?thesis
    proof (cases rule: absorb_cases)
      case (synced response)
      from decode_repl_response_sound [OF synced(1)]
      have "\<forall>v\<in>set (locals response). nests 0 v \<and> strs_ok v"
        by (simp add: response_values_def)
      then show ?thesis using synced(3) by (rule holds_response_ok [rotated])
    qed (use assms(1) in simp)
  qed (use assms(1) in simp_all)
  then show ?thesis by (simp add: session_ok_empty)
qed

theorem session_invariant_witness:
  "session_ok demo_after \<and> session_ok (session_clear demo_after) \<and> session_ok (session_new :: unit session)"
  using session_invariant [of demo_session host_target demo_vm "demo_device 0" "''x''" 7
      "Inr (Some ReplNull)" demo_after "Suc 7"] demo_eval [of 0 7] demo_session_ok by simp

text \<open>The values a session sends.\<close>

lemma seed_of_ok:
  assumes "session_ok ls" and "v \<in> set (seed_of li ls n)"
  shows "nests 0 v \<and> strs_ok v"
proof -
  from assms(2) have "v = ReplNull \<or> (\<exists>i. seed_value li ls i = Some v)"
    by (auto simp: seed_of_def split: option.splits)
  then show ?thesis
  proof
    assume "\<exists>i. seed_value li ls i = Some v"
    then obtain name l where "(name, l) \<in> set ls" "v = val_of l"
      unfolding seed_value_def by (auto dest!: map_of_SomeD)
    with assms(1) show ?thesis by (auto simp: session_ok_def list_all_iff local_ok_def)
  qed (simp add: MAX_NESTING_def)
qed

text \<open>The values of a well-formed session can always be sent, up to size: encoding the seed of the
  next request succeeds exactly when it fits in 128 KiB. Nothing a device returned can make a
  later request fail for its nesting.\<close>

theorem session_state_encodes:
  assumes "session_ok ls"
  shows "encode_repl_state (seed_of li ls n) = Inr bs \<longleftrightarrow>
    bs = state_bytes (seed_of li ls n) \<and> length (state_bytes (seed_of li ls n)) \<le> MAX_WIRE_BYTES"
proof -
  let ?seed = "seed_of li ls n"
  have "length ?seed < 2 ^ 32 \<and> (\<forall>v\<in>set ?seed. nests 0 v \<and> lens_ok v)"
    if small: "length (state_bytes ?seed) \<le> MAX_WIRE_BYTES"
  proof -
    have "length (state_bytes ?seed) < 2 ^ 32" using small by (simp add: MAX_WIRE_BYTES_def)
    moreover have "length ?seed \<le> length (state_bytes ?seed)"
      using length_concat_ser [of ?seed] by (simp add: state_bytes_def)
    ultimately show ?thesis
      using seed_of_ok [OF assms] lens_ok_state [of ?seed] by auto
  qed
  then show ?thesis by (auto simp: encode_repl_state_iff)
qed

theorem session_state_encodes_witness:
  "encode_repl_state (seed_of (\<lambda>_. Some 0) demo_session 1) = Inr (state_bytes [ReplBool True]) \<longleftrightarrow>
    state_bytes [ReplBool True] = state_bytes (seed_of (\<lambda>_. Some 0) demo_session 1)
    \<and> length (state_bytes (seed_of (\<lambda>_. Some 0) demo_session 1)) \<le> MAX_WIRE_BYTES"
  by (rule session_state_encodes [OF demo_session_ok])

text \<open>A snippet compiles when it does so as typed, without trailing blanks, or, when it does not end
  in a semicolon, with one added. When neither works, the error reported is that of one of the
  attempts that were made.\<close>

theorem compile_snippet_fallback:
  "case compile_snippet V source ls of
     Inr compiled \<Rightarrow> compile_for_repl V (trim_end source) (compile_states ls) = Inr compiled
       \<or> \<not> ends_with (trim_end source) '';''
         \<and> compile_for_repl V (trim_end source @ '';'') (compile_states ls) = Inr compiled
   | Inl e \<Rightarrow> (\<exists>e1. compile_for_repl V (trim_end source) (compile_states ls) = Inl e1
       \<and> (if ends_with (trim_end source) '';'' then e = e1
          else \<exists>e2. compile_for_repl V (trim_end source @ '';'') (compile_states ls) = Inl e2
            \<and> e \<in> {e1, e2}))"
  by (auto simp: compile_snippet_def Let_def split: sum.split source_error.split option.split)

section \<open>Schemas are types of their values\<close>

fun has_schema :: "'s type_schema \<Rightarrow> repl_value \<Rightarrow> bool" where
  "has_schema S_Unknown v = True"
| "has_schema S_Null v = (v = ReplNull)"
| "has_schema S_Int v = (case v of ReplInt _ \<Rightarrow> True | _ \<Rightarrow> False)"
| "has_schema S_Float v = (case v of ReplFloat _ \<Rightarrow> True | _ \<Rightarrow> False)"
| "has_schema S_Bool v = (case v of ReplBool _ \<Rightarrow> True | _ \<Rightarrow> False)"
| "has_schema S_String v = (case v of ReplString _ \<Rightarrow> True | _ \<Rightarrow> False)"
| "has_schema S_Bytes v = (case v of ReplBytes _ \<Rightarrow> True | _ \<Rightarrow> False)"
| "has_schema (S_Array s) v = (case v of ReplArray vs \<Rightarrow> list_all (has_schema s) vs | _ \<Rightarrow> False)"
| "has_schema (S_Map s) v = (case v of ReplMap es \<Rightarrow> list_all (\<lambda>(k, x). has_schema s x) es | _ \<Rightarrow> False)"
| "has_schema (S_Callable _ _) v = False"
| "has_schema (S_Other _) v = False"

lemma has_fallback_schema: "\<exists>s. schema_from_value v = Some s \<and> has_schema s v"
  by (cases v) (simp_all add: schema_from_value_def list_all_iff case_prod_beta)

text \<open>What the tag \<open>ValueType\<close> of the compiler says of a value of the machine, as it comes back over the wire.\<close>

fun has_type :: "value_type \<Rightarrow> repl_value \<Rightarrow> bool" where
  "has_type T_Unknown v = True"
| "has_type T_Null v = (v = ReplNull)"
| "has_type T_Int v = (case v of ReplInt _ \<Rightarrow> True | _ \<Rightarrow> False)"
| "has_type T_Float v = (case v of ReplFloat _ \<Rightarrow> True | _ \<Rightarrow> False)"
| "has_type T_Bool v = (case v of ReplBool _ \<Rightarrow> True | _ \<Rightarrow> False)"
| "has_type T_String v = (case v of ReplString _ \<Rightarrow> True | _ \<Rightarrow> False)"
| "has_type T_Bytes v = (case v of ReplBytes _ \<Rightarrow> True | _ \<Rightarrow> False)"
| "has_type T_Array v = (case v of ReplArray _ \<Rightarrow> True | _ \<Rightarrow> False)"
| "has_type T_Map v = (case v of ReplMap _ \<Rightarrow> True | _ \<Rightarrow> False)"
| "has_type T_Callable v = False"

text \<open>The compiler is right about a slot: its schema and its type, where there are any, are those of the value
  that the slot ends with. A slot may also end with null, when it is optional, and when it held a string or
  bytes that were moved out of it.\<close>

definition slot_typed :: "('c, 's) vm_program \<Rightarrow> nat \<Rightarrow> repl_value \<Rightarrow> bool" where
  "slot_typed P slot v = (case prog_types P of
       None \<Rightarrow> True
     | Some tm \<Rightarrow>
         (case get_at slot (local_schemas tm) of
            Some (Some s) \<Rightarrow> has_schema s v
              \<or> v = ReplNull \<and> (get_at slot (optional_slots tm) = Some True \<or> s \<in> {S_String, S_Bytes})
          | _ \<Rightarrow> True) \<and>
         (case get_at slot (local_types tm) of
            Some t \<Rightarrow> has_type t v
              \<or> v = ReplNull \<and> (get_at slot (optional_slots tm) = Some True \<or> t \<in> {T_String, T_Bytes})
          | None \<Rightarrow> True))"

lemma schema_of_type:
  "has_type t v \<Longrightarrow> schema_from_value_type t = Some s \<Longrightarrow> has_schema s v"
  "schema_from_value_type t = Some s \<Longrightarrow> s \<in> {S_String, S_Bytes} \<longleftrightarrow> t \<in> {T_String, T_Bytes}"
  by (cases t; cases v; auto simp: schema_from_value_type_def list_all_iff)+

text \<open>The schema of a slot is a right one.\<close>

lemma local_schema_typed:
  fixes P :: "('c, 's) vm_program"
  assumes "slot_typed P slot v"
  obtains s where "fst (local_schema P slot v) = Some s"
    "has_schema s v \<or> v = ReplNull \<and> (snd (local_schema P slot v) \<or> s \<in> {S_String, S_Bytes})"
proof (cases "prog_types P")
  case None
  then show thesis using has_fallback_schema [of v] that by (auto simp: local_schema_def)
next
  case (Some tm)
  let ?known = "Option.bind (get_at slot (local_schemas tm)) (\<lambda>s. s)"
  let ?typed = "Option.bind (get_at slot (local_types tm)) schema_from_value_type :: 's type_schema option"
  show thesis
  proof (cases ?known)
    case (Some s)
    then show thesis using assms that \<open>prog_types P = Some tm\<close>
      by (auto simp: local_schema_def or_else_def slot_typed_def bind_eq_Some_conv split: option.splits)
  next
    case None
    show thesis
    proof (cases ?typed)
      case (Some s)
      then obtain t where "get_at slot (local_types tm) = Some t" "schema_from_value_type t = Some s"
        by (auto simp: bind_eq_Some_conv)
      then show thesis using assms that [of s] \<open>prog_types P = Some tm\<close> \<open>?known = None\<close> schema_of_type [of t]
        by (auto simp: local_schema_def or_else_def slot_typed_def split: option.splits)
    next
      case None
      then show thesis using has_fallback_schema [of v] that \<open>prog_types P = Some tm\<close> \<open>?known = None\<close>
        by (auto simp: local_schema_def or_else_def)
    qed
  qed
qed

text \<open>C31. Where the compiler is right about a slot, the local that is made of it gets a schema that its value
  has, be it from the schemas, the types or the value. The one exception is null, in a local that is marked
  as optional or as moved.\<close>

theorem synced_schema_types_value:
  assumes "slot_typed P slot v"
  shows "\<exists>s. schema (sync_local P mv v slot b) = Some s \<and>
    (v = ReplNull \<and> (optional (sync_local P mv v slot b) \<or> moved (sync_local P mv v slot b)) \<or> has_schema s v)"
  using assms
proof (rule local_schema_typed)
  fix s
  assume "fst (local_schema P slot v) = Some s"
    "has_schema s v \<or> v = ReplNull \<and> (snd (local_schema P slot v) \<or> s \<in> {S_String, S_Bytes})"
  then show ?thesis by (auto simp: sync_local_def Let_def case_prod_beta)
qed

text \<open>A program whose slot 0 is an integer, by its type, and whose slot 1 is a string, by its type too: the
  integer gets the schema of integers, and the null that is left of the string is marked as moved.\<close>

definition typed_program :: "(unit, unit) vm_program" where
  "typed_program = (demo_program 2)\<lparr>prog_types := Some \<lparr>local_schemas = [None],
     local_types = [T_Int, T_String], optional_slots = [False, False]\<rparr>\<rparr>"

theorem synced_schema_types_value_witness:
  "(\<exists>s. schema (sync_local typed_program {} (ReplInt 7) 0 demo_binding) = Some s \<and> has_schema s (ReplInt 7)) \<and>
   schema (sync_local typed_program {} (ReplInt 7) 0 demo_binding) = Some S_Int \<and>
   (\<exists>s. schema (sync_local typed_program {} ReplNull 1 demo_binding) = Some s \<and>
     (optional (sync_local typed_program {} ReplNull 1 demo_binding)
      \<or> moved (sync_local typed_program {} ReplNull 1 demo_binding) \<or> has_schema s ReplNull))"
  using synced_schema_types_value [of typed_program 0 "ReplInt 7" "{}" demo_binding]
    synced_schema_types_value [of typed_program 1 ReplNull "{}" demo_binding]
  by (simp add: slot_typed_def typed_program_def get_at_def sync_local_def local_schema_def or_else_def
      schema_from_value_type_def)

end
