(* ===== verification/Input.thy ===== *)
theory Input
  imports Rust_Str
begin

text \<open>
  Multiline input: \<open>is_repl_input_complete\<close> of \<open>src/repl_client.rs\<close>, which decides whether
  the prompt asks for another line. One pass over the characters tracks strings, comments and
  open delimiters. The reference below separates what the pass interleaves: first strip
  comments and string contents, then match the delimiters of what is left.
\<close>

section \<open>The scanner\<close>

datatype delimiter = Paren | Bracket | Brace

text \<open>The local variables of the loop; the top of the stack is the head of the list.\<close>

record scanner =
  stack :: "delimiter list"
  in_string :: bool
  escaped :: bool
  in_line_comment :: bool
  in_block_comment :: bool
  code :: string

abbreviation newline :: string where "newline \<equiv> [CHR 0x0A]"
abbreviation quote_mark :: string where "quote_mark \<equiv> [CHR 0x22]"
abbreviation backslash :: string where "backslash \<equiv> [CHR 0x5C]"

definition push_code :: "string \<Rightarrow> scanner \<Rightarrow> scanner" where
  "push_code ch s = s\<lparr>code := code s @ ch\<rparr>"

definition push_delimiter :: "delimiter \<Rightarrow> string \<Rightarrow> scanner \<Rightarrow> scanner" where
  "push_delimiter d ch s = push_code ch (s\<lparr>stack := d # stack s\<rparr>)"

text \<open>A closing delimiter that does not match the top of the stack makes the function return
  true at once: \<open>None\<close>.\<close>

definition pop_delimiter :: "delimiter \<Rightarrow> string \<Rightarrow> scanner \<Rightarrow> scanner option" where
  "pop_delimiter d ch s = (case stack s of
       e # rest \<Rightarrow> if e = d then Some (push_code ch (s\<lparr>stack := rest\<rparr>)) else None
     | [] \<Rightarrow> None)"

text \<open>The \<open>match ch\<close> at the end of the loop body.\<close>

definition scan_code_char :: "string \<Rightarrow> scanner \<Rightarrow> scanner option" where
  "scan_code_char ch s =
     (if ch = quote_mark then Some (push_code ch (s\<lparr>in_string := True\<rparr>))
      else if ch = ''('' then Some (push_delimiter Paren ch s)
      else if ch = ''['' then Some (push_delimiter Bracket ch s)
      else if ch = ''{'' then Some (push_delimiter Brace ch s)
      else if ch = '')'' then pop_delimiter Paren ch s
      else if ch = '']'' then pop_delimiter Bracket ch s
      else if ch = ''}'' then pop_delimiter Brace ch s
      else Some (push_code ch s))"

definition peek :: "'a list \<Rightarrow> 'a option" where
  "peek xs = (case xs of [] \<Rightarrow> None | x # _ \<Rightarrow> Some x)"

lemma peek_simps [simp]: "peek [] = None" "peek (x # xs) = Some x"
  by (simp_all add: peek_def)

function scan_input :: "string list \<Rightarrow> scanner \<Rightarrow> scanner option" where
  "scan_input [] s = Some s"
| "scan_input (ch # rest) s =
     (if in_line_comment s then
        scan_input rest
          (if ch = newline then push_code newline (s\<lparr>in_line_comment := False\<rparr>) else s)
      else if in_block_comment s then
        (if ch = ''*'' \<and> peek rest = Some ''/'' then
           scan_input (tl rest) (s\<lparr>in_block_comment := False\<rparr>)
         else scan_input rest s)
      else if in_string s then
        scan_input rest
          (if escaped s then s\<lparr>escaped := False\<rparr>
           else if ch = backslash then s\<lparr>escaped := True\<rparr>
           else if ch = quote_mark then push_code quote_mark (s\<lparr>in_string := False\<rparr>)
           else s)
      else if ch = ''/'' \<and> peek rest = Some ''/'' then
        scan_input (tl rest) (s\<lparr>in_line_comment := True\<rparr>)
      else if ch = ''/'' \<and> peek rest = Some ''*'' then
        scan_input (tl rest) (s\<lparr>in_block_comment := True\<rparr>)
      else (case scan_code_char ch s of None \<Rightarrow> None | Some s' \<Rightarrow> scan_input rest s'))"
  by pat_completeness auto
termination
  by (relation "measure (\<lambda>(cs, s). length cs)") auto

definition scanner_new :: scanner where
  "scanner_new = \<lparr>stack = [], in_string = False, escaped = False, in_line_comment = False,
     in_block_comment = False, code = ''''\<rparr>"

definition INCOMPLETE :: "string list" where
  "INCOMPLETE = [''=>'', ''::'', ''&&'', ''||'', ''<='', ''>='', ''=='', ''!='', ''='', '','',
     ''.'', ''+'', ''-'', ''*'', ''/'', ''%'', ''!'', '':'']"

definition is_repl_input_complete :: "string \<Rightarrow> bool" where
  "is_repl_input_complete input =
     (case scan_input (chars input) scanner_new of
        None \<Rightarrow> True
      | Some s \<Rightarrow>
          if in_string s \<or> in_block_comment s \<or> stack s \<noteq> [] then False
          else (let trimmed = trim_end (code s) in
                trimmed = '''' \<or> \<not> list_ex (\<lambda>token. ends_with trimmed token) INCOMPLETE))"

section \<open>The two-pass reference\<close>

text \<open>First pass: the lexical mode after each character, and the characters that are code.
  A quote that opens or closes a string is code, what is between them is not.\<close>

datatype mode = Code | In_String | In_Escape | In_Line_Comment | In_Block_Comment

fun strip :: "mode \<Rightarrow> string list \<Rightarrow> mode \<times> string list" where
  "strip m [] = (m, [])"
| "strip In_Line_Comment (c # cs) =
     (if c = newline then map_prod id ((#) newline) (strip Code cs) else strip In_Line_Comment cs)"
| "strip In_Block_Comment (c # cs) =
     (case cs of
        d # ds \<Rightarrow> if c = ''*'' \<and> d = ''/'' then strip Code ds else strip In_Block_Comment cs
      | [] \<Rightarrow> (In_Block_Comment, []))"
| "strip In_Escape (c # cs) = strip In_String cs"
| "strip In_String (c # cs) =
     (if c = backslash then strip In_Escape cs
      else if c = quote_mark then map_prod id ((#) quote_mark) (strip Code cs)
      else strip In_String cs)"
| "strip Code (c # cs) =
     (if c = quote_mark then map_prod id ((#) c) (strip In_String cs)
      else case cs of
        d # ds \<Rightarrow> if c = ''/'' \<and> d = ''/'' then strip In_Line_Comment ds
          else if c = ''/'' \<and> d = ''*'' then strip In_Block_Comment ds
          else map_prod id ((#) c) (strip Code cs)
      | [] \<Rightarrow> (Code, [c]))"

text \<open>Second pass: the delimiters still open after the code, \<open>None\<close> if one closes another.\<close>

definition opens :: "string \<Rightarrow> delimiter option" where
  "opens c = (if c = ''('' then Some Paren else if c = ''['' then Some Bracket
     else if c = ''{'' then Some Brace else None)"

definition shuts :: "string \<Rightarrow> delimiter option" where
  "shuts c = (if c = '')'' then Some Paren else if c = '']'' then Some Bracket
     else if c = ''}'' then Some Brace else None)"

fun still_open :: "delimiter list \<Rightarrow> string list \<Rightarrow> delimiter list option" where
  "still_open st [] = Some st"
| "still_open st (c # cs) =
     (case opens c of
        Some d \<Rightarrow> still_open (d # st) cs
      | None \<Rightarrow>
          (case shuts c of
             None \<Rightarrow> still_open st cs
           | Some d \<Rightarrow> (case st of e # es \<Rightarrow> if e = d then still_open es cs else None | [] \<Rightarrow> None)))"

definition dangling :: "string \<Rightarrow> bool" where
  "dangling text \<longleftrightarrow> trim_end text \<noteq> '''' \<and> (\<exists>token\<in>set INCOMPLETE. ends_with (trim_end text) token)"

text \<open>The flags of a scanner that stand for a mode.\<close>

definition in_mode :: "mode \<Rightarrow> scanner \<Rightarrow> bool" where
  "in_mode m s \<longleftrightarrow> in_line_comment s = (m = In_Line_Comment)
     \<and> in_block_comment s = (m = In_Block_Comment)
     \<and> in_string s = (m \<in> {In_String, In_Escape}) \<and> escaped s = (m = In_Escape)"

lemma in_mode_new: "in_mode Code scanner_new"
  by (simp add: in_mode_def scanner_new_def)

lemma delim_distinct [simp]:
  "opens quote_mark = None" "shuts quote_mark = None" "opens newline = None" "shuts newline = None"
  "opens ''/'' = None" "shuts ''/'' = None"
  by (simp_all add: opens_def shuts_def)

lemma scan_code_char_eq:
  "scan_code_char ch s =
     (if ch = quote_mark then Some (push_code ch (s\<lparr>in_string := True\<rparr>))
      else case opens ch of
        Some d \<Rightarrow> Some (push_delimiter d ch s)
      | None \<Rightarrow> (case shuts ch of None \<Rightarrow> Some (push_code ch s) | Some d \<Rightarrow> pop_delimiter d ch s))"
  by (simp add: scan_code_char_def opens_def shuts_def)

definition agrees :: "mode \<Rightarrow> string list \<Rightarrow> scanner \<Rightarrow> bool" where
  "agrees m cs s \<longleftrightarrow> (case still_open (stack s) (snd (strip m cs)) of
       None \<Rightarrow> scan_input cs s = None
     | Some st \<Rightarrow> \<exists>s'. scan_input cs s = Some s' \<and> in_mode (fst (strip m cs)) s'
         \<and> stack s' = st \<and> code s' = code s @ concat (snd (strip m cs)))"

lemma agrees_step:
  "agrees m' cs' s' \<Longrightarrow> scan_input cs s = scan_input cs' s' \<Longrightarrow> strip m cs = strip m' cs' \<Longrightarrow>
   stack s = stack s' \<Longrightarrow> code s = code s' \<Longrightarrow> agrees m cs s"
  unfolding agrees_def by (simp split: option.splits)

lemma agrees_push:
  "agrees m' cs s' \<Longrightarrow> scan_input (c # cs) s = scan_input cs s' \<Longrightarrow>
   strip m (c # cs) = map_prod id ((#) c) (strip m' cs) \<Longrightarrow> opens c = None \<Longrightarrow> shuts c = None \<Longrightarrow>
   stack s' = stack s \<Longrightarrow> code s' = code s @ c \<Longrightarrow> agrees m (c # cs) s"
  by (cases "strip m' cs") (simp add: agrees_def split: option.splits)

text \<open>A character of code, delimiter or not.\<close>

lemma agrees_code:
  assumes scan: "scan_input (c # cs) s
      = (case scan_code_char c s of None \<Rightarrow> None | Some s' \<Rightarrow> scan_input cs s')"
    and strip: "strip Code (c # cs) = map_prod id ((#) c) (strip m cs)"
    and m: "m = (if c = quote_mark then In_String else Code)"
    and code: "in_mode Code s"
    and IH: "\<And>s. in_mode m s \<Longrightarrow> agrees m cs s"
  shows "agrees Code (c # cs) s"
proof -
  obtain m' ts where ts: "strip m cs = (m', ts)" by (cases "strip m cs")
  have push: "agrees Code (c # cs) s"
    if r: "scan_code_char c s = Some (push_code c s1)" and st: "still_open (stack s) (c # ts) = still_open (stack s1) ts"
      and "in_mode m s1" "code s1 = code s" for s1
  proof -
    have "in_mode m (push_code c s1)" using that(3) by (simp add: in_mode_def push_code_def)
    from IH [OF this] show ?thesis
      using that(4) st unfolding agrees_def scan r strip ts
      by (simp add: push_code_def split: option.splits)
  qed
  show ?thesis
  proof (cases "c = quote_mark")
    case True
    with code m show ?thesis
      by (intro push [of "s\<lparr>in_string := True\<rparr>"]) (auto simp: scan_code_char_eq in_mode_def)
  next
    case nq: False
    show ?thesis
    proof (cases "opens c")
      case (Some d)
      with nq code m show ?thesis
        by (intro push [of "s\<lparr>stack := d # stack s\<rparr>"])
          (auto simp: scan_code_char_eq push_delimiter_def in_mode_def)
    next
      case no: None
      show ?thesis
      proof (cases "shuts c")
        case None
        with nq no code m show ?thesis
          by (intro push [of s]) (auto simp: scan_code_char_eq in_mode_def)
      next
        case (Some d)
        show ?thesis
        proof (cases "\<exists>es. stack s = d # es")
          case True
          then obtain es where "stack s = d # es" by blast
          with nq no Some code m show ?thesis
            by (intro push [of "s\<lparr>stack := es\<rparr>"])
              (auto simp: scan_code_char_eq pop_delimiter_def in_mode_def)
        next
          case False
          then have "still_open (stack s) (c # ts) = None" "scan_code_char c s = None"
            using nq no Some by (auto simp: scan_code_char_eq pop_delimiter_def split: list.splits)
          then show ?thesis unfolding agrees_def scan strip ts by simp
        qed
      qed
    qed
  qed
qed

lemma scan_strip: "in_mode m s \<Longrightarrow> agrees m cs s"
proof (induction m cs arbitrary: s rule: strip.induct)
  case (1 m)
  then show ?case by (simp add: agrees_def)
next
  case (2 c cs)
  let ?s = "push_code newline (s\<lparr>in_line_comment := False\<rparr>)"
  have m: "in_line_comment s" "in_mode Code ?s" if "c = newline"
    using 2(3) that by (auto simp: in_mode_def push_code_def)
  show ?case
  proof (cases "c = newline")
    case True
    show ?thesis
      by (rule agrees_push [OF 2(1) [OF True m(2) [OF True]]]) (use True m(1) in \<open>simp_all add: push_code_def\<close>)
  next
    case False
    show ?thesis
      by (rule agrees_step [OF 2(2) [OF False 2(3)]]) (use False 2(3) in \<open>simp_all add: in_mode_def\<close>)
  qed
next
  case (3 c cs)
  note m = 3(3) [unfolded in_mode_def]
  show ?case
  proof (cases cs)
    case Nil
    with m show ?thesis by (simp add: agrees_def in_mode_def)
  next
    case (Cons d ds)
    let ?s = "s\<lparr>in_block_comment := False\<rparr>"
    show ?thesis
    proof (cases "c = ''*'' \<and> d = ''/''")
      case True
      then have "agrees Code ds ?s"
        using m by (intro 3(1) [OF Cons]) (auto simp: in_mode_def)
      then show ?thesis by (rule agrees_step) (use True m Cons in auto)
    next
      case False
      then have "agrees In_Block_Comment cs s"
        by (intro 3(2) [OF Cons] 3(3))
      then show ?thesis by (rule agrees_step) (use False m Cons in auto)
    qed
  qed
next
  case (4 c cs)
  let ?s = "s\<lparr>escaped := False\<rparr>"
  have "agrees In_String cs ?s" using 4(2) by (intro 4(1)) (auto simp: in_mode_def)
  then show ?case by (rule agrees_step) (use 4(2) in \<open>auto simp: in_mode_def\<close>)
next
  case (5 c cs)
  note m = 5(4) [unfolded in_mode_def]
  show ?case
  proof (cases "c = backslash")
    case True
    let ?s = "s\<lparr>escaped := True\<rparr>"
    have "agrees In_Escape cs ?s" using m by (intro 5(1) True) (auto simp: in_mode_def)
    then show ?thesis by (rule agrees_step) (use True m in auto)
  next
    case nb: False
    show ?thesis
    proof (cases "c = quote_mark")
      case True
      let ?s = "push_code quote_mark (s\<lparr>in_string := False\<rparr>)"
      have "agrees Code cs ?s"
        using m by (intro 5(2) [OF nb True]) (auto simp: in_mode_def push_code_def)
      then show ?thesis
        by (rule agrees_push) (use True nb m in \<open>auto simp: push_code_def\<close>)
    next
      case False
      show ?thesis by (rule agrees_step [OF 5(3) [OF nb False 5(4)]]) (use nb False m in auto)
    qed
  qed
next
  case (6 c cs)
  note m = 6(5) [unfolded in_mode_def]
  consider (line) "\<exists>ds. c = ''/'' \<and> cs = ''/'' # ds" | (block) "\<exists>ds. c = ''/'' \<and> cs = ''*'' # ds"
    | (code) "\<not> (c = ''/'' \<and> (peek cs = Some ''/'' \<or> peek cs = Some ''*''))"
    by (cases cs) auto
  then show ?case
  proof cases
    case line
    then obtain ds where ds: "c = ''/''" "cs = ''/'' # ds" by blast
    let ?s = "s\<lparr>in_line_comment := True\<rparr>"
    have "agrees In_Line_Comment ds ?s"
      using m ds by (intro 6(2) [of "''/''" ds]) (auto simp: in_mode_def)
    then show ?thesis by (rule agrees_step) (use ds m in auto)
  next
    case block
    then obtain ds where ds: "c = ''/''" "cs = ''*'' # ds" by blast
    let ?s = "s\<lparr>in_block_comment := True\<rparr>"
    have "agrees In_Block_Comment ds ?s"
      using m ds by (intro 6(3) [of "''*''" ds]) (auto simp: in_mode_def)
    then show ?thesis by (rule agrees_step) (use ds m in auto)
  next
    case code
    let ?m = "if c = quote_mark then In_String else Code"
    show ?thesis
    proof (rule agrees_code [of _ _ _ ?m])
      show "scan_input (c # cs) s
          = (case scan_code_char c s of None \<Rightarrow> None | Some s' \<Rightarrow> scan_input cs s')"
        using m code by auto
      show "strip Code (c # cs) = map_prod id ((#) c) (strip ?m cs)"
        using code by (cases cs) auto
      show "agrees ?m cs s'" if "in_mode ?m s'" for s'
      proof (cases "c = quote_mark")
        case True
        then show ?thesis using 6(1) that by simp
      next
        case False
        then show ?thesis
          using that code 6(4) by (cases cs) (auto simp: agrees_def)
      qed
    qed (use 6(5) in simp_all)
  qed
qed

section \<open>Balanced code\<close>

inductive nested :: "string list \<Rightarrow> bool" where
  nested_Nil: "nested []"
| nested_plain: "opens c = None \<Longrightarrow> shuts c = None \<Longrightarrow> nested cs \<Longrightarrow> nested (c # cs)"
| nested_group: "opens c = Some d \<Longrightarrow> shuts e = Some d \<Longrightarrow> nested xs \<Longrightarrow> nested ys \<Longrightarrow>
    nested (c # xs @ e # ys)"

lemma shuts_not_opens: "shuts c = Some d \<Longrightarrow> opens c = None"
  by (auto simp: shuts_def opens_def split: if_splits)

lemma still_open_nested: "nested xs \<Longrightarrow> still_open st (xs @ ys) = still_open st ys"
proof (induction xs arbitrary: st ys rule: nested.induct)
  case (nested_group c d e xs zs)
  then show ?case by (simp add: shuts_not_opens)
qed simp_all

lemma still_open_split:
  "still_open (d # st) cs = Some [] \<Longrightarrow>
   \<exists>xs e ys. cs = xs @ e # ys \<and> nested xs \<and> shuts e = Some d \<and> still_open st ys = Some []"
proof (induction cs arbitrary: d st rule: length_induct)
  case (1 cs)
  then obtain c cs' where cs: "cs = c # cs'" by (cases cs) auto
  show ?case
  proof (cases "opens c")
    case (Some f)
    with 1(2) cs have "still_open (f # d # st) cs' = Some []" by simp
    from 1(1) [rule_format, OF _ this] cs obtain xs e ys where s: "cs' = xs @ e # ys"
      "nested xs" "shuts e = Some f" "still_open (d # st) ys = Some []" by auto
    have "length ys < length cs" using cs s(1) by simp
    from 1(1) [rule_format, OF this s(4)] obtain xs2 e2 ys2 where s2: "ys = xs2 @ e2 # ys2"
      "nested xs2" "shuts e2 = Some d" "still_open st ys2 = Some []" by auto
    have "nested (c # xs @ e # xs2)" using Some s s2 by (intro nested_group)
    with cs s(1) s2 show ?thesis
      by (intro exI [of _ "c # xs @ e # xs2"] exI [of _ e2] exI [of _ ys2]) simp
  next
    case no: None
    show ?thesis
    proof (cases "shuts c")
      case None
      with 1 cs no obtain xs e ys where "cs' = xs @ e # ys" "nested xs" "shuts e = Some d"
        "still_open st ys = Some []" by fastforce
      with cs no None show ?thesis
        by (intro exI [of _ "c # xs"] exI [of _ e] exI [of _ ys]) (simp add: nested_plain)
    next
      case (Some f)
      with 1(2) cs no have "f = d" "still_open st cs' = Some []" by (auto split: if_splits)
      with cs Some show ?thesis using nested_Nil by fastforce
    qed
  qed
qed

lemma still_open_iff_nested: "still_open [] cs = Some [] \<longleftrightarrow> nested cs"
proof
  show "still_open [] cs = Some []" if "nested cs"
    using still_open_nested [OF that, of "[]" "[]"] by simp
  show "still_open [] cs = Some [] \<Longrightarrow> nested cs"
  proof (induction cs rule: length_induct)
    case (1 cs)
    show ?case
    proof (cases cs)
      case (Cons c cs')
      show ?thesis
      proof (cases "opens c")
        case (Some d)
        with 1(2) Cons obtain xs e ys where s: "cs' = xs @ e # ys" "nested xs" "shuts e = Some d"
          "still_open [] ys = Some []" using still_open_split by force
        moreover have "nested ys" using 1(1) s Cons by simp
        ultimately show ?thesis using Cons Some by (auto intro: nested_group)
      next
        case None
        with 1 Cons show ?thesis by (auto intro: nested_plain split: option.splits)
      qed
    qed (simp add: nested_Nil)
  qed
qed

section \<open>Properties\<close>

lemma scan_result:
  assumes "strip Code (chars input) = (m, cs)"
  shows "is_repl_input_complete input =
     (still_open [] cs = None
      \<or> nested cs \<and> m \<in> {Code, In_Line_Comment} \<and> \<not> dangling (concat cs))"
proof -
  note s = assms
  have "agrees Code (chars input) scanner_new" by (rule scan_strip [OF in_mode_new])
  moreover have new_empty: "stack scanner_new = []" "code scanner_new = []"
    by (simp_all add: scanner_new_def)
  ultimately have a: "case still_open [] cs of
      None \<Rightarrow> scan_input (chars input) scanner_new = None
    | Some st \<Rightarrow> \<exists>s'. scan_input (chars input) scanner_new = Some s' \<and> in_mode m s'
        \<and> stack s' = st \<and> code s' = concat cs"
    unfolding agrees_def s new_empty fst_conv snd_conv append_Nil by -
  have m: "m \<in> {Code, In_Line_Comment} \<longleftrightarrow> \<not> in_string s' \<and> \<not> in_block_comment s'" if "in_mode m s'" for s'
    using that by (cases m) (auto simp: in_mode_def)
  show ?thesis
  proof (cases "still_open [] cs")
    case None
    with a show ?thesis by (simp add: is_repl_input_complete_def s)
  next
    case (Some st)
    with a obtain s' where s': "scan_input (chars input) scanner_new = Some s'" "in_mode m s'"
      "stack s' = st" "code s' = concat cs" by auto
    have "is_repl_input_complete input \<longleftrightarrow>
        st = [] \<and> m \<in> {Code, In_Line_Comment} \<and> \<not> dangling (concat cs)"
      using m [OF s'(2)]
      by (simp add: is_repl_input_complete_def s' Let_def dangling_def list_ex_iff)
    also have "st = [] \<longleftrightarrow> nested cs"
      using Some by (simp flip: still_open_iff_nested)
    finally show ?thesis using Some by simp
  qed
qed

text \<open>C15. The scanner is the two-pass reference: strip comments and string contents, then look at the
  code that is left. Input is complete when a closing delimiter has no partner (the compiler
  will say so), or when the delimiters nest properly, no string or block comment is open, and
  the last token is not an operator that wants an operand.\<close>

theorem input_complete_iff:
  "is_repl_input_complete input =
     (let (m, cs) = strip Code (chars input) in
      still_open [] cs = None
      \<or> nested cs \<and> m \<in> {Code, In_Line_Comment} \<and> \<not> dangling (concat cs))"
  using scan_result by (cases "strip Code (chars input)") simp

lemma append_Nil_fun [simp]: "(@) [] = (\<lambda>xs. xs)"
  by auto

lemma strip_append:
  "d \<notin> {''/'', ''*''} \<Longrightarrow>
   strip m (cs @ d # ds) = (case strip m cs of (m', xs) \<Rightarrow> map_prod id ((@) xs) (strip m' (d # ds)))"
proof (induction m cs rule: strip.induct)
  case (1 m)
  then show ?case by (cases "strip m (d # ds)") simp
next
  case (2 c cs)
  then show ?case
    by (cases "strip Code cs"; cases "strip In_Line_Comment cs") (auto simp: map_prod_def split: prod.splits)
next
  case (3 c cs)
  then show ?case by (cases cs) auto
next
  case (4 c cs)
  then show ?case by simp
next
  case (5 c cs)
  then show ?case by (cases "strip Code cs") (auto simp: map_prod_def split: prod.splits)
next
  case (6 c cs)
  show ?case
  proof (cases cs)
    case Nil
    then show ?thesis using 6(5) by (auto simp: map_prod_def split: prod.splits)
  next
    case (Cons e es)
    then show ?thesis using 6
      by (cases "strip In_String cs"; cases "strip Code cs") (auto simp: map_prod_def split: prod.splits)
  qed
qed

lemma strip_subset: "set (snd (strip m cs)) \<subseteq> set cs"
proof (induction m cs rule: strip.induct)
  case (3 c cs)
  then show ?case by (subst strip.simps) (auto simp del: strip.simps split: list.split)
next
  case (6 c cs)
  then show ?case by (subst strip.simps) (auto simp del: strip.simps split: list.split)
qed auto

lemma newline_whole: "whole_char newline" and newline_whitespace: "is_whitespace newline"
  by (simp_all add: whole_char_ascii is_whitespace_def bytes_str_def eq_char_of take_bit_eq_mod)

lemma strip_line_comment:
  "newline \<notin> set cs \<Longrightarrow> strip In_Line_Comment cs = (In_Line_Comment, [])"
  by (induction cs) auto

lemma still_open_newline: "still_open st (cs @ [newline]) = still_open st cs"
  by (induction st cs rule: still_open.induct) (auto split: option.splits list.splits)

text \<open>A line comment on a line of its own never changes the answer: input that waits for more still
  waits, and complete input stays complete, whatever the comment says.\<close>

theorem line_comment_neutral:
  assumes "str_ok input" and "newline \<notin> set (chars comment)"
    and "fst (strip Code (chars input)) \<in> {Code, In_Line_Comment}"
  shows "is_repl_input_complete (input @ newline @ ''//'' @ comment) = is_repl_input_complete input"
proof -
  obtain m cs where s: "strip Code (chars input) = (m, cs)" and m: "m \<in> {Code, In_Line_Comment}"
    using assms(3) by (cases "strip Code (chars input)") auto
  have whole: "\<forall>c\<in>set (chars input). whole_char c"
    using assms(1) chars_whole by (simp add: str_ok_def)
  have ch: "chars (input @ newline @ ''//'' @ comment)
      = chars input @ newline # ''/'' # ''/'' # chars comment"
    using chars_concat [OF whole, of "newline @ ''//'' @ comment"]
    by (simp add: utf8_width_def)
  have "strip m (newline # ''/'' # ''/'' # chars comment) = (In_Line_Comment, [newline])"
    using m strip_line_comment [OF assms(2)] by auto
  then have s': "strip Code (chars (input @ newline @ ''//'' @ comment))
      = (In_Line_Comment, cs @ [newline])"
    unfolding ch using s by (simp add: strip_append)
  have "\<forall>c\<in>set cs. whole_char c"
    using whole strip_subset [of Code "chars input"] s by auto
  then have d: "dangling (concat (cs @ [newline])) = dangling (concat cs)"
    by (simp add: dangling_def trim_end_whitespace newline_whole newline_whitespace)
  show ?thesis
    unfolding scan_result [OF s] scan_result [OF s'] d still_open_iff_nested [symmetric] still_open_newline
    using m by simp
qed

theorem line_comment_neutral_witness:
  "is_repl_input_complete (''1 +'' @ newline @ ''//'' @ ''{ open'') = is_repl_input_complete ''1 +''"
  by (rule line_comment_neutral)
    (simp_all add: str_ok_def as_bytes_def chars_ascii del: chars.simps)

end
