(* ===== verification/Render.thy ===== *)
theory Render
  imports Complex_Main Wire
begin

text \<open>
  Printing values: \<open>format_repl_value\<close> and \<open>hex_preview\<close> of \<open>src/repl_client.rs\<close>, with
  what they use of Rust's \<open>Display\<close>: decimal integers, booleans, and the shortest decimal
  of an \<open>f64\<close> that lies in its rounding interval (\<open>core::num::flt2dec\<close>, the \<open>dragon\<close>
  strategy), written without an exponent.
\<close>

section \<open>Floating point numbers\<close>

text \<open>\<open>flt2dec::decode\<close>: a finite number is \<open>mant * 2 ^ ex\<close>, its rounding interval reaches
  from \<open>mant - minus\<close> to \<open>mant + plus\<close>, bounds included when \<open>inclusive\<close>.\<close>

record decoded =
  mant :: nat
  minus :: nat
  plus :: nat
  ex :: int
  inclusive :: bool

definition f64_negative :: "f64 \<Rightarrow> bool" where
  "f64_negative f = bit f 63"

definition f64_exponent :: "f64 \<Rightarrow> nat" where
  "f64_exponent f = unat (drop_bit 52 f AND 0x7ff)"

definition f64_fraction :: "f64 \<Rightarrow> nat" where
  "f64_fraction f = unat (take_bit 52 f)"

definition f64_decode :: "f64 \<Rightarrow> decoded" where
  "f64_decode f =
     (let e = f64_exponent f; m = f64_fraction f in
      if e = 0 then
        \<lparr>mant = 2 * m, minus = 1, plus = 1, ex = - 1075, inclusive = True\<rparr>
      else if m = 0 then
        \<lparr>mant = 4 * 2 ^ 52, minus = 1, plus = 2, ex = int e - 1077, inclusive = True\<rparr>
      else
        \<lparr>mant = 2 * (2 ^ 52 + m), minus = 1, plus = 1, ex = int e - 1076, inclusive = even m\<rparr>)"

definition pow_rat :: "nat \<Rightarrow> int \<Rightarrow> rat" where
  "pow_rat b i = (if 0 \<le> i then of_nat b ^ nat i else 1 / of_nat b ^ nat (- i))"

definition in_interval :: "decoded \<Rightarrow> rat \<Rightarrow> bool" where
  "in_interval d x =
     (let u = pow_rat 2 (ex d); lo = (of_nat (mant d) - of_nat (minus d)) * u;
          hi = (of_nat (mant d) + of_nat (plus d)) * u
      in if inclusive d then lo \<le> x \<and> x \<le> hi else lo < x \<and> x < hi)"

text \<open>The digits with the last one at \<open>10 ^ q\<close>: the truncated value or its successor, when
  one of them is in the interval, the nearer one when both are (a tie goes up).\<close>

definition digits_at :: "decoded \<Rightarrow> int \<Rightarrow> nat option" where
  "digits_at d q =
     (let v = of_nat (mant d) * pow_rat 2 (ex d); s = pow_rat 10 q; t = nat \<lfloor>v / s\<rfloor>;
          down = in_interval d (of_nat t * s); up = in_interval d (of_nat (t + 1) * s)
      in if up \<and> (\<not> down \<or> s \<le> 2 * (v - of_nat t * s)) then Some (t + 1)
         else if down then Some t
         else None)"

text \<open>The shortest digits: the highest last position that works, from \<open>10 ^ 309\<close> down to
  \<open>10 ^ - 1077\<close>, where every number is exact.\<close>

fun shortest_from :: "decoded \<Rightarrow> nat \<Rightarrow> int \<Rightarrow> nat \<times> int" where
  "shortest_from d 0 q = (case digits_at d q of Some n \<Rightarrow> (n, q) | None \<Rightarrow> (0, q))"
| "shortest_from d (Suc k) q =
     (case digits_at d q of Some n \<Rightarrow> (n, q) | None \<Rightarrow> shortest_from d k (q - 1))"

definition shortest :: "decoded \<Rightarrow> nat \<times> int" where
  "shortest d = shortest_from d 1386 309"

text \<open>\<open>digits_to_dec_str\<close>.\<close>

definition dec_string :: "string \<Rightarrow> int \<Rightarrow> string" where
  "dec_string ds e =
     (if e \<le> 0 then ''0.'' @ replicate (nat (- e)) (CHR ''0'') @ ds
      else if nat e < length ds then take (nat e) ds @ ''.'' @ drop (nat e) ds
      else ds @ replicate (nat e - length ds) (CHR ''0''))"

definition show_f64 :: "f64 \<Rightarrow> string" where
  "show_f64 f =
     (let sign = (if f64_negative f then ''-'' else '''') in
      if f64_exponent f = 0x7ff then
        (if f64_fraction f \<noteq> 0 then ''NaN'' else sign @ ''inf'')
      else if f64_exponent f = 0 \<and> f64_fraction f = 0 then sign @ ''0''
      else (let (n, q) = shortest (f64_decode f); ds = show_nat n in
            sign @ dec_string ds (int (length ds) + q)))"

section \<open>Values\<close>

definition hex_preview :: "u8 list \<Rightarrow> string" where
  "hex_preview bs = concat (map hex2 (take 16 bs)) @ (if length bs > 16 then ''..'' else '''')"

fun format_repl_value :: "repl_value \<Rightarrow> string" where
  "format_repl_value ReplNull = ''null''"
| "format_repl_value (ReplInt i) = show_int (sint i)"
| "format_repl_value (ReplFloat f) = show_f64 f"
| "format_repl_value (ReplBool b) = (if b then ''true'' else ''false'')"
| "format_repl_value (ReplString s) = s"
| "format_repl_value (ReplBytes bs) =
     ''bytes[len='' @ show_nat (length bs) @ '' hex='' @ hex_preview bs @ '']''"
| "format_repl_value (ReplArray vs) = ''['' @ join '', '' (map format_repl_value vs) @ '']''"
| "format_repl_value (ReplMap es) =
     ''{'' @ join '', '' (map (\<lambda>(k, v). format_repl_value k @ '': '' @ format_repl_value v) es) @ ''}''"

end
