(* ===== verification/Render_Safety.thy ===== *)
theory Render_Safety
  imports Render
begin

text \<open>
  Printed values can be read back: integers and byte previews exactly. Of floating point numbers, whose text
  is made by Rust's \<open>Display\<close>, the model is checked: the text is a decimal of the rounding interval.
\<close>

section \<open>Integers\<close>

definition digit_value :: "char \<Rightarrow> nat" where
  "digit_value c = (let n = (of_char c :: nat) in if n < 58 then n - 48 else n - 87)"

definition read_nat :: "string \<Rightarrow> nat" where
  "read_nat s = foldl (\<lambda>a c. 10 * a + digit_value c) 0 s"

definition read_int :: "string \<Rightarrow> int" where
  "read_int s = (case s of
       c # cs \<Rightarrow> if c = CHR ''-'' then - int (read_nat cs) else int (read_nat s)
     | [] \<Rightarrow> 0)"

lemma of_char_digit: "n < 16 \<Longrightarrow> (of_char (digit n) :: nat) = (if n < 10 then 48 else 87) + n"
  by (simp add: digit_def)

lemma digit_value_digit [simp]: "n < 16 \<Longrightarrow> digit_value (digit n) = n"
  by (simp add: digit_value_def of_char_digit)

lemma read_nat_snoc [simp]: "read_nat (s @ [c]) = 10 * read_nat s + digit_value c"
  by (simp add: read_nat_def)

lemma read_show_nat [simp]: "read_nat (show_nat n) = n"
proof (induction n rule: show_nat.induct)
  case (1 n)
  show ?case
  proof (cases "n < 10")
    case True
    then show ?thesis by (subst show_nat.simps) (simp add: read_nat_def)
  next
    case False
    then show ?thesis using 1 by (subst show_nat.simps) simp
  qed
qed

definition is_digit :: "char \<Rightarrow> bool" where
  "is_digit c \<longleftrightarrow> 48 \<le> (of_char c :: nat) \<and> (of_char c :: nat) \<le> 57"

lemma is_digit_digit [simp]: "n < 10 \<Longrightarrow> is_digit (digit n)"
  by (simp add: is_digit_def of_char_digit)

lemma not_digit [simp]: "\<not> is_digit (CHR ''-'')" "\<not> is_digit (CHR ''.'')"
  by (simp_all add: is_digit_def)

lemma show_nat_digits: "list_all is_digit (show_nat n)"
proof (induction n rule: show_nat.induct)
  case (1 n)
  then show ?case by (subst show_nat.simps) simp
qed

lemma show_nat_not_Nil [simp]: "show_nat n \<noteq> []"
  by (subst show_nat.simps) simp

lemma read_show_int: "read_int (show_int i) = i"
proof (cases "i < 0")
  case True
  then show ?thesis by (simp add: show_int_def read_int_def)
next
  case False
  obtain c cs where s: "show_nat (nat i) = c # cs" by (cases "show_nat (nat i)") simp_all
  have "c \<noteq> CHR ''-''" using show_nat_digits [of "nat i"] s by auto
  moreover have "read_nat (c # cs) = nat i" using read_show_nat [of "nat i"] s by simp
  ultimately show ?thesis using False s by (simp add: show_int_def read_int_def)
qed

text \<open>The text printed for an integer is its decimal numeral: reading it
  back gives the integer, so different integers print differently.\<close>

theorem integer_text_reads_back: "read_int (format_repl_value (ReplInt i)) = sint i"
  by (simp add: read_show_int)

section \<open>Decimal strings\<close>

text \<open>The number a decimal string without a sign denotes.\<close>

definition dec_value :: "string \<Rightarrow> rat" where
  "dec_value s =
     (let i = takeWhile (\<lambda>c. c \<noteq> CHR ''.'') s; f = drop (length i + 1) s
      in of_nat (read_nat (i @ f)) / 10 ^ length f)"

lemma no_point_takeWhile:
  "list_all is_digit xs \<Longrightarrow> takeWhile (\<lambda>c. c \<noteq> CHR ''.'') xs = xs"
  by (simp add: list_all_iff takeWhile_eq_all_conv) (metis not_digit(2))

lemma dec_value_integer: "list_all is_digit xs \<Longrightarrow> dec_value xs = of_nat (read_nat xs)"
  by (simp add: dec_value_def no_point_takeWhile)

lemma dec_value_point:
  assumes "list_all is_digit xs"
  shows "dec_value (xs @ CHR ''.'' # ys) = of_nat (read_nat (xs @ ys)) / 10 ^ length ys"
proof -
  have "takeWhile (\<lambda>c. c \<noteq> CHR ''.'') (xs @ CHR ''.'' # ys) = xs"
    using assms by (subst takeWhile_append2) (auto simp: list_all_iff)
  then show ?thesis by (simp add: dec_value_def)
qed

lemma digit_value_0 [simp]: "digit_value (CHR ''0'') = 0"
  by (simp add: digit_value_def)

lemma read_nat_append_zeros [simp]: "read_nat (xs @ replicate k (CHR ''0'')) = read_nat xs * 10 ^ k"
  by (induction k) (simp_all add: replicate_append_same [symmetric] flip: append_assoc)

lemma read_nat_zeros_prefix [simp]: "read_nat (replicate k (CHR ''0'') @ xs) = read_nat xs"
  by (induction k) (simp_all add: read_nat_def)

lemma pow_rat_powi: "pow_rat b i = of_nat b powi i"
  by (simp add: pow_rat_def power_int_def inverse_eq_divide power_one_over)

lemma pow_rat_add: "0 < b \<Longrightarrow> pow_rat b (i + j) = pow_rat b i * pow_rat b j"
  by (simp add: pow_rat_powi power_int_add)

lemma pow_rat_pos [simp]: "0 < b \<Longrightarrow> 0 < pow_rat b i"
  by (simp add: pow_rat_powi)

lemma pow_rat_not_nonpos [simp]: "0 < b \<Longrightarrow> \<not> pow_rat b i < 0" "0 < b \<Longrightarrow> \<not> pow_rat b i \<le> 0"
  using pow_rat_pos [of b i] by (simp_all only: not_less not_le less_imp_le)

lemma dec_string_value:
  assumes "list_all is_digit ds" and "ds \<noteq> []"
  shows "dec_value (dec_string ds (int (length ds) + q)) = of_nat (read_nat ds) * pow_rat 10 q"
proof -
  consider (small) "int (length ds) + q \<le> 0" | (inside) "0 < int (length ds) + q" "q < 0" | (whole) "0 \<le> q"
    by linarith
  then show ?thesis
  proof cases
    case small
    define k where "k = nat (- (int (length ds) + q))"
    have "dec_string ds (int (length ds) + q) = [CHR ''0''] @ CHR ''.'' # replicate k (CHR ''0'') @ ds"
      using small by (simp add: dec_string_def k_def)
    moreover have "list_all is_digit [CHR ''0'']" by (simp add: is_digit_def)
    ultimately have "dec_value (dec_string ds (int (length ds) + q))
        = of_nat (read_nat ([CHR ''0''] @ replicate k (CHR ''0'') @ ds)) / 10 ^ (k + length ds)"
      using dec_value_point [of "[CHR ''0'']" "replicate k (CHR ''0'') @ ds"] by simp
    moreover have "read_nat ([CHR ''0''] @ replicate k (CHR ''0'') @ ds) = read_nat ds"
      using read_nat_zeros_prefix [of "Suc k" ds] by simp
    moreover have "k + length ds = nat (- q)" "q < 0 \<or> q = 0"
      using small assms(2) by (auto simp: k_def)
    ultimately show ?thesis using small assms(2) by (auto simp: pow_rat_def)
  next
    case inside
    have n: "nat (int (length ds) + q) < length ds" using inside by linarith
    have "length ds - nat (int (length ds) + q) = nat (- q)" using inside by linarith
    moreover have "list_all is_digit (take m ds)" for m
      using assms(1) by (auto simp: list_all_iff dest: in_set_takeD)
    ultimately show ?thesis
      using inside n by (simp add: dec_string_def dec_value_point pow_rat_def)
  next
    case whole
    have "list_all is_digit (ds @ replicate (nat q) (CHR ''0''))"
      using assms(1) by (auto simp: list_all_iff is_digit_def)
    moreover have "nat (int (length ds) + q) = length ds + nat q" using whole by simp
    moreover have "\<not> int (length ds) + q \<le> 0" using whole assms(2) by (cases ds) simp_all
    ultimately show ?thesis using whole
      by (simp add: dec_string_def dec_value_integer pow_rat_def)
  qed
qed

section \<open>Shortest digits\<close>

abbreviation number :: "decoded \<Rightarrow> rat" where
  "number d \<equiv> of_nat (mant d) * pow_rat 2 (ex d)"

definition well_decoded :: "decoded \<Rightarrow> bool" where
  "well_decoded d \<longleftrightarrow> 0 < minus d \<and> minus d < mant d \<and> 0 < plus d \<and>
     mant d + plus d < 2 ^ 55 \<and> - 1077 \<le> ex d \<and> ex d \<le> 970"

lemma interval_convex:
  "in_interval d x \<Longrightarrow> in_interval d y \<Longrightarrow> x \<le> z \<Longrightarrow> z \<le> y \<Longrightarrow> in_interval d z"
  by (auto simp: in_interval_def Let_def split: if_splits)

lemma number_in_interval: "well_decoded d \<Longrightarrow> in_interval d (number d)"
  by (auto simp: in_interval_def Let_def well_decoded_def mult_le_cancel_right mult_less_cancel_right)

lemma interval_positive: "well_decoded d \<Longrightarrow> in_interval d x \<Longrightarrow> 0 < x"
proof -
  assume wd: "well_decoded d" and x: "in_interval d x"
  have "0 < (of_nat (mant d) - of_nat (minus d)) * pow_rat 2 (ex d)"
    using wd by (intro mult_pos_pos) (simp_all add: well_decoded_def)
  then show "0 < x" using x by (auto simp: in_interval_def Let_def split: if_splits)
qed

lemma interval_below: "well_decoded d \<Longrightarrow> in_interval d x \<Longrightarrow> x < 10 ^ 309"
proof -
  assume wd: "well_decoded d" and x: "in_interval d x"
  have a: "(of_nat (mant d) + of_nat (plus d) :: rat) \<le> 2 ^ 55"
  proof -
    have "(of_nat (mant d + plus d) :: rat) \<le> of_nat (2 ^ 55)"
      using wd unfolding of_nat_le_iff by (simp add: well_decoded_def)
    then show ?thesis by simp
  qed
  have "pow_rat 2 (ex d) \<le> 2 powi 970"
    using wd power_int_increasing [of "ex d" 970 "2 :: rat"]
    unfolding pow_rat_powi by (auto simp: well_decoded_def)
  then have "(of_nat (mant d) + of_nat (plus d)) * pow_rat 2 (ex d) \<le> (2 ^ 55 * 2 powi 970 :: rat)"
    using a by (intro mult_mono) (simp_all add: less_imp_le)
  also have "\<dots> < 10 ^ 309" by (simp add: power_int_def)
  finally show "x < 10 ^ 309" using x by (auto simp: in_interval_def Let_def split: if_splits)
qed

lemma digits_at_SomeD: "digits_at d q = Some n \<Longrightarrow> in_interval d (of_nat n * pow_rat 10 q)"
  by (auto simp: digits_at_def Let_def split: if_splits)

lemma digits_at_NoneD:
  assumes "digits_at d q = None" and wd: "well_decoded d"
  shows "\<not> in_interval d (of_nat n * pow_rat 10 q)"
proof
  assume x: "in_interval d (of_nat n * pow_rat 10 q)"
  define t where "t = nat \<lfloor>number d / pow_rat 10 q\<rfloor>"
  have s: "0 < pow_rat 10 q" by simp
  have "0 \<le> number d / pow_rat 10 q" by (simp add: less_imp_le)
  then have fl: "of_nat t \<le> number d / pow_rat 10 q" "number d / pow_rat 10 q < of_nat (t + 1)"
    unfolding t_def by (simp_all, linarith+)
  then have b: "of_nat t * pow_rat 10 q \<le> number d" "number d \<le> of_nat (t + 1) * pow_rat 10 q"
    using s by (simp_all add: field_simps del: of_nat_add of_nat_Suc)
  have none: "\<not> in_interval d (of_nat t * pow_rat 10 q)" "\<not> in_interval d (of_nat (t + 1) * pow_rat 10 q)"
    using assms(1) by (auto simp: digits_at_def Let_def t_def split: if_splits)
  show False
  proof (cases "n \<le> t")
    case True
    then have "of_nat n * pow_rat 10 q \<le> of_nat t * pow_rat 10 q" by simp
    then show False
      using interval_convex [OF x number_in_interval [OF wd]] b(1) none(1) by blast
  next
    case False
    then have "(of_nat (t + 1) :: rat) \<le> of_nat n" unfolding of_nat_le_iff by simp
    then have "of_nat (t + 1) * pow_rat 10 q \<le> of_nat n * pow_rat 10 q"
      by (intro mult_right_mono) (simp_all add: less_imp_le)
    then show False
      using interval_convex [OF number_in_interval [OF wd] x] b(2) none(2) by blast
  qed
qed

lemma cancel_scale:
  fixes P A B R T M :: "'a::comm_ring_1"
  assumes "P * (A * B) = 1" and "R * A = T"
  shows "M * R = M * T * B * P"
proof -
  have "M * T * B * P = M * R * (P * (A * B))" unfolding assms(2) [symmetric] by (simp only: ac_simps)
  then show ?thesis using assms(1) by simp
qed

lemma digits_at_exact:
  assumes wd: "well_decoded d" and k: "- int k \<le> ex d"
  shows "digits_at d (- int k) \<noteq> None"
proof -
  have "pow_rat 10 (- int k) * (2 ^ k * 5 ^ k) = 1"
    by (simp add: pow_rat_def power_mult_distrib [symmetric])
  moreover have "pow_rat 2 (ex d) * 2 ^ k = 2 ^ nat (ex d + int k)"
  proof -
    have "pow_rat 2 (ex d) * pow_rat 2 (int k) = pow_rat 2 (ex d + int k)"
      by (rule pow_rat_add [symmetric]) simp
    then show ?thesis using k by (simp add: pow_rat_def split: if_splits)
  qed
  ultimately have "of_nat (mant d) * pow_rat 2 (ex d)
      = of_nat (mant d) * 2 ^ nat (ex d + int k) * 5 ^ k * pow_rat 10 (- int k)"
    by (rule cancel_scale)
  then have "number d = of_nat (mant d * 2 ^ nat (ex d + int k) * 5 ^ k) * pow_rat 10 (- int k)"
    by simp
  then have "in_interval d (of_nat (mant d * 2 ^ nat (ex d + int k) * 5 ^ k) * pow_rat 10 (- int k))"
    using number_in_interval [OF wd] by (simp only:)
  then show ?thesis using digits_at_NoneD [OF _ wd] by blast
qed

lemma shortest_from_spec:
  assumes "shortest_from d k q = (n, p)" and "digits_at d (q - int k) \<noteq> None"
  shows "digits_at d p = Some n \<and> (\<forall>r. p < r \<longrightarrow> r \<le> q \<longrightarrow> digits_at d r = None)"
  using assms
proof (induction k arbitrary: q)
  case 0
  then show ?case by (auto split: option.splits)
next
  case (Suc k)
  show ?case
  proof (cases "digits_at d q")
    case None
    have "digits_at d p = Some n \<and> (\<forall>r. p < r \<longrightarrow> r \<le> q - 1 \<longrightarrow> digits_at d r = None)"
      using Suc.prems None by (intro Suc.IH) (simp_all add: algebra_simps)
    then show ?thesis using None by (metis int_ops(2) le_add1 linorder_le_less_linear order_antisym zle_diff1_eq)
  next
    case (Some a)
    then show ?thesis using Suc.prems by auto
  qed
qed

definition no_shorter :: "decoded \<Rightarrow> int \<Rightarrow> bool" where
  "no_shorter d q \<longleftrightarrow> (\<forall>n r. q < r \<longrightarrow> \<not> in_interval d (of_nat n * pow_rat 10 r))"

lemma shortest_spec:
  assumes wd: "well_decoded d" and s: "shortest d = (n, q)"
  shows "in_interval d (of_nat n * pow_rat 10 q)" and "no_shorter d q"
proof -
  have "digits_at d (309 - int 1386) \<noteq> None"
    using digits_at_exact [OF wd, of 1077] wd by (simp add: well_decoded_def)
  from shortest_from_spec [OF s [unfolded shortest_def] this]
  have q: "digits_at d q = Some n" and r: "\<And>r. q < r \<Longrightarrow> r \<le> 309 \<Longrightarrow> digits_at d r = None"
    by auto
  show "in_interval d (of_nat n * pow_rat 10 q)" by (rule digits_at_SomeD [OF q])
  have "\<not> in_interval d (of_nat m * pow_rat 10 r)" if "q < r" for m r
  proof (cases "r \<le> 309")
    case True
    then show ?thesis using digits_at_NoneD [OF r wd] that by blast
  next
    case False
    show ?thesis
    proof
      assume x: "in_interval d (of_nat m * pow_rat 10 r)"
      have "m \<noteq> 0" using interval_positive [OF wd x] by (cases m) simp_all
      have "(10 :: rat) ^ 309 \<le> 10 ^ nat r" using False by (intro power_increasing) simp_all
      also have "\<dots> \<le> of_nat m * 10 ^ nat r" using \<open>m \<noteq> 0\<close> by simp
      also have "\<dots> = of_nat m * pow_rat 10 r" using False by (simp add: pow_rat_def)
      finally show False using interval_below [OF wd x] by (metis not_le)
    qed
  qed
  then show "no_shorter d q" by (simp add: no_shorter_def)
qed

section \<open>The printed number\<close>

definition finite_nonzero :: "f64 \<Rightarrow> bool" where
  "finite_nonzero f \<longleftrightarrow> f64_exponent f \<noteq> 0x7ff \<and> \<not> (f64_exponent f = 0 \<and> f64_fraction f = 0)"

lemma f64_exponent_le: "f64_exponent f \<le> 0x7ff"
proof -
  have "drop_bit 52 f AND 0x7ff \<le> (0x7ff :: f64)" by (rule word_and_le1)
  then show ?thesis unfolding f64_exponent_def word_le_nat_alt by simp
qed

lemma f64_fraction_less: "f64_fraction f < 2 ^ 52"
  unfolding f64_fraction_def by (simp add: unsigned_take_bit_eq take_bit_nat_less_exp del: power_numeral)

lemma f64_well_decoded: "finite_nonzero f \<Longrightarrow> well_decoded (f64_decode f)"
  using f64_exponent_le [of f] f64_fraction_less [of f]
  by (auto simp: finite_nonzero_def well_decoded_def f64_decode_def Let_def)

text \<open>A check of the model of \<open>f64::to_string\<close>, which the code calls: a finite nonzero float prints as a sign and a
  decimal number of its rounding interval, \<open>n * 10 ^ q\<close>, and no number with its last digit at a higher
  position is in the interval.\<close>

lemma float_text_is_shortest:
  assumes "finite_nonzero f"
  shows "\<exists>s n q. format_repl_value (ReplFloat f) = (if f64_negative f then ''-'' else '''') @ s \<and>
    dec_value s = of_nat n * pow_rat 10 q \<and> in_interval (f64_decode f) (dec_value s) \<and>
    no_shorter (f64_decode f) q"
proof -
  obtain n q where s: "shortest (f64_decode f) = (n, q)" by fastforce
  define ds where "ds = show_nat n"
  have "dec_value (dec_string ds (int (length ds) + q)) = of_nat n * pow_rat 10 q"
    using dec_string_value [of ds q] show_nat_digits [of n] by (simp add: ds_def)
  moreover have "format_repl_value (ReplFloat f)
      = (if f64_negative f then ''-'' else '''') @ dec_string ds (int (length ds) + q)"
    using assms by (auto simp: show_f64_def finite_nonzero_def s Let_def ds_def)
  moreover note shortest_spec [OF f64_well_decoded [OF assms] s]
  ultimately show ?thesis by metis
qed

lemma float_text_is_shortest_example:
  "\<exists>s n q. format_repl_value (ReplFloat 0xBFF8000000000000) = ''-'' @ s \<and>
    dec_value s = of_nat n * pow_rat 10 q \<and> in_interval (f64_decode 0xBFF8000000000000) (dec_value s) \<and>
    no_shorter (f64_decode 0xBFF8000000000000) q"
proof -
  have "finite_nonzero 0xBFF8000000000000"
    by (simp add: finite_nonzero_def f64_exponent_def f64_fraction_def drop_bit_eq_div)
  moreover have "f64_negative 0xBFF8000000000000" by (simp add: f64_negative_def)
  ultimately show ?thesis using float_text_is_shortest [of "0xBFF8000000000000"] by simp
qed

section \<open>Byte previews\<close>

text \<open>The bytes a text of pairs of hexadecimal digits denotes.\<close>

fun read_hex :: "string \<Rightarrow> u8 list" where
  "read_hex (a # b # s) = of_nat (16 * digit_value a + digit_value b) # read_hex s"
| "read_hex s = []"

lemma read_hex_bytes: "read_hex (concat (map hex2 bs) @ s) = bs @ read_hex s"
proof (induction bs)
  case (Cons b bs)
  have "unat b < 256" using unsigned_less [of b] by simp
  then show ?case using Cons by (simp add: hex2_def)
qed simp

text \<open>A byte value prints its length and, in hexadecimal, its first sixteen
  bytes, with two dots behind them exactly when there are more.\<close>

theorem bytes_preview_reads_back:
  "\<exists>h d. format_repl_value (ReplBytes bs)
       = ''bytes[len='' @ show_nat (length bs) @ '' hex='' @ h @ d @ '']'' \<and>
     read_hex h = take 16 bs \<and> length h = 2 * min 16 (length bs) \<and>
     (d = ''..'') = (16 < length bs) \<and> (d = '''') = (length bs \<le> 16)"
proof -
  have "length (concat (map hex2 xs)) = 2 * length xs" for xs
    by (induction xs) (simp_all add: hex2_def)
  moreover have "read_hex (concat (map hex2 (take 16 bs))) = take 16 bs"
    using read_hex_bytes [of "take 16 bs" "[]"] by simp
  ultimately show ?thesis
    by (intro exI [of _ "concat (map hex2 (take 16 bs))"]
        exI [of _ "if length bs > 16 then ''..'' else ''''"]) (simp add: hex_preview_def)
qed

end
