(* ===== verification/Console.thy ===== *)
theory Console
  imports Transport
begin

text \<open>
  What the command line programs use of the standard library: standard input and output,
  process arguments, and \<open>str::parse::<u32>\<close>. The console is a record of operations on the
  state of the world; reading, flushing and \<open>write_all\<close> report errors, \<open>print!\<close> and
  \<open>println!\<close> panic when they cannot write.
\<close>

section \<open>Actions\<close>

record 'w console =
  read_line_op :: "'w \<Rightarrow> (io_error + string) \<times> 'w"
  print_op :: "string \<Rightarrow> 'w \<Rightarrow> 'w outcome"
  eprint_op :: "string \<Rightarrow> 'w \<Rightarrow> 'w outcome"
  flush_out :: "'w \<Rightarrow> (io_error + unit) \<times> 'w"
  write_out :: "u8 list \<Rightarrow> 'w \<Rightarrow> (io_error + unit) \<times> 'w"

text \<open>Code that changes the world, may fail and may panic, chained as \<open>?\<close> chains it.\<close>

type_synonym ('e, 'a, 'w) action = "'w \<Rightarrow> (('e + 'a) \<times> 'w) outcome"

definition act :: "'a \<Rightarrow> ('e, 'a, 'w) action" where
  "act a w = Returned (Inr a, w)"

definition act_then :: "('e, 'a, 'w) action \<Rightarrow> ('a \<Rightarrow> ('e, 'b, 'w) action) \<Rightarrow> ('e, 'b, 'w) action" where
  "act_then m f w = (case m w of
       Panicked \<Rightarrow> Panicked
     | Returned (Inl e, w) \<Rightarrow> Returned (Inl e, w)
     | Returned (Inr a, w) \<Rightarrow> f a w)"

definition act_try :: "('w \<Rightarrow> ('e + 'a) \<times> 'w) \<Rightarrow> ('e, 'a, 'w) action" where
  "act_try m w = Returned (m w)"

definition print_text :: "'w console \<Rightarrow> string \<Rightarrow> ('e, unit, 'w) action" where
  "print_text C s w = (case print_op C s w of Panicked \<Rightarrow> Panicked | Returned w \<Rightarrow> Returned (Inr (), w))"

definition print_line :: "'w console \<Rightarrow> string \<Rightarrow> ('e, unit, 'w) action" where
  "print_line C s = print_text C (s @ [CHR 0x0A])"

definition eprint_line :: "'w console \<Rightarrow> string \<Rightarrow> ('e, unit, 'w) action" where
  "eprint_line C s w =
     (case eprint_op C (s @ [CHR 0x0A]) w of Panicked \<Rightarrow> Panicked | Returned w \<Rightarrow> Returned (Inr (), w))"

lemmas action_defs = act_def act_then_def act_try_def print_text_def print_line_def eprint_line_def

lemma act_then_Returned:
  "act_then m f w = Returned (Inr b, w') \<longleftrightarrow> (\<exists>a w1. m w = Returned (Inr a, w1) \<and> f a w1 = Returned (Inr b, w'))"
  by (auto simp: act_then_def split: outcome.splits sum.splits)

lemma act_then_apply:
  "m w = Returned (Inr a, w1) \<Longrightarrow> act_then m f w = f a w1"
  "m w = Returned (Inl e, w1) \<Longrightarrow> act_then m f w = Returned (Inl e, w1)"
  "m w = Panicked \<Longrightarrow> act_then m f w = Panicked"
  by (simp_all add: act_then_def)

section \<open>Numbers from arguments\<close>

text \<open>\<open>u32::from_str\<close>: an optional plus sign, then digits whose value fits.\<close>

definition digit_of :: "char \<Rightarrow> nat option" where
  "digit_of c = (let n = (of_char c :: nat) in if 48 \<le> n \<and> n \<le> 57 then Some (n - 48) else None)"

fun parse_digits :: "nat \<Rightarrow> string \<Rightarrow> nat option" where
  "parse_digits acc [] = Some acc"
| "parse_digits acc (c # cs) = (case digit_of c of
       None \<Rightarrow> None
     | Some d \<Rightarrow> if acc * 10 + d < 2 ^ 32 then parse_digits (acc * 10 + d) cs else None)"

definition parse_u32 :: "string \<Rightarrow> u32 option" where
  "parse_u32 s =
     (let ds = (if starts_with s ''+'' \<and> s \<noteq> ''+'' then tl s else s) in
      if ds = '''' then None else map_option of_nat (parse_digits 0 ds))"

section \<open>Consoles whose input ends\<close>

text \<open>What termination of the loops below rests on: only reading takes input away, a line that is
  not empty does take some, and printing succeeds.\<close>

definition input_ends :: "'w console \<Rightarrow> ('w \<Rightarrow> nat) \<Rightarrow> bool" where
  "input_ends C left \<longleftrightarrow>
     (\<forall>w r w'. read_line_op C w = (r, w') \<longrightarrow> left w' \<le> left w \<and> (\<forall>line. r = Inr line \<longrightarrow> line \<noteq> '''' \<longrightarrow> left w' < left w)) \<and>
     (\<forall>s w w'. print_op C s w = Returned w' \<longrightarrow> left w' = left w) \<and>
     (\<forall>s w w'. eprint_op C s w = Returned w' \<longrightarrow> left w' = left w) \<and>
     (\<forall>w r w'. flush_out C w = (r, w') \<longrightarrow> left w' = left w) \<and>
     (\<forall>bs w r w'. write_out C bs w = (r, w') \<longrightarrow> left w' = left w)"

text \<open>A scripted console: the lines still to come, and what was written.\<close>

record script =
  lines :: "string list"
  written :: string

definition script_console :: "script console" where
  "script_console = \<lparr>
     read_line_op = (\<lambda>w. case lines w of [] \<Rightarrow> (Inr '''', w) | l # ls \<Rightarrow> (Inr l, w\<lparr>lines := ls\<rparr>)),
     print_op = (\<lambda>s w. Returned (w\<lparr>written := written w @ s\<rparr>)),
     eprint_op = (\<lambda>s w. Returned (w\<lparr>written := written w @ s\<rparr>)),
     flush_out = (\<lambda>w. (Inr (), w)),
     write_out = (\<lambda>bs w. (Inr (), w\<lparr>written := written w @ string_of_bytes bs\<rparr>))\<rparr>"

lemma script_ends: "input_ends script_console (\<lambda>w. length (lines w))"
  by (auto simp: input_ends_def script_console_def split: list.splits)

end
