(* ===== verification/Serial_Cli.thy ===== *)
theory Serial_Cli
  imports Console Session Input Render
begin

text \<open>
  The serial REPL program, \<open>src/bin/rustscript-serial-repl.rs\<close>: its arguments, and the loop
  that reads lines, handles the dot commands, collects lines until the input is complete, and
  evaluates it on the device. Standard input and output are a console; the serial port is the
  stream under the transport.
\<close>

section \<open>Arguments\<close>

datatype 'x cli_error = Usage | Bad_Baud | Cli_Io io_error | Serial_Failed 'x

text \<open>The port and the baud rate; the arguments come without the program name.\<close>

definition serial_args :: "string list \<Rightarrow> 'x cli_error + string \<times> u32" where
  "serial_args args = (case args of
       [] \<Rightarrow> Inl Usage
     | [port] \<Rightarrow> Inr (port, 115200)
     | port # baud # more_args \<Rightarrow>
         and_then (ok_or Bad_Baud (parse_u32 baud)) (\<lambda>b.
         if more_args \<noteq> [] then Inl Usage else Inr (port, b)))"

section \<open>The loop\<close>

record ('s, 'io) cli =
  cli_session :: "'s session"
  cli_transport :: "'io transport"
  pending :: string

definition cli_start :: "'io \<Rightarrow> ('s, 'io) cli" where
  "cli_start serial = \<lparr>cli_session = session_new, cli_transport = transport_new serial, pending = ''''\<rparr>"

datatype command = Quit | Help | Cancel | Clear | Unknown string | Skip | Snippet

definition classify :: "string \<Rightarrow> string \<Rightarrow> command" where
  "classify line pend = (let c = trim line in
     if c = ''.quit'' \<or> c = ''.exit'' then Quit
     else if c = ''.help'' \<and> pend = '''' then Help
     else if c = ''.cancel'' then Cancel
     else if c = ''.clear'' \<and> pend = '''' then Clear
     else if starts_with c ''.'' \<and> pend = '''' then Unknown c
     else if c = '''' \<and> pend = '''' then Skip
     else Snippet)"

text \<open>What the loop calls besides the console: \<open>session.eval\<close> with the transport, and the
  \<open>Display\<close> of a source error.\<close>

record ('c, 's, 'e, 'io) repl_env =
  env_target :: target
  env_vm :: "('c, 's, 'e) repl_vm"
  env_io :: "'io io_ops"
  env_show :: "'e source_error \<Rightarrow> string"

definition show_device_output :: "'w console \<Rightarrow> u8 list \<Rightarrow> (io_error, unit, 'w) action" where
  "show_device_output C out =
     (if out \<noteq> [] then
        act_then (act_try (write_out C out)) (\<lambda>_.
        if last out \<noteq> 0x0A then print_line C '''' else act ())
      else act ())"

definition show_result :: "'w console \<Rightarrow> ('e source_error \<Rightarrow> string) \<Rightarrow> 'e client_error + repl_value option
    \<Rightarrow> (io_error, unit, 'w) action" where
  "show_result C show_source r = (case r of
       Inr (Some v) \<Rightarrow> print_line C (''=> '' @ format_repl_value v)
     | Inr None \<Rightarrow> act ()
     | Inl e \<Rightarrow> eprint_line C (''error: '' @ client_error_display show_source e))"

text \<open>A complete snippet is evaluated; then what the device printed is shown, then the result.\<close>

definition run_snippet :: "'w console \<Rightarrow> ('c, 's, 'e, 'io) repl_env \<Rightarrow> string \<Rightarrow> ('s, 'io) cli
    \<Rightarrow> (io_error, ('s, 'io) cli, 'w) action" where
  "run_snippet C E snippet st w =
     (case eval (env_target E) (env_vm E) (execute (env_io E)) snippet (cli_session st) (cli_transport st) of
        Panicked \<Rightarrow> Panicked
      | Returned (r, ls, tr) \<Rightarrow>
          (case take_device_output tr of (out, tr) \<Rightarrow>
             act_then (show_device_output C out) (\<lambda>_.
             act_then (show_result C (env_show E) r) (\<lambda>_.
             act (\<lparr>cli_session = ls, cli_transport = tr, pending = ''''\<rparr>))) w))"

text \<open>One line: the new state, or \<open>None\<close> to leave the loop.\<close>

definition handle_line :: "'w console \<Rightarrow> ('c, 's, 'e, 'io) repl_env \<Rightarrow> string \<Rightarrow> ('s, 'io) cli
    \<Rightarrow> (io_error, ('s, 'io) cli option, 'w) action" where
  "handle_line C E line st = (case classify line (pending st) of
       Quit \<Rightarrow> act None
     | Help \<Rightarrow>
         act_then (print_line C ''.cancel clears multiline input; .clear clears saved locals; .quit exits'')
           (\<lambda>_. act (Some st))
     | Cancel \<Rightarrow> act (Some (st\<lparr>pending := ''''\<rparr>))
     | Clear \<Rightarrow>
         act_then (print_line C ''session cleared'')
           (\<lambda>_. act (Some (st\<lparr>cli_session := session_clear (cli_session st)\<rparr>)))
     | Unknown c \<Rightarrow>
         act_then (print_line C (''unknown command: '' @ c)) (\<lambda>_. act (Some st))
     | Skip \<Rightarrow> act (Some st)
     | Snippet \<Rightarrow>
         (let input = pending st @ line in
          if \<not> is_repl_input_complete input then act (Some (st\<lparr>pending := input\<rparr>))
          else act_then (run_snippet C E input st) (\<lambda>st. act (Some st))))"

definition cli_round :: "'w console \<Rightarrow> ('c, 's, 'e, 'io) repl_env \<Rightarrow> ('s, 'io) cli
    \<Rightarrow> (io_error, ('s, 'io) cli option, 'w) action" where
  "cli_round C E st =
     act_then (print_text C (if pending st = '''' then ''rss> '' else ''...> '')) (\<lambda>_.
     act_then (act_try (flush_out C)) (\<lambda>_.
     act_then (act_try (read_line_op C)) (\<lambda>line.
     if line = '''' then act_then (print_line C '''') (\<lambda>_. act None)
     else handle_line C E line st)))"

partial_function (option) cli_loop :: "'w console \<Rightarrow> ('c, 's, 'e, 'io) repl_env \<Rightarrow> ('s, 'io) cli \<Rightarrow> 'w
    \<Rightarrow> ((io_error + unit) \<times> 'w) outcome option" where
  "cli_loop C E st w = (case cli_round C E st w of
       Panicked \<Rightarrow> Some Panicked
     | Returned (r, w) \<Rightarrow> (case r of
           Inl e \<Rightarrow> Some (Returned (Inl e, w))
         | Inr next_st \<Rightarrow> (case next_st of
             None \<Rightarrow> Some (Returned (Inr (), w))
           | Some st \<Rightarrow> cli_loop C E st w)))"

text \<open>\<open>main\<close>: arguments, port, banner, loop. Opening the port and clearing its input are calls of
  the \<open>serialport\<close> crate.\<close>

record ('x, 'io, 'w) serial_ports =
  open_port :: "string \<Rightarrow> u32 \<Rightarrow> nat \<Rightarrow> 'w \<Rightarrow> ('x + 'io) \<times> 'w"
  clear_input :: "'io \<Rightarrow> 'w \<Rightarrow> ('x + 'io) \<times> 'w"

definition banner :: "'w console \<Rightarrow> string \<Rightarrow> u32 \<Rightarrow> ('e, unit, 'w) action" where
  "banner C port baud =
     act_then (print_line C (''RustScript serial REPL on '' @ port @ '' ('' @ show_nat (unat baud) @ '' baud)''))
       (\<lambda>_. print_line C ''commands: .help, .cancel, .clear, .quit'')"

definition serial_main :: "'w console \<Rightarrow> ('c, 's, 'e, 'io) repl_env \<Rightarrow> ('x, 'io, 'w) serial_ports
    \<Rightarrow> string list \<Rightarrow> 'w \<Rightarrow> (('x cli_error + unit) \<times> 'w) outcome option" where
  "serial_main C E P args w = (case serial_args args of
       Inl e \<Rightarrow> Some (Returned (Inl e, w))
     | Inr (port, baud) \<Rightarrow>
         (case open_port P port baud 10 w of
            (Inl e, w) \<Rightarrow> Some (Returned (Inl (Serial_Failed e), w))
          | (Inr serial, w) \<Rightarrow>
              (case clear_input P serial w of
                 (Inl e, w) \<Rightarrow> Some (Returned (Inl (Serial_Failed e), w))
               | (Inr serial, w) \<Rightarrow>
                   (case banner C port baud w of
                      Panicked \<Rightarrow> Some Panicked
                    | Returned (Inl e, w) \<Rightarrow> Some (Returned (Inl e, w))
                    | Returned (Inr _, w) \<Rightarrow>
                        map_option (\<lambda>r. case r of
                            Panicked \<Rightarrow> Panicked
                          | Returned (r, w) \<Rightarrow> Returned (map_err Cli_Io r, w))
                          (cli_loop C E (cli_start serial) w)))))"

end
