(* ===== verification/Serial_Cli_Safety.thy ===== *)
theory Serial_Cli_Safety
  imports Serial_Cli Session_Safety
begin

text \<open>
  Properties of the serial REPL program: the baud rate it accepts, what it sends to the device
  and when, that lines are put together as the user typed them, and that it ends when its input
  does.
\<close>

section \<open>The baud rate\<close>

lemma digit_of_digit: "n < 10 \<Longrightarrow> digit_of (digit n) = Some n"
  by (simp add: digit_of_def digit_def)

lemma parse_digits_snoc:
  "parse_digits a (s @ [c]) = Option.bind (parse_digits a s) (\<lambda>b. parse_digits b [c])"
  by (induction s arbitrary: a) (auto split: option.splits)

lemma parse_digits_show: "parse_digits 0 (show_nat n) = (if n < 2 ^ 32 then Some n else None)"
proof (induction n rule: show_nat.induct)
  case (1 n)
  show ?case
  proof (cases "n < 10")
    case True
    then show ?thesis by (subst show_nat.simps) (simp add: digit_of_digit)
  next
    case False
    have m: "n div 10 * 10 + n mod 10 = n" by simp
    have "n div 10 < 2 ^ 32" if "n < 2 ^ 32" using that by simp
    then show ?thesis
      using 1 False m by (subst show_nat.simps) (auto simp: parse_digits_snoc digit_of_digit simp del: power_numeral)
  qed
qed

lemma digit_no_plus: "n < 10 \<Longrightarrow> digit n \<noteq> CHR ''+''"
  using digit_of_digit [of n] by (auto simp: digit_of_def)

lemma show_nat_no_plus: "take 1 (show_nat n) \<noteq> ''+'' \<and> show_nat n \<noteq> []"
proof (induction n rule: show_nat.induct)
  case (1 n)
  then show ?case
    by (subst (1 2) show_nat.simps) (auto simp: take_Cons' digit_no_plus split: if_splits)
qed

text \<open>A decimal baud rate is accepted exactly when it fits 32 bits, and is then the
  number written; without one the rate is 115200. Any further argument is refused.\<close>

theorem baud_argument_exact:
  "serial_args [port] = Inr (port, 115200) \<and>
   serial_args (port # show_nat n # others) =
     (if \<not> n < 2 ^ 32 then Inl Bad_Baud else if others = [] then Inr (port, of_nat n) else Inl Usage)"
  using show_nat_no_plus [of n]
  by (simp add: serial_args_def parse_u32_def starts_with_def parse_digits_show del: power_numeral)

section \<open>What a line does\<close>

lemma act_Returned [simp]: "act a w = Returned (r, w') \<longleftrightarrow> r = Inr a \<and> w' = w"
  by (auto simp: act_def)

lemma print_text_Returned: "print_text C s w = Returned (r, w') \<longleftrightarrow> r = Inr () \<and> print_op C s w = Returned w'"
  by (auto simp: print_text_def split: outcome.splits)

text \<open>A line reaches the device only when it completes the input: if the
  transport is not what it was, the line was no command, the lines collected so far form
  complete input, and the next prompt starts afresh.\<close>

theorem device_needs_complete_input:
  assumes "handle_line C E line st w = Returned (Inr (Some st'), w')"
    and "cli_transport st' \<noteq> cli_transport st"
  shows "classify line (pending st) = Snippet \<and> is_repl_input_complete (pending st @ line) \<and> pending st' = ''''"
  using assms
  by (auto simp: handle_line_def act_then_Returned run_snippet_def Let_def
      split: command.splits if_splits outcome.splits prod.splits)

text \<open>What the prompt shows: the lines kept are empty or incomplete input.\<close>

definition awaits :: "('s, 'io) cli \<Rightarrow> bool" where
  "awaits st \<longleftrightarrow> pending st = '''' \<or> \<not> is_repl_input_complete (pending st)"

inductive cli_reachable :: "'w console \<Rightarrow> ('c, 's, 'e, 'io) repl_env \<Rightarrow> 'io \<Rightarrow> ('s, 'io) cli \<Rightarrow> bool"
  for C E serial where
  start: "cli_reachable C E serial (cli_start serial)"
| round: "cli_reachable C E serial st \<Longrightarrow> cli_round C E st w = Returned (Inr (Some st'), w') \<Longrightarrow>
    cli_reachable C E serial st'"

lemma handle_line_awaits:
  "handle_line C E line st w = Returned (Inr (Some st'), w') \<Longrightarrow> awaits st \<Longrightarrow> awaits st'"
  by (auto simp: handle_line_def act_then_Returned run_snippet_def Let_def awaits_def
      split: command.splits if_splits outcome.splits prod.splits)

text \<open>In every state the loop reaches, on any console and any device, the lines
  it has kept are incomplete input: complete input is never left waiting.\<close>

theorem prompt_awaits_input:
  assumes "cli_reachable C E serial st"
  shows "awaits st"
  using assms
proof (induction rule: cli_reachable.induct)
  case start
  then show ?case by (simp add: awaits_def cli_start_def)
next
  case (round st w st' w')
  from round(2) obtain line w1 where "handle_line C E line st w1 = Returned (Inr (Some st'), w')"
    by (auto simp: cli_round_def act_then_Returned split: if_splits)
  from handle_line_awaits [OF this round(3)] show ?case .
qed

section \<open>Input over several lines\<close>

text \<open>Lines of which only the whole is complete.\<close>

fun collects :: "string \<Rightarrow> string list \<Rightarrow> bool" where
  "collects pend [] = False"
| "collects pend (l # ls) = (classify l pend = Snippet \<and>
     (if ls = [] then is_repl_input_complete (pend @ l)
      else \<not> is_repl_input_complete (pend @ l) \<and> collects (pend @ l) ls))"

fun feed :: "'w console \<Rightarrow> ('c, 's, 'e, 'io) repl_env \<Rightarrow> string list \<Rightarrow> ('s, 'io) cli
    \<Rightarrow> (io_error, ('s, 'io) cli option, 'w) action" where
  "feed C E [] st = act (Some st)"
| "feed C E (l # ls) st = act_then (handle_line C E l st) (\<lambda>next_st. case next_st of
       None \<Rightarrow> act None
     | Some st \<Rightarrow> feed C E ls st)"

lemma run_snippet_pending: "run_snippet C E s (st\<lparr>pending := p\<rparr>) = run_snippet C E s st"
  by (rule ext) (simp add: run_snippet_def)

lemma act_then_act [simp]: "act_then (act a) f = f a"
  by (simp add: fun_eq_iff act_then_def act_def)

lemma feed_last:
  "act_then (act_then m (\<lambda>st. act (Some st))) (case_option (act None) (feed C E [])) w
    = act_then m (\<lambda>st. act (Some st)) w"
  by (simp add: act_then_def act_def split: outcome.split sum.split)

text \<open>C30. Input typed over several lines is one snippet: the device sees the
  concatenation of the lines once, when the last one is in, exactly as if it had come as one.\<close>

theorem lines_make_one_snippet:
  assumes "collects (pending st) ls"
  shows "feed C E ls st w = act_then (run_snippet C E (pending st @ concat ls) st) (\<lambda>st. act (Some st)) w"
  using assms
proof (induction ls arbitrary: st)
  case (Cons l ls)
  show ?case
  proof (cases "ls = []")
    case True
    then show ?thesis using Cons.prems by (simp add: handle_line_def Let_def feed_last)
  next
    case False
    have "feed C E ls (st\<lparr>pending := pending st @ l\<rparr>) w
        = act_then (run_snippet C E (pending st @ l @ concat ls) st) (\<lambda>st. act (Some st)) w"
      using Cons.IH [of "st\<lparr>pending := pending st @ l\<rparr>"] Cons.prems False
      by (simp add: run_snippet_pending)
    then show ?thesis using Cons.prems False by (simp add: handle_line_def Let_def)
  qed
qed simp

section \<open>The loop ends with its input\<close>

definition takes_no_input :: "('w \<Rightarrow> nat) \<Rightarrow> ('e, 'a, 'w) action \<Rightarrow> bool" where
  "takes_no_input left m \<longleftrightarrow> (\<forall>w r w'. m w = Returned (r, w') \<longrightarrow> left w' \<le> left w)"

lemma takes_act [simp]: "takes_no_input left (act a)"
  by (simp add: takes_no_input_def)

lemma takes_act_then:
  "takes_no_input left m \<Longrightarrow> (\<And>a. takes_no_input left (f a)) \<Longrightarrow> takes_no_input left (act_then m f)"
  unfolding takes_no_input_def act_then_def
  by (auto split: outcome.splits sum.splits) (meson order.trans)+

lemma takes_console:
  assumes "input_ends C left"
  shows "takes_no_input left (print_text C s)" "takes_no_input left (print_line C s)"
    "takes_no_input left (eprint_line C s)" "takes_no_input left (act_try (flush_out C))"
    "takes_no_input left (act_try (write_out C bs))" "takes_no_input left (act_try (read_line_op C))"
  using assms unfolding takes_no_input_def input_ends_def
  by (auto simp: print_text_def print_line_def eprint_line_def act_try_def split: outcome.splits)

lemma takes_shown:
  assumes "input_ends C left"
  shows "takes_no_input left (act_then (show_device_output C out) (\<lambda>_.
    act_then (show_result C sh r) (\<lambda>_. act st)))"
proof -
  note t = takes_console [OF assms] takes_act takes_act_then
  have "takes_no_input left (show_device_output C out)"
    by (simp add: show_device_output_def t)
  moreover have "takes_no_input left (show_result C sh r)"
    by (auto simp: show_result_def t split: sum.split option.split)
  ultimately show ?thesis by (intro takes_act_then takes_act)
qed

lemma takes_run_snippet:
  assumes "input_ends C left"
  shows "takes_no_input left (run_snippet C E s st)"
  unfolding takes_no_input_def
  by (auto simp: run_snippet_def intro: takes_shown [OF assms, unfolded takes_no_input_def, rule_format]
      split: outcome.splits prod.splits)

lemma takes_handle_line:
  assumes "input_ends C left"
  shows "takes_no_input left (handle_line C E line st)"
  using takes_console [OF assms] takes_run_snippet [OF assms]
  by (auto simp: handle_line_def Let_def intro!: takes_act_then split: command.split)

lemma round_takes_line:
  assumes "input_ends C left" and "cli_round C E st w = Returned (Inr (Some st'), w')"
  shows "left w' < left w"
proof -
  from assms(2) obtain w1 w2 line w3 where s:
      "print_op C (if pending st = '''' then ''rss> '' else ''...> '') w = Returned w1"
      "flush_out C w1 = (Inr (), w2)" "read_line_op C w2 = (Inr line, w3)" "line \<noteq> ''''"
      "handle_line C E line st w3 = Returned (Inr (Some st'), w')"
    by (auto simp: cli_round_def act_then_Returned act_try_def print_text_Returned split: if_splits)
  have "left w' \<le> left w3"
    using s(5) takes_handle_line [OF assms(1)] unfolding takes_no_input_def by blast
  moreover have "left w1 = left w" "left w2 = left w1"
    using assms(1) s(1,2) unfolding input_ends_def by blast+
  moreover have "left w3 < left w2"
    using assms(1) s(3,4) unfolding input_ends_def by blast
  ultimately show ?thesis by simp
qed

text \<open>C29. When the user's input ends, so does the program: on every console whose lines
  run out the loop returns, whatever the device does in between.\<close>

theorem serial_loop_ends:
  assumes "input_ends C left"
  shows "\<exists>r. cli_loop C E st w = Some r"
proof (induction "left w" arbitrary: st w rule: less_induct)
  case less
  show ?case
  proof (cases "cli_round C E st w")
    case Panicked
    then show ?thesis by (simp add: cli_loop.simps)
  next
    case (Returned p)
    obtain r w' where p: "p = (r, w')" by fastforce
    show ?thesis
    proof (cases r)
      case (Inr n)
      show ?thesis
      proof (cases n)
        case (Some st')
        then have "cli_round C E st w = Returned (Inr (Some st'), w')" using Returned p Inr by simp
        from less [OF round_takes_line [OF assms this], of st'] show ?thesis
          using Returned p Inr Some by (simp add: cli_loop.simps [of C E st w])
      qed (use Returned p Inr in \<open>simp add: cli_loop.simps\<close>)
    qed (use Returned p in \<open>simp add: cli_loop.simps\<close>)
  qed
qed

section \<open>A session with a dead line\<close>

text \<open>A port on which every write fails, counting the attempts, and a state with one local.\<close>

definition dead_ops :: "nat io_ops" where
  "dead_ops = \<lparr>read_exact_op = (\<lambda>n s. (Inl (Io_Error UnexpectedEof ''''), s)),
     write_all_op = (\<lambda>bs s. (Inl (Io_Error (OtherKind ''BrokenPipe'') ''broken pipe''), s + 1)),
     flush_op = (\<lambda>s. (Inr (), s))\<rparr>"

definition dead_env :: "(unit, unit, unit, nat) repl_env" where
  "dead_env = \<lparr>env_target = host_target, env_vm = demo_vm, env_io = dead_ops, env_show = (\<lambda>_. '''')\<rparr>"

definition dead_cli :: "string \<Rightarrow> (unit, nat) cli" where
  "dead_cli pend = \<lparr>cli_session = demo_session, cli_transport = transport_new 0, pending = pend\<rparr>"

definition dead_transport :: "nat transport" where
  "dead_transport = \<lparr>io = 1, device_output = [], next_request_id = 2\<rparr>"

definition silent :: script where
  "silent = \<lparr>lines = [], written = ''''\<rparr>"

lemmas text_eval = chars_ascii is_whitespace_def bytes_str_def eq_char_of take_bit_eq_mod
  trim_end_chars_def

lemma x_complete: "is_repl_input_complete ''x''" "\<not> is_repl_input_complete ''(''" "is_repl_input_complete ''()''"
  by (simp_all add: is_repl_input_complete_def scan_input.simps scanner_new_def scan_code_char_def
      push_code_def push_delimiter_def pop_delimiter_def trim_end_def INCOMPLETE_def ends_with_def
      Let_def text_eval del: chars.simps)

lemma x_snippet: "classify ''x'' '''' = Snippet" "classify ''('' '''' = Snippet" "classify '')'' ''('' = Snippet"
  by (simp_all add: classify_def trim_def starts_with_def text_eval del: chars.simps)

lemma dead_execute:
  "execute dead_ops [1] (state_bytes [ReplBool True]) (transport_new 0)
    = (Inl (Io_Error (OtherKind ''BrokenPipe'') ''broken pipe''), dead_transport)"
  by (simp add: execute_def send_request_def dead_ops_def transport_new_def dead_transport_def Let_def
      state_bytes_def MAX_FRAME_BYTES_def)

lemma dead_line:
  "\<exists>w'. handle_line script_console dead_env ''x'' (dead_cli '''') silent
    = Returned (Inr (Some (dead_cli ''''\<lparr>cli_transport := dead_transport\<rparr>)), w')"
proof -
  have "eval host_target demo_vm (execute dead_ops) ''x'' demo_session (transport_new 0)
      = Returned (Inl (Io_Failed (Io_Error (OtherKind ''BrokenPipe'') ''broken pipe'')), demo_session, dead_transport)"
    by (simp add: eval_def demo_prepare demo_request_def dead_execute)
  then show ?thesis
    by (simp add: handle_line_def x_snippet x_complete run_snippet_def dead_env_def dead_cli_def
        take_device_output_def dead_transport_def show_device_output_def show_result_def
        action_defs script_console_def)
qed

theorem device_needs_complete_input_witness:
  "classify ''x'' (pending (dead_cli '''')) = Snippet \<and>
    is_repl_input_complete (pending (dead_cli '''') @ ''x'') \<and>
    pending (dead_cli ''''\<lparr>cli_transport := dead_transport\<rparr>) = ''''"
proof -
  obtain w' where h: "handle_line script_console dead_env ''x'' (dead_cli '''') silent
    = Returned (Inr (Some (dead_cli ''''\<lparr>cli_transport := dead_transport\<rparr>)), w')"
    using dead_line by blast
  show ?thesis
    by (rule device_needs_complete_input [OF h])
      (simp add: dead_cli_def dead_transport_def transport_new_def)
qed

theorem prompt_awaits_input_witness:
  "awaits (cli_start 0\<lparr>pending := ''(''\<rparr> :: (unit, nat) cli)"
proof (rule prompt_awaits_input [of script_console dead_env 0])
  have "cli_reachable script_console dead_env 0 (cli_start 0)"
    by (rule cli_reachable.start)
  moreover have "cli_round script_console dead_env (cli_start 0) (silent\<lparr>lines := [''('']\<rparr>)
      = Returned (Inr (Some (cli_start 0\<lparr>pending := ''(''\<rparr>)), \<lparr>lines = [], written = ''rss> ''\<rparr>)"
    by (simp add: cli_round_def handle_line_def cli_start_def x_snippet x_complete action_defs
        script_console_def silent_def)
  ultimately show "cli_reachable script_console dead_env 0 (cli_start 0\<lparr>pending := ''(''\<rparr>)"
    by (rule cli_reachable.round)
qed

theorem lines_make_one_snippet_witness:
  "feed script_console dead_env [''('', '')''] (dead_cli '''') silent
    = act_then (run_snippet script_console dead_env (pending (dead_cli '''') @ concat [''('', '')'']) (dead_cli ''''))
        (\<lambda>st. act (Some st)) silent"
  by (rule lines_make_one_snippet) (simp add: dead_cli_def x_snippet x_complete)

theorem serial_loop_ends_witness:
  "\<exists>r. cli_loop script_console dead_env (cli_start 0) \<lparr>lines = [''('', ''.quit''], written = ''''\<rparr> = Some r"
  by (rule serial_loop_ends [OF script_ends])

end
