(* ===== verification/Memory.thy ===== *)
theory Memory
  imports Prelude
begin

text \<open>
  The memory the C interface of \<open>src/ffi.rs\<close> reads and writes through raw pointers: bytes at
  addresses, with \<open>0\<close> the null pointer, the blocks the allocator has handed out, and the
  places where the caller keeps a \<open>RustScriptBuffer\<close>. Reading, writing or freeing outside of
  them is not an error the code can see; it is the outcome \<open>Undefined\<close>.
\<close>

type_synonym addr = nat

text \<open>\<open>RustScriptBuffer\<close>.\<close>

record ffi_buffer =
  buf_data :: addr
  buf_len :: nat
  buf_capacity :: nat

definition empty_buffer :: ffi_buffer where
  "empty_buffer = \<lparr>buf_data = 0, buf_len = 0, buf_capacity = 0\<rparr>"

record memory =
  cells :: "addr \<Rightarrow> u8 option"
  blocks :: "addr \<Rightarrow> nat option"
  slots :: "addr \<Rightarrow> ffi_buffer option"

text \<open>A call of unsafe code ends in a value, never ends, or has no defined behaviour.\<close>

datatype 'a c_outcome = Undefined | Diverges | Done 'a

definition c_then :: "'a c_outcome \<Rightarrow> ('a \<Rightarrow> 'b c_outcome) \<Rightarrow> 'b c_outcome" where
  "c_then r f = (case r of Undefined \<Rightarrow> Undefined | Diverges \<Rightarrow> Diverges | Done a \<Rightarrow> f a)"

lemma c_then_simps [simp]:
  "c_then Undefined f = Undefined"
  "c_then Diverges f = Diverges"
  "c_then (Done a) f = f a"
  by (simp_all add: c_then_def)

lemma c_then_Done: "c_then r f = Done b \<longleftrightarrow> (\<exists>a. r = Done a \<and> f a = Done b)"
  by (cases r) auto

text \<open>A call that is defined, and ends in a value with \<open>Q\<close> when it ends.\<close>

definition ensures :: "'a c_outcome \<Rightarrow> ('a \<Rightarrow> bool) \<Rightarrow> bool" where
  "ensures r Q \<longleftrightarrow> (case r of Undefined \<Rightarrow> False | Diverges \<Rightarrow> True | Done a \<Rightarrow> Q a)"

lemma ensures_simps [simp]:
  "\<not> ensures Undefined Q"
  "ensures Diverges Q"
  "ensures (Done a) Q \<longleftrightarrow> Q a"
  "ensures (c_then r f) Q \<longleftrightarrow> ensures r (\<lambda>a. ensures (f a) Q)"
  by (simp_all add: ensures_def c_then_def split: c_outcome.split)

lemma ensures_mono: "ensures r P \<Longrightarrow> (\<And>a. P a \<Longrightarrow> Q a) \<Longrightarrow> ensures r Q"
  by (cases r) simp_all

lemma ensuresI: "r \<noteq> Undefined \<Longrightarrow> (\<And>a. r = Done a \<Longrightarrow> Q a) \<Longrightarrow> ensures r Q"
  by (cases r) simp_all

lemma ensures_not_Undefined: "ensures r Q \<Longrightarrow> r \<noteq> Undefined"
  by auto

lemma ensures_Done: "ensures r Q \<Longrightarrow> r = Done a \<Longrightarrow> Q a"
  by simp

section \<open>Reading and writing bytes\<close>

fun load :: "(addr \<Rightarrow> u8 option) \<Rightarrow> addr \<Rightarrow> nat \<Rightarrow> u8 list option" where
  "load c a 0 = Some []"
| "load c a (Suc n) = (case c a of
       None \<Rightarrow> None
     | Some b \<Rightarrow> map_option (\<lambda>bs. b # bs) (load c (Suc a) n))"

fun store :: "addr \<Rightarrow> u8 list \<Rightarrow> (addr \<Rightarrow> u8 option) \<Rightarrow> addr \<Rightarrow> u8 option" where
  "store a [] c = c"
| "store a (b # bs) c = (store (Suc a) bs c)(a \<mapsto> b)"

definition forget :: "addr \<Rightarrow> nat \<Rightarrow> (addr \<Rightarrow> u8 option) \<Rightarrow> addr \<Rightarrow> u8 option" where
  "forget a n c = (\<lambda>x. if a \<le> x \<and> x < a + n then None else c x)"

lemma load_cong: "(\<And>x. a \<le> x \<Longrightarrow> x < a + n \<Longrightarrow> c x = d x) \<Longrightarrow> load c a n = load d a n"
proof (induction n arbitrary: a)
  case (Suc n)
  have "load c (Suc a) n = load d (Suc a) n" by (rule Suc.IH) (simp add: Suc.prems)
  then show ?case using Suc.prems [of a] by (simp split: option.split)
qed simp

lemma store_outside: "x < a \<or> a + length bs \<le> x \<Longrightarrow> store a bs c x = c x"
  by (induction bs arbitrary: a) auto

lemma load_store [simp]: "load (store a bs c) a (length bs) = Some bs"
proof (induction bs arbitrary: a)
  case (Cons b bs)
  have "load ((store (Suc a) bs c)(a \<mapsto> b)) (Suc a) (length bs) = load (store (Suc a) bs c) (Suc a) (length bs)"
    by (rule load_cong) simp
  then show ?case using Cons [of "Suc a"] by (simp add: fun_upd_def)
qed simp

lemma store_append: "store a (xs @ ys) c = store a xs (store (a + length xs) ys c)"
  by (induction xs arbitrary: a) auto

lemma load_prefix: "load (store a (xs @ ys) c) a (length xs) = Some xs"
  by (simp add: store_append)

lemma load_length: "load c a n = Some bs \<Longrightarrow> length bs = n"
  by (induction n arbitrary: a bs) (auto split: option.splits)

lemma load_store_other:
  "b + n \<le> a \<or> a + length bs \<le> b \<Longrightarrow> load (store a bs c) b n = load c b n"
  by (rule load_cong) (auto intro: store_outside)

lemma forget_store: "length bs \<le> n \<Longrightarrow> forget a n (store a bs c) = forget a n c"
  by (rule ext) (auto simp: forget_def store_outside)

lemma forget_free: "(\<And>x. a \<le> x \<Longrightarrow> x < a + n \<Longrightarrow> c x = None) \<Longrightarrow> forget a n c = c"
  by (rule ext) (simp add: forget_def)

section \<open>Blocks\<close>

text \<open>A \<open>Vec<u8>\<close> with these bytes, in a block of \<open>cap\<close> bytes at \<open>a\<close>; the rest of the
  block is not initialised.\<close>

definition new_vec :: "addr \<Rightarrow> nat \<Rightarrow> u8 list \<Rightarrow> memory \<Rightarrow> memory" where
  "new_vec a cap bs m =
     m\<lparr>cells := store a bs (cells m), blocks := (blocks m)(a \<mapsto> cap)\<rparr>"

text \<open>Dropping the \<open>Vec\<close> that \<open>Vec::from_raw_parts\<close> makes of a pointer, a length and a
  capacity. A vector without capacity owns no block.\<close>

definition drop_vec :: "addr \<Rightarrow> nat \<Rightarrow> memory \<Rightarrow> memory c_outcome" where
  "drop_vec a cap m =
     (if cap = 0 then Done m
      else if blocks m a = Some cap then
        Done (m\<lparr>cells := forget a cap (cells m), blocks := (blocks m)(a := None)\<rparr>)
      else Undefined)"

text \<open>What the allocator promises of a fresh block: it is not null, and nothing lives in it.\<close>

definition fresh_block :: "addr \<Rightarrow> nat \<Rightarrow> memory \<Rightarrow> bool" where
  "fresh_block a cap m \<longleftrightarrow> 0 < a \<and> blocks m a = None \<and>
     (\<forall>x. a \<le> x \<longrightarrow> x < a + cap \<longrightarrow> cells m x = None)"

lemma drop_new_vec:
  assumes "fresh_block a cap m" and "length bs \<le> cap" and "bs \<noteq> []"
  shows "drop_vec a cap (new_vec a cap bs m) = Done m"
proof -
  have "forget a cap (store a bs (cells m)) = cells m"
    using assms by (simp add: forget_store fresh_block_def forget_free)
  moreover have "(blocks m)(a := None) = blocks m"
    using assms by (auto simp: fresh_block_def)
  moreover have "cap \<noteq> 0" using assms(2,3) by (cases bs) auto
  ultimately show ?thesis by (simp add: drop_vec_def new_vec_def)
qed

lemma drop_vec_slots:
  "drop_vec a cap (m\<lparr>slots := s\<rparr>) = c_then (drop_vec a cap m) (\<lambda>m. Done (m\<lparr>slots := s\<rparr>))"
  by (cases m) (simp add: drop_vec_def)

section \<open>Places for buffers\<close>

text \<open>\<open>output.write(buffer)\<close>.\<close>

definition write_slot :: "addr \<Rightarrow> ffi_buffer \<Rightarrow> memory \<Rightarrow> memory c_outcome" where
  "write_slot a b m =
     (if slots m a = None then Undefined else Done (m\<lparr>slots := (slots m)(a \<mapsto> b)\<rparr>))"

lemma write_slot_Done [simp]:
  "slots m a \<noteq> None \<Longrightarrow> write_slot a b m = Done (m\<lparr>slots := (slots m)(a \<mapsto> b)\<rparr>)"
  by (simp add: write_slot_def)

end
