(* ===== verification/Ffi_Value.thy ===== *)
theory Ffi_Value
  imports Memory Vm_Types
begin

text \<open>
  Values at the C interface, the first part of \<open>src/ffi.rs\<close>: \<open>RustScriptValue\<close> and its
  conversions (\<open>from_embedded\<close>, \<open>to_embedded\<close>), the conversions between the values of the
  wire format and those of the embedded virtual machine (\<open>repl_to_embedded\<close>,
  \<open>embedded_to_repl\<close>), and \<open>borrowed_bytes\<close>, which turns a pointer and a length into a
  slice.
\<close>

section \<open>Data\<close>

definition RUSTSCRIPT_STATUS_OK :: i32 where "RUSTSCRIPT_STATUS_OK = 0"
definition RUSTSCRIPT_STATUS_INVALID_ARGUMENT :: i32 where "RUSTSCRIPT_STATUS_INVALID_ARGUMENT = - 1"
definition RUSTSCRIPT_STATUS_INVALID_VMBC :: i32 where "RUSTSCRIPT_STATUS_INVALID_VMBC = - 2"
definition RUSTSCRIPT_STATUS_HOST_ERROR :: i32 where "RUSTSCRIPT_STATUS_HOST_ERROR = - 3"
definition RUSTSCRIPT_STATUS_OUT_OF_FUEL :: i32 where "RUSTSCRIPT_STATUS_OUT_OF_FUEL = - 4"
definition RUSTSCRIPT_STATUS_VM_ERROR :: i32 where "RUSTSCRIPT_STATUS_VM_ERROR = - 5"
definition RUSTSCRIPT_STATUS_INVALID_REPL_STATE :: i32 where "RUSTSCRIPT_STATUS_INVALID_REPL_STATE = - 6"

lemmas status_defs = RUSTSCRIPT_STATUS_OK_def RUSTSCRIPT_STATUS_INVALID_ARGUMENT_def
  RUSTSCRIPT_STATUS_INVALID_VMBC_def RUSTSCRIPT_STATUS_HOST_ERROR_def
  RUSTSCRIPT_STATUS_OUT_OF_FUEL_def RUSTSCRIPT_STATUS_VM_ERROR_def
  RUSTSCRIPT_STATUS_INVALID_REPL_STATE_def

datatype value_tag = Tag_Null | Tag_Int | Tag_Float | Tag_Bool | Tag_String | Tag_Bytes

definition tag_byte :: "value_tag \<Rightarrow> u8" where
  "tag_byte t = (case t of
     Tag_Null \<Rightarrow> 0 | Tag_Int \<Rightarrow> 1 | Tag_Float \<Rightarrow> 2 | Tag_Bool \<Rightarrow> 3 | Tag_String \<Rightarrow> 4 | Tag_Bytes \<Rightarrow> 5)"

datatype value_error = InvalidTag u8 | InvalidBool u8 | NullData | InvalidUtf8 | UnsupportedType

record ffi_value =
  tag :: u8
  boolean :: u8
  reserved :: "u8 list"
  integer :: i64
  float :: f64
  data :: addr
  len :: nat

definition null_value :: ffi_value where
  "null_value = \<lparr>tag = tag_byte Tag_Null, boolean = 0, reserved = replicate 6 0, integer = 0,
     float = 0, data = 0, len = 0\<rparr>"

section \<open>Raw slices\<close>

definition borrowed_bytes :: "memory \<Rightarrow> addr \<Rightarrow> nat \<Rightarrow> (value_error + u8 list) c_outcome" where
  "borrowed_bytes m p n =
     (if n = 0 then Done (Inr [])
      else if p = 0 then Done (Inl NullData)
      else case load (cells m) p n of None \<Rightarrow> Undefined | Some bs \<Rightarrow> Done (Inr bs))"

section \<open>Values of the machine\<close>

text \<open>\<open>as_ptr\<close> of a string or a byte vector is the place \<open>p\<close> of its bytes.\<close>

definition from_embedded :: "addr \<Rightarrow> 'c vm_value \<Rightarrow> value_error + ffi_value" where
  "from_embedded p v = (case v of
       VNull \<Rightarrow> Inr null_value
     | VInt i \<Rightarrow> Inr (null_value\<lparr>tag := tag_byte Tag_Int, integer := i\<rparr>)
     | VFloat f \<Rightarrow> Inr (null_value\<lparr>tag := tag_byte Tag_Float, float := f\<rparr>)
     | VBool b \<Rightarrow> Inr (null_value\<lparr>tag := tag_byte Tag_Bool, boolean := of_bool b\<rparr>)
     | VString s \<Rightarrow> Inr (null_value\<lparr>tag := tag_byte Tag_String, data := p, len := length s\<rparr>)
     | VBytes bs \<Rightarrow> Inr (null_value\<lparr>tag := tag_byte Tag_Bytes, data := p, len := length bs\<rparr>)
     | VArray _ \<Rightarrow> Inl UnsupportedType
     | VMap _ \<Rightarrow> Inl UnsupportedType
     | VCallable _ \<Rightarrow> Inl UnsupportedType)"

definition to_embedded :: "memory \<Rightarrow> ffi_value \<Rightarrow> (value_error + 'c vm_value) c_outcome" where
  "to_embedded m f =
     (if tag f = tag_byte Tag_Null then Done (Inr VNull)
      else if tag f = tag_byte Tag_Int then Done (Inr (VInt (integer f)))
      else if tag f = tag_byte Tag_Float then Done (Inr (VFloat (float f)))
      else if tag f = tag_byte Tag_Bool then
        Done (if boolean f = 0 then Inr (VBool False)
              else if boolean f = 1 then Inr (VBool True)
              else Inl (InvalidBool (boolean f)))
      else if tag f = tag_byte Tag_String then
        c_then (borrowed_bytes m (data f) (len f)) (\<lambda>r.
        Done (and_then r (\<lambda>bs. and_then (ok_or InvalidUtf8 (from_utf8 bs)) (\<lambda>s. Inr (VString s)))))
      else if tag f = tag_byte Tag_Bytes then
        c_then (borrowed_bytes m (data f) (len f)) (\<lambda>r.
        Done (and_then r (\<lambda>bs. Inr (VBytes bs))))
      else Done (Inl (InvalidTag (tag f))))"

section \<open>Values of the wire format\<close>

text \<open>\<open>collect::<Result<Vec<_>, _>>()\<close>.\<close>

fun collect :: "('e + 'a) list \<Rightarrow> 'e + 'a list" where
  "collect [] = Inr []"
| "collect (r # rs) = and_then r (\<lambda>a. and_then (collect rs) (\<lambda>as. Inr (a # as)))"

lemma collect_Inr: "collect rs = Inr as \<longleftrightarrow> rs = map Inr as"
proof (induction rs arbitrary: as)
  case (Cons r rs)
  then show ?case by (cases as) (auto simp: and_then_Inr)
qed auto

lemma collect_map_Inr [simp]: "collect (map (\<lambda>x. Inr (f x)) xs) = Inr (map f xs)"
  by (induction xs) simp_all

text \<open>\<open>Value::map\<close> is code of the virtual machine: \<open>mk\<close> is the list of entries it keeps.\<close>

fun repl_to_embedded :: "(('c vm_value \<times> 'c vm_value) list \<Rightarrow> ('c vm_value \<times> 'c vm_value) list)
    \<Rightarrow> repl_value \<Rightarrow> unit + 'c vm_value" where
  "repl_to_embedded mk ReplNull = Inr VNull"
| "repl_to_embedded mk (ReplInt i) = Inr (VInt i)"
| "repl_to_embedded mk (ReplFloat f) = Inr (VFloat f)"
| "repl_to_embedded mk (ReplBool b) = Inr (VBool b)"
| "repl_to_embedded mk (ReplString s) = Inr (VString s)"
| "repl_to_embedded mk (ReplBytes bs) = Inr (VBytes bs)"
| "repl_to_embedded mk (ReplArray vs) =
     and_then (collect (map (repl_to_embedded mk) vs)) (\<lambda>vs. Inr (VArray vs))"
| "repl_to_embedded mk (ReplMap es) =
     and_then (collect (map (\<lambda>(k, v). and_then (repl_to_embedded mk k) (\<lambda>k.
       and_then (repl_to_embedded mk v) (\<lambda>v. Inr (k, v)))) es)) (\<lambda>es. Inr (VMap (mk es)))"

fun embedded_to_repl :: "'c vm_value \<Rightarrow> unit + repl_value" where
  "embedded_to_repl VNull = Inr ReplNull"
| "embedded_to_repl (VInt i) = Inr (ReplInt i)"
| "embedded_to_repl (VFloat f) = Inr (ReplFloat f)"
| "embedded_to_repl (VBool b) = Inr (ReplBool b)"
| "embedded_to_repl (VString s) = Inr (ReplString s)"
| "embedded_to_repl (VBytes bs) = Inr (ReplBytes bs)"
| "embedded_to_repl (VArray vs) =
     and_then (collect (map embedded_to_repl vs)) (\<lambda>vs. Inr (ReplArray vs))"
| "embedded_to_repl (VMap es) =
     and_then (collect (map (\<lambda>(k, v). and_then (embedded_to_repl k) (\<lambda>k.
       and_then (embedded_to_repl v) (\<lambda>v. Inr (k, v)))) es)) (\<lambda>es. Inr (ReplMap es))"
| "embedded_to_repl (VCallable c) = Inl ()"

end
