(* ===== verification/Ffi_Run.thy ===== *)
theory Ffi_Run
  imports Ffi_Value
begin

text \<open>
  Running programs through the C interface, the second part of \<open>src/ffi.rs\<close>: the dispatcher
  of host calls, \<open>rustscript_run_vmbc\<close>, \<open>rustscript_repl_run_vmbc\<close> and
  \<open>rustscript_buffer_free\<close>. The virtual machine (\<open>pd_vm_nostd\<close>) and the C callback are
  parameters. What a call can change is the world: the memory, and whatever else the callback
  keeps behind \<open>user_context\<close>.
\<close>

section \<open>Host calls\<close>

record 'u world =
  mem :: memory
  user :: 'u

text \<open>The callback gets the name, the argument array and the place of the result, which holds a
  null value; it returns a status and what it left there. It is C code, so it may have no defined
  behaviour, and it may not return.\<close>

type_synonym 'u callback = "string \<Rightarrow> ffi_value list \<Rightarrow> ffi_value \<Rightarrow> 'u world
    \<Rightarrow> (i32 \<times> ffi_value \<times> 'u world) c_outcome"

datatype host_error = Host_Error string

text \<open>Arguments are borrowed: each comes with the place of its bytes.\<close>

type_synonym ('c, 'u) dispatcher = "string \<Rightarrow> ('c vm_value \<times> addr) list \<Rightarrow> 'u world
    \<Rightarrow> ((host_error + 'c vm_value option) \<times> 'u world) c_outcome"

definition dispatch_host :: "(nat \<Rightarrow> bool) \<Rightarrow> 'u callback option \<Rightarrow> ('c, 'u) dispatcher" where
  "dispatch_host reserve context name args w = (case context of
       None \<Rightarrow> Done (Inl (Host_Error ''host callback is missing''), w)
     | Some callback \<Rightarrow>
         if \<not> reserve (length args) then
           Done (Inl (Host_Error ''host argument allocation failed''), w)
         else (case collect (map (\<lambda>(v, p). from_embedded p v) args) of
             Inl _ \<Rightarrow> Done (Inl (Host_Error ''unsupported host argument''), w)
           | Inr ffi_args \<Rightarrow>
               c_then (callback name ffi_args null_value w) (\<lambda>(status, res, w').
                  if status = 0 then Done (Inr None, w')
                  else if status = 1 then
                    c_then (to_embedded (mem w') res) (\<lambda>r.
                    Done (case r of
                        Inr v \<Rightarrow> Inr (Some v)
                      | Inl _ \<Rightarrow> Inl (Host_Error ''invalid host return value''), w'))
                  else Done (Inl (Host_Error ''host callback failed''), w'))))"

section \<open>The virtual machine\<close>

text \<open>The errors of the machine that \<open>vm_status\<close> tells apart.\<close>

datatype 'x vm_error =
    OutOfFuel 'x
  | HostError host_error
  | HostCallsUnavailable 'x
  | OtherVmError 'x

text \<open>The dispatcher that \<open>Vm::with_host_dispatcher\<close> stores in the machine is the argument of
  \<open>run\<close> here. \<open>run\<close> may not return when no fuel is set. \<open>vec_block\<close> is where the allocator puts a
  finished \<open>Vec\<close> and the capacity it has, \<open>None\<close> when memory is exhausted: the panic handler
  of the firmware then spins for ever.\<close>

record ('p, 'v, 'c, 'x, 'st, 'u) device =
  decode_program :: "u8 list \<Rightarrow> 'x + 'p"
  program_local_count :: "'p \<Rightarrow> nat"
  with_host_dispatcher :: "'p \<Rightarrow> 'v"
  set_local :: "u8 \<Rightarrow> 'c vm_value \<Rightarrow> 'v \<Rightarrow> 'x vm_error + 'v"
  set_fuel :: "u64 \<Rightarrow> 'v \<Rightarrow> 'v"
  run :: "('c, 'u) dispatcher \<Rightarrow> 'v \<Rightarrow> 'u world \<Rightarrow> (('x vm_error + 'st) \<times> 'v \<times> 'u world) c_outcome"
  vm_locals :: "'v \<Rightarrow> 'c vm_value list"
  vm_stack :: "'v \<Rightarrow> 'c vm_value list"
  make_map :: "('c vm_value \<times> 'c vm_value) list \<Rightarrow> ('c vm_value \<times> 'c vm_value) list"
  machine :: target
  args_reserve :: "nat \<Rightarrow> bool"
  vec_block :: "memory \<Rightarrow> u8 list \<Rightarrow> (addr \<times> nat) option"

definition vm_status :: "'x vm_error + 'st \<Rightarrow> i32" where
  "vm_status status = (case status of
       Inr _ \<Rightarrow> RUSTSCRIPT_STATUS_OK
     | Inl (OutOfFuel _) \<Rightarrow> RUSTSCRIPT_STATUS_OUT_OF_FUEL
     | Inl (HostError _) \<Rightarrow> RUSTSCRIPT_STATUS_HOST_ERROR
     | Inl (HostCallsUnavailable _) \<Rightarrow> RUSTSCRIPT_STATUS_HOST_ERROR
     | Inl (OtherVmError _) \<Rightarrow> RUSTSCRIPT_STATUS_VM_ERROR)"

definition with_fuel :: "('p, 'v, 'c, 'x, 'st, 'u) device \<Rightarrow> u64 \<Rightarrow> 'v \<Rightarrow> 'v" where
  "with_fuel D fuel v = (if fuel \<noteq> 0 then set_fuel D fuel v else v)"

definition rustscript_run_vmbc :: "('p, 'v, 'c, 'x, 'st, 'u) device \<Rightarrow> addr \<Rightarrow> nat
    \<Rightarrow> 'u callback option \<Rightarrow> u64 \<Rightarrow> 'u world \<Rightarrow> (i32 \<times> 'u world) c_outcome" where
  "rustscript_run_vmbc D code code_len callback fuel w =
     c_then (borrowed_bytes (mem w) code code_len) (\<lambda>r. case r of
       Inl _ \<Rightarrow> Done (RUSTSCRIPT_STATUS_INVALID_ARGUMENT, w)
     | Inr bs \<Rightarrow>
         if bs = [] then Done (RUSTSCRIPT_STATUS_INVALID_ARGUMENT, w)
         else (case decode_program D bs of
             Inl _ \<Rightarrow> Done (RUSTSCRIPT_STATUS_INVALID_VMBC, w)
           | Inr p \<Rightarrow>
               c_then (run D (dispatch_host (args_reserve D) callback)
                 (with_fuel D fuel (with_host_dispatcher D p)) w) (\<lambda>(status, v, w').
               Done (vm_status status, w'))))"

section \<open>REPL snippets\<close>

text \<open>The loop that loads the locals; \<open>index as u8\<close> wraps.\<close>

fun load_locals :: "('p, 'v, 'c, 'x, 'st, 'u) device \<Rightarrow> nat \<Rightarrow> repl_value list \<Rightarrow> 'v \<Rightarrow> unit + 'v" where
  "load_locals D index [] v = Inr v"
| "load_locals D index (x # xs) v =
     and_then (repl_to_embedded (make_map D) x) (\<lambda>e.
     and_then (map_err (\<lambda>_. ()) (set_local D (of_nat index) e v)) (\<lambda>v.
     load_locals D (index + 1) xs v))"

text \<open>What the machine holds after the run, as a response.\<close>

definition read_back :: "('p, 'v, 'c, 'x, 'st, 'u) device \<Rightarrow> i32 \<Rightarrow> 'v \<Rightarrow> unit + repl_response" where
  "read_back D status v =
     and_then (collect (map embedded_to_repl (vm_locals D v))) (\<lambda>ls.
     and_then (if status = RUSTSCRIPT_STATUS_OK then
          (if vm_stack D v = [] then Inr None
           else and_then (embedded_to_repl (last (vm_stack D v))) (\<lambda>x. Inr (Some x)))
        else Inr None) (\<lambda>res.
     Inr \<lparr>locals = ls, result = res\<rparr>))"

text \<open>Handing the encoded response over in the buffer at \<open>output\<close>.\<close>

definition give_output :: "('p, 'v, 'c, 'x, 'st, 'u) device \<Rightarrow> addr \<Rightarrow> u8 list \<Rightarrow> i32 \<Rightarrow> 'u world
    \<Rightarrow> (i32 \<times> 'u world) c_outcome" where
  "give_output D output encoded status w = (case vec_block D (mem w) encoded of
       None \<Rightarrow> Diverges
     | Some (a, cap) \<Rightarrow>
         c_then (write_slot output \<lparr>buf_data = a, buf_len = length encoded, buf_capacity = cap\<rparr>
           (new_vec a cap encoded (mem w))) (\<lambda>m.
         Done (status, w\<lparr>mem := m\<rparr>)))"

text \<open>A step that ends the call with a status, or goes on.\<close>

definition or_return :: "(i32 + 'a) c_outcome \<Rightarrow> 'w \<Rightarrow> ('a \<Rightarrow> (i32 \<times> 'w) c_outcome) \<Rightarrow> (i32 \<times> 'w) c_outcome" where
  "or_return r w f = c_then r (\<lambda>r. case r of Inl status \<Rightarrow> Done (status, w) | Inr a \<Rightarrow> f a)"

lemma or_return_simps [simp]:
  "or_return Undefined w f = Undefined"
  "or_return Diverges w f = Diverges"
  "or_return (Done (Inl status)) w f = Done (status, w)"
  "or_return (Done (Inr a)) w f = f a"
  by (simp_all add: or_return_def)

text \<open>An argument that must be a nonempty slice.\<close>

definition nonempty_bytes :: "memory \<Rightarrow> addr \<Rightarrow> nat \<Rightarrow> (i32 + u8 list) c_outcome" where
  "nonempty_bytes m p n =
     c_then (borrowed_bytes m p n) (\<lambda>r. Done (case r of
         Inl _ \<Rightarrow> Inl RUSTSCRIPT_STATUS_INVALID_ARGUMENT
       | Inr bs \<Rightarrow> if bs = [] then Inl RUSTSCRIPT_STATUS_INVALID_ARGUMENT else Inr bs))"

text \<open>The program and the machine with its locals, from the bytes of the arguments.\<close>

definition load_snippet :: "('p, 'v, 'c, 'x, 'st, 'u) device \<Rightarrow> u8 list \<Rightarrow> u8 list \<Rightarrow> i32 + 'v" where
  "load_snippet D bs state_bytes =
     and_then (map_err (\<lambda>_. RUSTSCRIPT_STATUS_INVALID_VMBC) (decode_program D bs)) (\<lambda>p.
     and_then (map_err (\<lambda>_. RUSTSCRIPT_STATUS_INVALID_REPL_STATE)
       (decode_repl_state (machine D) state_bytes)) (\<lambda>ls.
     if length ls \<noteq> program_local_count D p then Inl RUSTSCRIPT_STATUS_INVALID_REPL_STATE
     else map_err (\<lambda>_. RUSTSCRIPT_STATUS_INVALID_REPL_STATE)
       (load_locals D 0 ls (with_host_dispatcher D p))))"

text \<open>The encoded response after a run.\<close>

definition encode_outcome :: "('p, 'v, 'c, 'x, 'st, 'u) device \<Rightarrow> i32 \<Rightarrow> 'v \<Rightarrow> i32 + u8 list" where
  "encode_outcome D status v =
     and_then (map_err (\<lambda>_. RUSTSCRIPT_STATUS_INVALID_REPL_STATE) (read_back D status v)) (\<lambda>response.
     map_err (\<lambda>_. RUSTSCRIPT_STATUS_INVALID_REPL_STATE) (encode_repl_response response))"

definition rustscript_repl_run_vmbc :: "('p, 'v, 'c, 'x, 'st, 'u) device \<Rightarrow> addr \<Rightarrow> nat
    \<Rightarrow> addr \<Rightarrow> nat \<Rightarrow> 'u callback option \<Rightarrow> u64 \<Rightarrow> addr \<Rightarrow> 'u world \<Rightarrow> (i32 \<times> 'u world) c_outcome" where
  "rustscript_repl_run_vmbc D code code_len state state_len callback fuel output w =
     (if output = 0 then Done (RUSTSCRIPT_STATUS_INVALID_ARGUMENT, w)
      else c_then (write_slot output empty_buffer (mem w)) (\<lambda>m. let w = w\<lparr>mem := m\<rparr> in
      or_return (nonempty_bytes (mem w) code code_len) w (\<lambda>bs.
      or_return (nonempty_bytes (mem w) state state_len) w (\<lambda>state_bytes.
      or_return (Done (load_snippet D bs state_bytes)) w (\<lambda>v.
      c_then (run D (dispatch_host (args_reserve D) callback) (with_fuel D fuel v) w) (\<lambda>(r, v, w).
      or_return (Done (encode_outcome D (vm_status r) v)) w (\<lambda>encoded.
      give_output D output encoded (vm_status r) w)))))))"

definition rustscript_buffer_free :: "ffi_buffer \<Rightarrow> memory \<Rightarrow> memory c_outcome" where
  "rustscript_buffer_free b m =
     (if buf_data b = 0 then Done m
      else if buf_capacity b < buf_len b then Done m
      else drop_vec (buf_data b) (buf_capacity b) m)"

end
