(* ===== verification/Board.thy ===== *)
theory Board
  imports Ffi_Run Crc Rust_Str
begin

text \<open>
  What the firmware (\<open>firmware/script_loader.cpp\<close>) finds on the board: the serial port, the
  clock and the SD card of the Arduino library, the flash partitions of ESP-IDF and the C heap.
  The libraries are no part of the sources, so they are parameters, records of the operations
  that the firmware calls. Each takes and returns the state of the board, \<open>'u\<close>; that is the part
  of the world which host calls change too.
\<close>

section \<open>The Arduino library\<close>

text \<open>\<open>print\<close> writes a text, \<open>println\<close> a text and the end of a line. \<open>available\<close> is the number of
  bytes that can be read, \<open>read\<close> one of them, as an \<open>int\<close>. \<open>read_bytes\<close> may return less than it is
  asked for; no bytes at all means that the timeout passed.\<close>

record 'u serial =
  serial_available :: "'u \<Rightarrow> i32 \<times> 'u"
  serial_peek :: "'u \<Rightarrow> u8 option"
  serial_read :: "'u \<Rightarrow> i32 \<times> 'u"
  serial_read_bytes :: "nat \<Rightarrow> 'u \<Rightarrow> u8 list \<times> 'u"
  serial_read_until :: "char \<Rightarrow> 'u \<Rightarrow> string \<times> 'u"
  serial_write :: "u8 list \<Rightarrow> 'u \<Rightarrow> 'u"
  serial_print :: "string \<Rightarrow> 'u \<Rightarrow> 'u"
  serial_println :: "string \<Rightarrow> 'u \<Rightarrow> 'u"
  serial_flush :: "'u \<Rightarrow> 'u"
  serial_timeout :: "'u \<Rightarrow> u32"
  serial_set_timeout :: "u32 \<Rightarrow> 'u \<Rightarrow> 'u"
  board_millis :: "'u \<Rightarrow> u32 \<times> 'u"
  board_delay :: "u32 \<Rightarrow> 'u \<Rightarrow> 'u"

text \<open>\<open>SD\<close> and \<open>File\<close>: a file that was opened has a size and may be a directory.\<close>

record sd_file =
  file_size :: nat
  file_is_directory :: bool

record 'u sd_card =
  sd_begin :: "'u \<Rightarrow> bool \<times> 'u"
  sd_open :: "string \<Rightarrow> 'u \<Rightarrow> sd_file option \<times> 'u"
  sd_read :: "nat \<Rightarrow> 'u \<Rightarrow> u8 list \<times> 'u"
  sd_close :: "'u \<Rightarrow> 'u"
  sd_end :: "'u \<Rightarrow> 'u"

section \<open>Flash partitions\<close>

text \<open>\<open>esp_partition_t\<close>, and the operations on the partition that was found; \<open>False\<close> is a status
  other than \<open>ESP_OK\<close>. A read that fails gives no bytes.\<close>

record esp_partition =
  partition_address :: u32
  partition_size :: u32

record 'u flash =
  find_partition :: "'u \<Rightarrow> esp_partition option"
  partition_read :: "nat \<Rightarrow> nat \<Rightarrow> 'u \<Rightarrow> u8 list option \<times> 'u"
  partition_erase :: "nat \<Rightarrow> nat \<Rightarrow> 'u \<Rightarrow> bool \<times> 'u"
  partition_write :: "nat \<Rightarrow> u8 list \<Rightarrow> 'u \<Rightarrow> bool \<times> 'u"

section \<open>The C heap\<close>

text \<open>\<open>std::malloc\<close> puts a block somewhere, or returns the null pointer; the bytes of a new block
  are not initialised.\<close>

definition c_malloc :: "(nat \<Rightarrow> memory \<Rightarrow> addr) \<Rightarrow> nat \<Rightarrow> memory \<Rightarrow> addr \<times> memory" where
  "c_malloc place n m = (let a = place n m in
     if a = 0 then (0, m) else (a, m\<lparr>blocks := (blocks m)(a \<mapsto> n)\<rparr>))"

definition c_free :: "addr \<Rightarrow> memory \<Rightarrow> memory c_outcome" where
  "c_free a m =
     (if a = 0 then Done m
      else case blocks m a of
          None \<Rightarrow> Undefined
        | Some n \<Rightarrow> Done (m\<lparr>cells := forget a n (cells m), blocks := (blocks m)(a := None)\<rparr>))"

text \<open>Filling a block from its start; more than the block holds is an overflow.\<close>

definition write_block :: "addr \<Rightarrow> u8 list \<Rightarrow> memory \<Rightarrow> memory c_outcome" where
  "write_block a bs m = (case blocks m a of
       None \<Rightarrow> Undefined
     | Some n \<Rightarrow> if length bs \<le> n then Done (m\<lparr>cells := store a bs (cells m)\<rparr>) else Undefined)"

text \<open>Reading through a pointer.\<close>

definition bytes_at :: "memory \<Rightarrow> addr \<Rightarrow> nat \<Rightarrow> u8 list c_outcome" where
  "bytes_at m a n = (case load (cells m) a n of None \<Rightarrow> Undefined | Some bs \<Rightarrow> Done bs)"

text \<open>What \<open>malloc\<close> promises.\<close>

definition heap_ok :: "(nat \<Rightarrow> memory \<Rightarrow> addr) \<Rightarrow> bool" where
  "heap_ok place \<longleftrightarrow> (\<forall>n m. place n m \<noteq> 0 \<longrightarrow> fresh_block (place n m) n m)"

section \<open>Lemmas\<close>

lemma c_free_null [simp]: "c_free 0 m = Done m"
  by (simp add: c_free_def)

lemma bytes_at_0 [simp]: "bytes_at m a 0 = Done []"
  by (simp add: bytes_at_def)

text \<open>A block that was allocated, filled and freed leaves nothing behind. \<open>new_vec a n bs\<close> is the
  memory with a block of \<open>n\<close> bytes at \<open>a\<close>, the first of them \<open>bs\<close>.\<close>

lemma malloc_cases:
  assumes "heap_ok place"
  obtains "c_malloc place n m = (0, m)"
  | a where "c_malloc place n m = (a, new_vec a n [] m)" "a \<noteq> 0" "fresh_block a n m"
  using assms by (cases "place n m = 0") (auto simp: c_malloc_def heap_ok_def new_vec_def Let_def)

lemma write_new_vec:
  "length bs \<le> n \<Longrightarrow> write_block a bs (new_vec a n [] m) = Done (new_vec a n bs m)"
  by (simp add: write_block_def new_vec_def)

lemma free_new_vec:
  assumes "fresh_block a n m" and "length bs \<le> n"
  shows "c_free a (new_vec a n bs m) = Done m"
proof -
  have "forget a n (store a bs (cells m)) = cells m"
    using assms by (simp add: forget_store forget_free fresh_block_def)
  moreover have "(blocks m)(a := None) = blocks m" using assms(1) by (auto simp: fresh_block_def)
  moreover have "a \<noteq> 0" using assms(1) by (simp add: fresh_block_def)
  ultimately show ?thesis by (simp add: c_free_def new_vec_def)
qed

lemma load_new_vec: "fresh_block a n m \<Longrightarrow> load (cells (new_vec a n bs m)) a (length bs) = Some bs"
  by (simp add: new_vec_def)

lemma load_defined:
  "load c p k = Some xs \<Longrightarrow> p \<le> x \<Longrightarrow> x < p + k \<Longrightarrow> c x \<noteq> None"
proof (induction k arbitrary: p xs)
  case (Suc k)
  then show ?case by (cases "p = x") (auto split: option.splits dest: Suc.IH)
qed simp

lemma load_nth: "load c a n = Some xs \<Longrightarrow> i < n \<Longrightarrow> c (a + i) = Some (xs ! i)"
proof (induction n arbitrary: a xs i)
  case (Suc n)
  then obtain b bs where b: "c a = Some b" "load c (Suc a) n = Some bs" "xs = b # bs"
    by (auto split: option.splits)
  show ?case using b Suc.IH [OF b(2)] Suc.prems(2) by (cases i) auto
qed simp

lemma fresh_apart:
  assumes "fresh_block a n m" and "load (cells m) p k = Some xs"
  shows "p + k \<le> a \<or> a + n \<le> p \<or> k = 0 \<or> n = 0"
proof (rule ccontr)
  assume apart: "\<not> (p + k \<le> a \<or> a + n \<le> p \<or> k = 0 \<or> n = 0)"
  then obtain x where x: "a \<le> x" "x < a + n" "p \<le> x" "x < p + k"
    using that [of "max a p"] by auto
  with load_defined [OF assms(2), of x] assms(1) show False by (auto simp: fresh_block_def)
qed

lemma load_new_vec_other:
  assumes "fresh_block a n m" and "length bs \<le> n" and "load (cells m) p k = Some xs"
  shows "load (cells (new_vec a n bs m)) p k = Some xs"
proof (cases "k = 0 \<or> n = 0")
  case True
  then show ?thesis using assms(2,3) by (auto simp: new_vec_def)
next
  case False
  with fresh_apart [OF assms(1,3)] assms(2,3) show ?thesis
    by (auto simp: new_vec_def load_store_other)
qed

lemma store_inside:
  "x \<in> {a..<a + length bs} \<Longrightarrow> store a bs c x = Some (bs ! (x - a))"
proof (induction bs arbitrary: a)
  case (Cons b bs)
  then show ?case by (cases "x = a") (auto simp: nth_Cons' Suc_diff_Suc)
qed simp

lemma fresh_new_vec:
  assumes "fresh_block b k (new_vec a n bs m)" and "length bs = n"
  shows "fresh_block b k m" and "b \<noteq> a" and "x \<in> {b..<b + k} \<Longrightarrow> x \<notin> {a..<a + n}"
proof -
  have old: "cells m x = None \<and> x \<notin> {a..<a + n}" if "x \<in> {b..<b + k}" for x
  proof -
    have none: "store a bs (cells m) x = None" using assms(1) that by (simp add: fresh_block_def new_vec_def)
    have "x \<notin> {a..<a + n}"
    proof
      assume x: "x \<in> {a..<a + n}"
      have "load (store a bs (cells m)) a (length bs) = Some bs" by simp
      with x none assms(2) show False
        by (metis atLeastLessThan_iff load_defined option.distinct(1))
    qed
    then show ?thesis using none assms(2) by (auto simp: store_outside)
  qed
  then show "fresh_block b k m"
    using assms(1) by (auto simp: fresh_block_def new_vec_def split: if_splits)
  show "b \<noteq> a" using assms(1) by (auto simp: fresh_block_def new_vec_def)
  show "x \<in> {b..<b + k} \<Longrightarrow> x \<notin> {a..<a + n}" using old by blast
qed

lemma fresh_new_vecI:
  assumes "fresh_block b k m" and "b \<noteq> a" and "\<And>x. x \<in> {b..<b + k} \<Longrightarrow> x \<notin> {a..<a + length xs}"
  shows "fresh_block b k (new_vec a n xs m)"
proof -
  have "store a xs (cells m) x = None" if "b \<le> x" "x < b + k" for x
    using assms(1) assms(3) [of x] that by (subst store_outside) (auto simp: fresh_block_def)
  then show ?thesis using assms(1,2) by (simp add: fresh_block_def new_vec_def)
qed

text \<open>Freeing a block below another one.\<close>

lemma free_under:
  assumes "c_free a m = Done m'" and "a \<noteq> 0" and "blocks m a = Some n" and "load (cells m) a n = Some xs"
    and "fresh_block c cap m" and "length zs \<le> cap"
  shows "c_free a (new_vec c cap zs m) = Done (new_vec c cap zs m')"
proof -
  have apart: "x \<notin> {a..<a + n}" if "x \<in> {c..<c + cap}" for x
    using fresh_apart [OF assms(5,4)] that by auto
  have "forget a n (store c zs (cells m)) = store c zs (forget a n (cells m))"
  proof
    fix x
    show "forget a n (store c zs (cells m)) x = store c zs (forget a n (cells m)) x"
    proof (cases "x \<in> {c..<c + length zs}")
      case True
      then show ?thesis using apart [of x] assms(6) by (auto simp: forget_def store_inside)
    next
      case False
      then have "x < c \<or> c + length zs \<le> x" by auto
      then show ?thesis by (simp add: forget_def store_outside)
    qed
  qed
  moreover have "c \<noteq> a" using assms(3,5) by (auto simp: fresh_block_def)
  moreover have "m' = m\<lparr>cells := forget a n (cells m), blocks := (blocks m)(a := None)\<rparr>"
    using assms(1-3) by (simp add: c_free_def)
  ultimately show ?thesis using assms(2,3) by (simp add: c_free_def new_vec_def fun_upd_twist)
qed

lemma free_two:
  assumes "fresh_block a (length xs) m" and "fresh_block b (length ys) (new_vec a (length xs) xs m)"
  shows "c_free a (new_vec b (length ys) ys (new_vec a (length xs) xs m)) = Done (new_vec b (length ys) ys m)"
    and "c_free b (new_vec b (length ys) ys m) = Done m"
proof -
  show "c_free b (new_vec b (length ys) ys m) = Done m"
    by (rule free_new_vec [OF fresh_new_vec(1) [OF assms(2) refl]]) simp
  show "c_free a (new_vec b (length ys) ys (new_vec a (length xs) xs m)) = Done (new_vec b (length ys) ys m)"
    by (rule free_under [OF free_new_vec [OF assms(1)] _ _ load_new_vec [OF assms(1)] assms(2)])
      (use assms(1) in \<open>simp_all add: fresh_block_def new_vec_def\<close>)
qed

text \<open>Three blocks, freed in the order of the firmware: the one on top can still be read after the
  others are gone, and at the end the memory is what it was.\<close>

lemma free_three:
  fixes m :: memory and a b c :: addr and cap :: nat and xs ys zs :: "u8 list"
  defines "m2 \<equiv> new_vec b (length ys) ys (new_vec a (length xs) xs m)"
  assumes fresh: "fresh_block a (length xs) m" "fresh_block b (length ys) (new_vec a (length xs) xs m)"
      "fresh_block c cap m2"
    and len: "length zs \<le> cap" "zs \<noteq> []"
  shows "c_free a (new_vec c cap zs m2) = Done (new_vec c cap zs (new_vec b (length ys) ys m))"
    and "c_free b (new_vec c cap zs (new_vec b (length ys) ys m)) = Done (new_vec c cap zs m)"
    and "drop_vec c cap (new_vec c cap zs m) = Done m"
proof -
  note fb = fresh_new_vec [OF fresh(2) refl] and fc = fresh_new_vec [OF fresh(3) [unfolded m2_def] refl]
  note fm = fresh_new_vec [OF fc(1) refl]
  have nz: "a \<noteq> 0" "b \<noteq> 0" using fresh(1) fb(1) by (simp_all add: fresh_block_def)
  have fcb: "fresh_block c cap (new_vec b (length ys) ys m)"
    by (rule fresh_new_vecI [OF fm(1) fc(2)]) (rule fc(3))
  show "c_free a (new_vec c cap zs m2) = Done (new_vec c cap zs (new_vec b (length ys) ys m))"
    unfolding m2_def
    by (rule free_under [OF free_two(1) [OF fresh(1,2)] nz(1) _ _ fresh(3) [unfolded m2_def] len(1)])
      (use fb(2) load_new_vec_other [OF fresh(2) _ load_new_vec [OF fresh(1)]] in \<open>auto simp: new_vec_def\<close>)
  show "c_free b (new_vec c cap zs (new_vec b (length ys) ys m)) = Done (new_vec c cap zs m)"
    by (rule free_under [OF free_two(2) [OF fresh(1,2)] nz(2) _ load_new_vec [OF fb(1)] fcb len(1)])
      (simp add: new_vec_def)
  show "drop_vec c cap (new_vec c cap zs m) = Done m" by (rule drop_new_vec [OF fm(1) len])
qed

end
