(* ===== verification/Firmware.thy ===== *)
theory Firmware
  imports Board
begin

text \<open>
  The script loader and serial REPL of the firmware, \<open>firmware/script_loader.cpp\<close>, and the
  boot sequence of \<open>firmware/main.cpp\<close>. Every function that touches memory returns a
  \<open>c_outcome\<close>; the \<open>while (true)\<close> of the REPL is one round, \<open>repl_round\<close>, done again and again.
  Words are those of the target: \<open>unsigned long\<close> and \<open>size_t\<close> have 32 bits, and
  \<open>memcpy\<close> from and to a frame is little-endian.
\<close>

section \<open>Constants\<close>

definition REPL_REQUEST_MAGIC_C :: "u8 list" where
  "REPL_REQUEST_MAGIC_C = as_bytes ''RSSQ''"

definition REPL_RESPONSE_MAGIC_C :: "u8 list" where
  "REPL_RESPONSE_MAGIC_C = as_bytes ''RSSP''"

definition REPL_FRAME_VERSION :: u16 where
  "REPL_FRAME_VERSION = 1"

definition REPL_FRAME_HEADER_SIZE :: nat where
  "REPL_FRAME_HEADER_SIZE = 24"

definition REPL_MAX_FRAME_SIZE :: u32 where
  "REPL_MAX_FRAME_SIZE = 128 * 1024"

definition SCRIPT_IMAGE_MAGIC :: "u8 list" where
  "SCRIPT_IMAGE_MAGIC = as_bytes ''RSSVMBC'' @ [0]"

definition SCRIPT_IMAGE_VERSION :: u32 where
  "SCRIPT_IMAGE_VERSION = 1"

definition IMAGE_HEADER_SIZE :: nat where
  "IMAGE_HEADER_SIZE = 20"

definition RUSTSCRIPT_SD_PATH :: string where
  "RUSTSCRIPT_SD_PATH = ''/rustscript/main.vmbc''"

definition REPL_FUEL :: u64 where
  "REPL_FUEL = 1000000"

text \<open>The firmware: what it is linked with, the host functions it offers to scripts, and the place
  of the local variable \<open>output\<close>.\<close>

record ('p, 'v, 'c, 'x, 'st, 'u) firmware =
  fw_device :: "('p, 'v, 'c, 'x, 'st, 'u) device"
  fw_dispatch :: "'u callback"
  fw_serial :: "'u serial"
  fw_flash :: "'u flash"
  fw_sd :: "'u sd_card"
  fw_place :: "nat \<Rightarrow> memory \<Rightarrow> addr"
  fw_output :: addr

section \<open>Checksums\<close>

text \<open>The inner loop of \<open>rustscript_crc32\<close>, \<open>n\<close> bits of it, and the outer one.\<close>

fun crc_bits_c :: "nat \<Rightarrow> u32 \<Rightarrow> u32" where
  "crc_bits_c 0 crc = crc"
| "crc_bits_c (Suc n) crc =
     (let mask = 0 - (crc AND 1) in crc_bits_c n (drop_bit 1 crc XOR (0xedb88320 AND mask)))"

fun crc_bytes_c :: "u32 \<Rightarrow> u8 list \<Rightarrow> u32" where
  "crc_bytes_c crc [] = crc"
| "crc_bytes_c crc (b # bs) = crc_bytes_c (crc_bits_c 8 (crc XOR ucast b)) bs"

definition rustscript_crc32 :: "u8 list \<Rightarrow> u32" where
  "rustscript_crc32 bs = NOT (crc_bytes_c 0xffffffff bs)"

definition repl_request_crc :: "u8 list \<Rightarrow> u8 list \<Rightarrow> u32" where
  "repl_request_crc prog state =
     (let state_crc = rustscript_crc32 state
      in rustscript_crc32 prog XOR (push_bit 1 state_crc OR drop_bit 31 state_crc))"

section \<open>Receiving\<close>

text \<open>The loop of \<open>read_serial_payload\<close>: how many bytes are left to read, whether they came, and
  the bytes that did.\<close>

function fill_payload :: "'u serial \<Rightarrow> nat \<Rightarrow> 'u \<Rightarrow> bool \<times> u8 list \<times> 'u" where
  "fill_payload S n u =
     (if n = 0 then (True, [], u)
      else case serial_read_bytes S n u of (bs, u') \<Rightarrow>
        if bs = [] then (False, [], u')
        else case fill_payload S (n - length bs) u' of (ok, cs, u'') \<Rightarrow> (ok, bs @ cs, u''))"
  by pat_completeness auto
termination by (relation "measure (\<lambda>(S, n, u). n)") auto

declare fill_payload.simps [simp del]

definition read_serial_payload :: "'u serial \<Rightarrow> nat \<Rightarrow> 'u \<Rightarrow> bool \<times> u8 list \<times> 'u" where
  "read_serial_payload S n u =
     (let previous_timeout = serial_timeout S u in
      case fill_payload S n (serial_set_timeout S 10000 u) of (ok, bs, u) \<Rightarrow>
        (ok, bs, serial_set_timeout S previous_timeout u))"

text \<open>A buffer with \<open>len\<close> bytes from the line, or the null pointer.\<close>

definition read_serial_binary :: "('p, 'v, 'c, 'x, 'st, 'u) firmware \<Rightarrow> nat \<Rightarrow> 'u world
    \<Rightarrow> (addr \<times> 'u world) c_outcome" where
  "read_serial_binary F n w =
     (if n = 0 then Done (0, w)
      else case c_malloc (fw_place F) n (mem w) of (buffer, m) \<Rightarrow>
        if buffer = 0 then Done (0, w\<lparr>mem := m\<rparr>)
        else case read_serial_payload (fw_serial F) n (user w) of (ok, bs, u) \<Rightarrow>
          c_then (write_block buffer bs m) (\<lambda>m.
          if ok then Done (buffer, w\<lparr>mem := m, user := u\<rparr>)
          else c_then (c_free buffer m) (\<lambda>m.
            Done (0, w\<lparr>mem := m, user := serial_println (fw_serial F) ''rss:error=payload-timeout'' u\<rparr>))))"

text \<open>\<open>discard_serial_until_quiet\<close>; \<open>None\<close> is not returning, when the line never falls silent.\<close>

partial_function (option) discard_loop :: "'u serial \<Rightarrow> u32 \<Rightarrow> 'u \<Rightarrow> 'u option" where
  "discard_loop S quiet_since u =
     (case board_millis S u of (now, u) \<Rightarrow>
        if now - quiet_since < 50 then
          (case serial_available S u of (waiting, u) \<Rightarrow>
             if waiting \<noteq> 0 then
               (case board_millis S (snd (serial_read S u)) of (now, u) \<Rightarrow> discard_loop S now u)
             else discard_loop S quiet_since (board_delay S 1 u))
        else Some u)"

definition discard_serial_until_quiet :: "'u serial \<Rightarrow> 'u world \<Rightarrow> 'u world c_outcome" where
  "discard_serial_until_quiet S w =
     (case board_millis S (user w) of (now, u) \<Rightarrow>
        (case discard_loop S now u of None \<Rightarrow> Diverges | Some u \<Rightarrow> Done (w\<lparr>user := u\<rparr>)))"

section \<open>Frames\<close>

definition write_repl_response :: "'u serial \<Rightarrow> u32 \<Rightarrow> i32 \<Rightarrow> addr \<Rightarrow> nat \<Rightarrow> 'u world
    \<Rightarrow> 'u world c_outcome" where
  "write_repl_response S request_id status p n w =
     c_then (bytes_at (mem w) p n) (\<lambda>bs.
     let header = REPL_RESPONSE_MAGIC_C @ u16_bytes REPL_FRAME_VERSION @ [0, 0] @ u32_bytes request_id
           @ u32_bytes status @ u32_bytes (of_nat n) @ u32_bytes (rustscript_crc32 bs);
         u = serial_write S header (user w);
         u = (if 0 < n then serial_write S bs u else u)
     in Done (w\<lparr>user := serial_flush S u\<rparr>))"

definition refuse_frame :: "'u serial \<Rightarrow> u32 \<Rightarrow> 'u world \<Rightarrow> 'u world c_outcome" where
  "refuse_frame S request_id w =
     c_then (discard_serial_until_quiet S w)
       (write_repl_response S request_id RUSTSCRIPT_STATUS_INVALID_ARGUMENT 0 0)"

definition free_at :: "addr \<Rightarrow> 'u world \<Rightarrow> 'u world c_outcome" where
  "free_at a w = c_then (c_free a (mem w)) (\<lambda>m. Done (w\<lparr>mem := m\<rparr>))"

text \<open>The call of the C interface, with \<open>output\<close> in scope, and the answer.\<close>

definition run_frame :: "('p, 'v, 'c, 'x, 'st, 'u) firmware \<Rightarrow> u32 \<Rightarrow> addr \<Rightarrow> nat \<Rightarrow> addr \<Rightarrow> nat
    \<Rightarrow> 'u world \<Rightarrow> 'u world c_outcome" where
  "run_frame F request_id prog program_len state state_len w =
     (let output = fw_output F;
          w = w\<lparr>mem := (mem w)\<lparr>slots := (slots (mem w))(output \<mapsto> empty_buffer)\<rparr>\<rparr>
      in c_then (rustscript_repl_run_vmbc (fw_device F) prog program_len state state_len
           (Some (fw_dispatch F)) REPL_FUEL output w) (\<lambda>(status, w).
         c_then (free_at prog w) (\<lambda>w.
         c_then (free_at state w) (\<lambda>w.
         case slots (mem w) output of
           None \<Rightarrow> Undefined
         | Some b \<Rightarrow>
             c_then (write_repl_response (fw_serial F) request_id status (buf_data b) (buf_len b) w) (\<lambda>w.
             c_then (if 0 < buf_len b then rustscript_buffer_free b (mem w) else Done (mem w)) (\<lambda>m.
             Done (w\<lparr>mem := m\<lparr>slots := (slots m)(output := None)\<rparr>\<rparr>)))))))"

text \<open>The branch of \<open>rustscript_repl_source\<close> for a binary frame.\<close>

definition frame_header_bad :: "u8 list \<Rightarrow> bool" where
  "frame_header_bad h \<longleftrightarrow> take 4 h \<noteq> REPL_REQUEST_MAGIC_C \<or> from_le (slice 4 6 h) \<noteq> REPL_FRAME_VERSION"

definition frame_sizes_bad :: "u32 \<Rightarrow> u32 \<Rightarrow> bool" where
  "frame_sizes_bad program_len state_len \<longleftrightarrow>
     program_len = 0 \<or> state_len = 0 \<or> REPL_MAX_FRAME_SIZE < program_len \<or> REPL_MAX_FRAME_SIZE < state_len
     \<or> REPL_MAX_FRAME_SIZE - state_len < program_len"

text \<open>Once both parts are in memory; once the program is; and from the start.\<close>

definition serve_loaded :: "('p, 'v, 'c, 'x, 'st, 'u) firmware \<Rightarrow> u32 \<Rightarrow> u32 \<Rightarrow> addr \<Rightarrow> nat \<Rightarrow> addr \<Rightarrow> nat
    \<Rightarrow> 'u world \<Rightarrow> 'u world c_outcome" where
  "serve_loaded F request_id expected_crc prog program_len state state_len w =
     c_then (bytes_at (mem w) prog program_len) (\<lambda>ps.
     c_then (bytes_at (mem w) state state_len) (\<lambda>ss.
     if repl_request_crc ps ss \<noteq> expected_crc then
       c_then (free_at prog w) (\<lambda>w.
       c_then (free_at state w)
         (write_repl_response (fw_serial F) request_id RUSTSCRIPT_STATUS_INVALID_REPL_STATE 0 0))
     else run_frame F request_id prog program_len state state_len w))"

definition serve_state :: "('p, 'v, 'c, 'x, 'st, 'u) firmware \<Rightarrow> u32 \<Rightarrow> u32 \<Rightarrow> addr \<Rightarrow> nat \<Rightarrow> nat
    \<Rightarrow> 'u world \<Rightarrow> 'u world c_outcome" where
  "serve_state F request_id expected_crc prog program_len state_len w =
     c_then (read_serial_binary F state_len w) (\<lambda>(state, w).
     if state = 0 then c_then (free_at prog w) (refuse_frame (fw_serial F) request_id)
     else serve_loaded F request_id expected_crc prog program_len state state_len w)"

definition serve_frame :: "('p, 'v, 'c, 'x, 'st, 'u) firmware \<Rightarrow> 'u world \<Rightarrow> 'u world c_outcome" where
  "serve_frame F w =
     (case read_serial_payload (fw_serial F) REPL_FRAME_HEADER_SIZE (user w) of (ok, h, u) \<Rightarrow>
        let w = w\<lparr>user := u\<rparr>;
            request_id = from_le (slice 8 12 h);
            program_len = from_le (slice 12 16 h);
            state_len = from_le (slice 16 20 h);
            expected_crc = from_le (slice 20 24 h);
            refuse = refuse_frame (fw_serial F) request_id
        in if \<not> ok then Done w
           else if frame_header_bad h \<or> frame_sizes_bad program_len state_len then refuse w
           else c_then (read_serial_binary F (unat program_len) w) (\<lambda>(prog, w).
             if prog = 0 then refuse w
             else serve_state F request_id expected_crc prog (unat program_len) (unat state_len) w))"

section \<open>The script partition\<close>

text \<open>\<open>ScriptImageHeader\<close> is packed: what is read and written are its 20 bytes.\<close>

record image_header =
  image_magic :: "u8 list"
  image_version :: u32
  payload_len :: u32
  image_crc32 :: u32

definition header_of_bytes :: "u8 list \<Rightarrow> image_header" where
  "header_of_bytes h = \<lparr>image_magic = take 8 h, image_version = from_le (slice 8 12 h),
     payload_len = from_le (slice 12 16 h), image_crc32 = from_le (slice 16 20 h)\<rparr>"

definition header_to_bytes :: "image_header \<Rightarrow> u8 list" where
  "header_to_bytes h = image_magic h @ u32_bytes (image_version h) @ u32_bytes (payload_len h)
     @ u32_bytes (image_crc32 h)"

definition header_valid :: "image_header \<Rightarrow> u32 \<Rightarrow> bool" where
  "header_valid h partition_len \<longleftrightarrow> image_magic h = SCRIPT_IMAGE_MAGIC \<and> image_version h = SCRIPT_IMAGE_VERSION
     \<and> payload_len h \<noteq> 0 \<and> payload_len h \<le> partition_len - of_nat IMAGE_HEADER_SIZE"

text \<open>A program in memory, \<open>RustScriptImage\<close>.\<close>

record script_image =
  image_data :: addr
  image_len :: nat
  image_source :: string

text \<open>The end of both loaders: the block is handed over, or freed.\<close>

definition keep_image :: "bool \<Rightarrow> addr \<Rightarrow> nat \<Rightarrow> string \<Rightarrow> 'u world \<Rightarrow> (script_image option \<times> 'u world) c_outcome" where
  "keep_image good a n source w =
     (if good then Done (Some \<lparr>image_data = a, image_len = n, image_source = source\<rparr>, w)
      else c_then (free_at a w) (\<lambda>w. Done (None, w)))"

definition load_payload :: "('p, 'v, 'c, 'x, 'st, 'u) firmware \<Rightarrow> nat \<Rightarrow> u32 \<Rightarrow> 'u world
    \<Rightarrow> (script_image option \<times> 'u world) c_outcome" where
  "load_payload F n crc w =
     (case c_malloc (fw_place F) n (mem w) of (a, m) \<Rightarrow>
        if a = 0 then Done (None, w\<lparr>mem := m\<rparr>)
        else case partition_read (fw_flash F) IMAGE_HEADER_SIZE n (user w) of (r, u) \<Rightarrow>
          c_then (case r of None \<Rightarrow> Done m | Some bs \<Rightarrow> write_block a bs m) (\<lambda>m.
          keep_image (map_option rustscript_crc32 r = Some crc) a n ''flash:rustscript''
            (w\<lparr>mem := m, user := u\<rparr>)))"

definition rustscript_load_partition :: "('p, 'v, 'c, 'x, 'st, 'u) firmware \<Rightarrow> 'u world
    \<Rightarrow> (script_image option \<times> 'u world) c_outcome" where
  "rustscript_load_partition F w =
     (case find_partition (fw_flash F) (user w) of
        None \<Rightarrow> Done (None, w)
      | Some part \<Rightarrow>
          if partition_size part \<le> of_nat IMAGE_HEADER_SIZE then Done (None, w)
          else case partition_read (fw_flash F) 0 IMAGE_HEADER_SIZE (user w) of (r, u) \<Rightarrow>
            let w = w\<lparr>user := u\<rparr> in
            (case map_option header_of_bytes r of
               None \<Rightarrow> Done (None, w)
             | Some header \<Rightarrow>
                 if header_valid header (partition_size part) then
                   load_payload F (unat (payload_len header)) (image_crc32 header) w
                 else Done (None, w)))"

text \<open>Erase, write the header, write the payload; \<open>&&\<close> stops at the first failure. \<open>data\<close> is never
  null here.\<close>

definition rustscript_install_partition :: "'u flash \<Rightarrow> u8 list \<Rightarrow> 'u \<Rightarrow> bool \<times> 'u" where
  "rustscript_install_partition X bs u =
     (case find_partition X u of
        None \<Rightarrow> (False, u)
      | Some part \<Rightarrow>
          if bs = [] \<or> unat (partition_size part - of_nat IMAGE_HEADER_SIZE) < length bs then (False, u)
          else
            (let header = \<lparr>image_magic = SCRIPT_IMAGE_MAGIC, image_version = SCRIPT_IMAGE_VERSION,
                   payload_len = of_nat (length bs), image_crc32 = rustscript_crc32 bs\<rparr>
             in case partition_erase X 0 (unat (partition_size part)) u of
                  (False, u) \<Rightarrow> (False, u)
                | (True, u) \<Rightarrow>
                    (case partition_write X 0 (header_to_bytes header) u of
                       (False, u) \<Rightarrow> (False, u)
                     | (True, u) \<Rightarrow> partition_write X IMAGE_HEADER_SIZE bs u)))"

definition rustscript_load_sd :: "('p, 'v, 'c, 'x, 'st, 'u) firmware \<Rightarrow> 'u world
    \<Rightarrow> (script_image option \<times> 'u world) c_outcome" where
  "rustscript_load_sd F w =
     (let S = fw_sd F;
          closed = (\<lambda>u. sd_end S (sd_close S u))
      in case sd_begin S (user w) of
           (False, u) \<Rightarrow> Done (None, w\<lparr>user := u\<rparr>)
         | (True, u) \<Rightarrow>
             (case sd_open S RUSTSCRIPT_SD_PATH u of
                (None, u) \<Rightarrow> Done (None, w\<lparr>user := sd_end S u\<rparr>)
              | (Some file, u) \<Rightarrow>
                  if file_is_directory file \<or> file_size file = 0 then Done (None, w\<lparr>user := closed u\<rparr>)
                  else case c_malloc (fw_place F) (file_size file) (mem w) of (a, m) \<Rightarrow>
                    if a = 0 then Done (None, w\<lparr>mem := m, user := closed u\<rparr>)
                    else case sd_read S (file_size file) u of (bs, u) \<Rightarrow>
                      c_then (write_block a bs m) (\<lambda>m.
                      keep_image (length bs = file_size file) a (file_size file)
                        ''sd:/rustscript/main.vmbc'' (w\<lparr>mem := m, user := closed u\<rparr>))))"

definition rustscript_free_image :: "script_image \<Rightarrow> 'u world \<Rightarrow> 'u world c_outcome" where
  "rustscript_free_image img w = free_at (image_data img) w"

section \<open>Commands\<close>

text \<open>C strings end at the first zero byte. \<open>isspace\<close>, and \<open>String.trim()\<close> over it.\<close>

definition c_str :: "string \<Rightarrow> string" where
  "c_str s = takeWhile (\<lambda>c. c \<noteq> char_of (0 :: nat)) s"

definition c_isspace :: "char \<Rightarrow> bool" where
  "c_isspace c \<longleftrightarrow> c = CHR '' '' \<or> (of_char c :: nat) \<in> {9..13}"

definition c_trim :: "string \<Rightarrow> string" where
  "c_trim s = rev (dropWhile c_isspace (rev (dropWhile c_isspace s)))"

text \<open>\<open>strtoul\<close>: the value, and the rest of the text; when there are no digits the rest is all of
  it. A value that does not fit is \<open>ULONG_MAX\<close>, a minus sign negates modulo \<open>2 ^ 32\<close>.\<close>

definition c_digit :: "char \<Rightarrow> nat" where
  "c_digit c = (let n = of_char c in
     if 48 \<le> n \<and> n \<le> 57 then n - 48
     else if 97 \<le> n \<and> n \<le> 122 then n - 87
     else if 65 \<le> n \<and> n \<le> 90 then n - 55
     else 36)"

definition digits_value :: "nat \<Rightarrow> string \<Rightarrow> nat" where
  "digits_value base ds = foldl (\<lambda>v c. base * v + c_digit c) 0 ds"

definition c_sign :: "string \<Rightarrow> bool \<times> string" where
  "c_sign s = (case s of [] \<Rightarrow> (False, [])
     | c # cs \<Rightarrow> if c = CHR ''-'' then (True, cs) else if c = CHR ''+'' then (False, cs) else (False, s))"

definition c_prefix :: "nat \<Rightarrow> string \<Rightarrow> string" where
  "c_prefix base s = (case s of
       z # x # d # cs \<Rightarrow>
         if base = 16 \<and> z = CHR ''0'' \<and> x \<in> {CHR ''x'', CHR ''X''} \<and> c_digit d < base then d # cs else s
     | _ \<Rightarrow> s)"

definition strtoul :: "nat \<Rightarrow> string \<Rightarrow> nat \<times> string" where
  "strtoul base input =
     (case c_sign (dropWhile c_isspace input) of (negative, s) \<Rightarrow>
        let s = c_prefix base s;
            ds = takeWhile (\<lambda>c. c_digit c < base) s;
            v = digits_value base ds
        in if ds = [] then (0, input)
           else (if 2 ^ 32 \<le> v then 2 ^ 32 - 1 else if negative then (2 ^ 32 - v) mod 2 ^ 32 else v,
             drop (length ds) s))"

definition parse_transfer_command :: "string \<Rightarrow> string \<Rightarrow> (nat \<times> u32) option" where
  "parse_transfer_command line command =
     (let prefix_len = length command in
      if \<not> starts_with line command \<or> length line \<le> prefix_len \<or> line ! prefix_len \<noteq> CHR '' '' then None
      else
        (let input = c_str (drop (prefix_len + 1) line) in
         case strtoul 10 input of (parsed_len, rest1) \<Rightarrow>
           if rest1 = input \<or> take 1 rest1 \<noteq> '' '' \<or> parsed_len = 0 then None
           else
             (case strtoul 16 (tl rest1) of (parsed_crc, rest2) \<Rightarrow>
                if rest2 = tl rest1 \<or> rest2 \<noteq> '''' then None
                else Some (parsed_len, of_nat parsed_crc))))"

text \<open>Numbers as \<open>Print\<close> shows them, in decimal with a sign and in upper case hexadecimal.\<close>

fun radix_text :: "nat \<Rightarrow> nat \<Rightarrow> string" where
  "radix_text base n =
     (if base < 2 \<or> n < base then [digit n] else radix_text base (n div base) @ [digit (n mod base)])"

declare radix_text.simps [simp del]

definition hex_upper :: "u32 \<Rightarrow> string" where
  "hex_upper n = map (\<lambda>c. if c \<in> set ''abcdef'' then char_of (of_char c - 32 :: nat) else c) (radix_text 16 (unat n))"

definition print_lines :: "'u serial \<Rightarrow> string list \<Rightarrow> 'u \<Rightarrow> 'u" where
  "print_lines S ls u = fold (serial_println S) ls u"

definition print_repl_help :: "'u serial \<Rightarrow> 'u \<Rightarrow> 'u" where
  "print_repl_help S = print_lines S
     [''rss:VMBC REPL ready'',
      ''rss:load <length> <crc32-hex>   run one VMBC payload'',
      ''rss:install <length> <crc32-hex> write and run the script partition'',
      ''rss:run                          run the script partition'',
      ''rss:info                         show partition information'',
      ''rss:help'']"

definition say :: "('p, 'v, 'c, 'x, 'st, 'u) firmware \<Rightarrow> string \<Rightarrow> 'u world \<Rightarrow> 'u world" where
  "say F line w = w\<lparr>user := serial_println (fw_serial F) line (user w)\<rparr>"

definition run_repl_payload :: "('p, 'v, 'c, 'x, 'st, 'u) firmware \<Rightarrow> addr \<Rightarrow> nat \<Rightarrow> 'u world
    \<Rightarrow> 'u world c_outcome" where
  "run_repl_payload F p n w =
     c_then (rustscript_run_vmbc (fw_device F) p n (Some (fw_dispatch F)) REPL_FUEL w) (\<lambda>(status, w).
     Done (w\<lparr>user := serial_println (fw_serial F) (show_int (sint status))
       (serial_print (fw_serial F) ''rss:status='' (user w))\<rparr>))"

text \<open>The second half, once the payload is in memory, and all of it. Every path frees the payload.\<close>

definition accept_payload :: "('p, 'v, 'c, 'x, 'st, 'u) firmware \<Rightarrow> addr \<Rightarrow> nat \<Rightarrow> u32 \<Rightarrow> bool \<Rightarrow> 'u world
    \<Rightarrow> 'u world c_outcome" where
  "accept_payload F payload n expected_crc install w =
     c_then (bytes_at (mem w) payload n) (\<lambda>bs.
     let actual_crc = rustscript_crc32 bs in
     if actual_crc \<noteq> expected_crc then
       free_at payload (say F (hex_upper actual_crc)
         (w\<lparr>user := serial_print (fw_serial F) ''rss:error=crc-mismatch actual='' (user w)\<rparr>))
     else case (if install then rustscript_install_partition (fw_flash F) bs (user w) else (True, user w)) of
       (installed, u) \<Rightarrow>
         let w = w\<lparr>user := u\<rparr> in
         if \<not> installed then free_at payload (say F ''rss:error=partition-write-failed'' w)
         else c_then (run_repl_payload F payload n
             (say F (if install then ''rss:installed'' else ''rss:loaded'') w))
           (free_at payload))"

definition receive_repl_payload :: "('p, 'v, 'c, 'x, 'st, 'u) firmware \<Rightarrow> nat \<Rightarrow> u32 \<Rightarrow> bool \<Rightarrow> 'u world
    \<Rightarrow> 'u world c_outcome" where
  "receive_repl_payload F n expected_crc install w =
     (let maximum = (case find_partition (fw_flash F) (user w) of
            None \<Rightarrow> 0 | Some part \<Rightarrow> unat (partition_size part - of_nat IMAGE_HEADER_SIZE))
      in if maximum < n then Done (say F ''rss:error=payload-too-large'' w)
         else case c_malloc (fw_place F) n (mem w) of (payload, m) \<Rightarrow>
           if payload = 0 then Done (say F ''rss:error=allocation-failed'' (w\<lparr>mem := m\<rparr>))
           else case read_serial_payload (fw_serial F) n (serial_println (fw_serial F) ''rss:ready'' (user w)) of
             (ok, bs, u) \<Rightarrow>
               c_then (write_block payload bs m) (\<lambda>m.
               let w = w\<lparr>mem := m, user := u\<rparr> in
               if \<not> ok then free_at payload (say F ''rss:error=transfer-timeout'' w)
               else accept_payload F payload n expected_crc install w))"

definition run_command :: "('p, 'v, 'c, 'x, 'st, 'u) firmware \<Rightarrow> 'u world \<Rightarrow> 'u world c_outcome" where
  "run_command F w =
     c_then (rustscript_load_partition F w) (\<lambda>(r, w). case r of
       Some img \<Rightarrow> c_then (run_repl_payload F (image_data img) (image_len img) w) (rustscript_free_image img)
     | None \<Rightarrow> Done (say F ''rss:error=no-partition-script'' w))"

definition info_text :: "esp_partition \<Rightarrow> string" where
  "info_text part = ''rss:partition offset=0x'' @ radix_text 16 (unat (partition_address part))
     @ '' size='' @ radix_text 10 (unat (partition_size part)) @ [char_of (10 :: nat)]"

definition info_command :: "('p, 'v, 'c, 'x, 'st, 'u) firmware \<Rightarrow> 'u world \<Rightarrow> 'u world" where
  "info_command F w = (case find_partition (fw_flash F) (user w) of
       None \<Rightarrow> say F ''rss:partition=missing'' w
     | Some part \<Rightarrow> w\<lparr>user := serial_print (fw_serial F) (info_text part) (user w)\<rparr>)"

text \<open>The text branch of \<open>rustscript_repl_source\<close>; a line of blanks is ignored.\<close>

definition serve_line :: "('p, 'v, 'c, 'x, 'st, 'u) firmware \<Rightarrow> string \<Rightarrow> 'u world \<Rightarrow> 'u world c_outcome" where
  "serve_line F line w =
     (if line = '''' then Done w
      else case parse_transfer_command line ''load'' of
        Some (n, crc) \<Rightarrow> receive_repl_payload F n crc False w
      | None \<Rightarrow>
          (case parse_transfer_command line ''install'' of
             Some (n, crc) \<Rightarrow> receive_repl_payload F n crc True w
           | None \<Rightarrow>
               if c_str line = ''run'' then run_command F w
               else if c_str line = ''info'' then Done (info_command F w)
               else if c_str line = ''help'' then Done (w\<lparr>user := print_repl_help (fw_serial F) (user w)\<rparr>)
               else Done (say F ''rss:error=unknown-command'' w)))"

section \<open>The loop\<close>

definition repl_round :: "('p, 'v, 'c, 'x, 'st, 'u) firmware \<Rightarrow> 'u world \<Rightarrow> 'u world c_outcome" where
  "repl_round F w =
     (case serial_available (fw_serial F) (user w) of (waiting, u) \<Rightarrow>
        if waiting = 0 then Done (w\<lparr>user := board_delay (fw_serial F) 10 u\<rparr>)
        else if serial_peek (fw_serial F) u = Some (of_char CHR ''R'') then serve_frame F (w\<lparr>user := u\<rparr>)
        else case serial_read_until (fw_serial F) (char_of (10 :: nat)) u of (line, u) \<Rightarrow>
          serve_line F (c_trim line) (w\<lparr>user := u\<rparr>))"

definition repl_start :: "'u serial \<Rightarrow> 'u world \<Rightarrow> 'u world" where
  "repl_start S w = w\<lparr>user := serial_println S ''rss:pd-vm> '' (print_repl_help S (user w))\<rparr>"

text \<open>\<open>setup()\<close> of \<open>main.cpp\<close>, after \<open>Serial.begin\<close> and up to the loop of \<open>rustscript_repl\<close>.\<close>

definition boot_image :: "('p, 'v, 'c, 'x, 'st, 'u) firmware \<Rightarrow> 'u world \<Rightarrow> (script_image option \<times> 'u world) c_outcome" where
  "boot_image F w = c_then (rustscript_load_sd F w) (\<lambda>(r, w).
     case r of Some img \<Rightarrow> Done (Some img, w) | None \<Rightarrow> rustscript_load_partition F w)"

definition boot_run :: "('p, 'v, 'c, 'x, 'st, 'u) firmware \<Rightarrow> script_image option \<Rightarrow> 'u world \<Rightarrow> 'u world c_outcome" where
  "boot_run F r w = (case r of
       None \<Rightarrow> Done (say F ''rss:boot=no-script'' w)
     | Some img \<Rightarrow>
         c_then (rustscript_run_vmbc (fw_device F) (image_data img) (image_len img) (Some (fw_dispatch F)) REPL_FUEL
           (say F (image_source img) (w\<lparr>user := serial_print (fw_serial F) ''rss:boot='' (user w)\<rparr>))) (\<lambda>(status, w).
         c_then (rustscript_free_image img w) (\<lambda>w.
         Done (say F (show_int (sint status)) (w\<lparr>user := serial_print (fw_serial F) ''rss:status='' (user w)\<rparr>)))))"

definition boot :: "('p, 'v, 'c, 'x, 'st, 'u) firmware \<Rightarrow> 'u world \<Rightarrow> 'u world c_outcome" where
  "boot F w =
     c_then (boot_image F (w\<lparr>user := board_delay (fw_serial F) 250 (user w)\<rparr>)) (\<lambda>(r, w).
     c_then (boot_run F r w) (\<lambda>w. Done (repl_start (fw_serial F) w)))"

end
