(* ===== verification/Ffi_Value_Safety.thy ===== *)
theory Ffi_Value_Safety
  imports Ffi_Value
begin

text \<open>
  Properties of the values at the C interface: conversions in both directions are inverse to
  each other, undefined behaviour is only reached outside of the documented contract of the
  pointers, and the values of the wire format survive the virtual machine's.
\<close>

section \<open>Conversions of scalar values\<close>

text \<open>The bytes a value points to, and that they are where the pointer says.\<close>

fun pointed_bytes :: "'c vm_value \<Rightarrow> u8 list" where
  "pointed_bytes (VString s) = as_bytes s"
| "pointed_bytes (VBytes bs) = bs"
| "pointed_bytes _ = []"

definition placed :: "memory \<Rightarrow> addr \<Rightarrow> u8 list \<Rightarrow> bool" where
  "placed m p bs \<longleftrightarrow> bs = [] \<or> p \<noteq> 0 \<and> load (cells m) p (length bs) = Some bs"

lemma placed_Nil [simp]: "placed m p []"
  by (simp add: placed_def)

fun text_ok :: "'c vm_value \<Rightarrow> bool" where
  "text_ok (VString s) = str_ok s"
| "text_ok _ = True"

fun compound :: "'c vm_value \<Rightarrow> bool" where
  "compound (VArray _) = True"
| "compound (VMap _) = True"
| "compound (VCallable _) = True"
| "compound _ = False"

lemma borrowed_placed: "placed m p bs \<Longrightarrow> borrowed_bytes m p (length bs) = Done (Inr bs)"
  by (auto simp: placed_def borrowed_bytes_def)

lemma borrowed_Inr: "borrowed_bytes m p n = Done (Inr bs) \<longleftrightarrow> placed m p bs \<and> length bs = n"
  by (cases "n = 0") (auto simp: borrowed_bytes_def placed_def split: option.splits dest: load_length)

lemma tag_byte_inject [simp]: "tag_byte s = tag_byte t \<longleftrightarrow> s = t"
  by (cases s; cases t) (simp_all add: tag_byte_def)

lemma null_value_sel [simp]:
  "tag null_value = tag_byte Tag_Null" "data null_value = 0" "len null_value = 0" "boolean null_value = 0"
  by (simp_all add: null_value_def)

text \<open>A scalar of the virtual machine survives the C interface: converted to a
  \<open>RustScriptValue\<close> whose pointer is the place of its bytes, and back, it is the same value.
  Arrays, maps and callables are the values that are refused.\<close>

theorem ffi_value_round_trip:
  assumes "placed m p (pointed_bytes v)" and "text_ok v"
  shows "(if compound v then from_embedded p v = Inl UnsupportedType
      else \<exists>f. from_embedded p v = Inr f \<and> to_embedded m f = Done (Inr v))"
proof (cases v)
  case (VString s)
  then show ?thesis using assms borrowed_placed [of m p "as_bytes s"]
    by (simp add: from_embedded_def to_embedded_def from_utf8_as_bytes)
next
  case (VBytes bs)
  then show ?thesis using assms borrowed_placed [of m p bs]
    by (simp add: from_embedded_def to_embedded_def)
qed (simp_all add: from_embedded_def to_embedded_def)

definition demo_memory :: memory where
  "demo_memory = \<lparr>cells = store 16 [0x68, 0x69] (\<lambda>_. None), blocks = (\<lambda>_. None),
     slots = (\<lambda>_. None)(8 \<mapsto> empty_buffer)\<rparr>"

theorem ffi_value_round_trip_witness:
  "\<exists>f. from_embedded 16 (VString ''hi'' :: unit vm_value) = Inr f \<and>
     to_embedded demo_memory f = Done (Inr (VString ''hi'' :: unit vm_value))"
proof -
  have "placed demo_memory 16 (pointed_bytes (VString ''hi'' :: unit vm_value))"
    using load_store [of 16 "[0x68, 0x69]" "\<lambda>_. None"]
    by (simp add: placed_def demo_memory_def as_bytes_def)
  moreover have "text_ok (VString ''hi'' :: unit vm_value)"
    by (simp add: str_ok_def as_bytes_def)
  ultimately show ?thesis
    using ffi_value_round_trip [of demo_memory 16 "VString ''hi'' :: unit vm_value"] by simp
qed

text \<open>The fields that a tag gives meaning to.\<close>

definition same_payload :: "ffi_value \<Rightarrow> ffi_value \<Rightarrow> bool" where
  "same_payload f g \<longleftrightarrow> tag f = tag g \<and>
     (tag f = tag_byte Tag_Int \<longrightarrow> integer f = integer g) \<and>
     (tag f = tag_byte Tag_Float \<longrightarrow> float f = float g) \<and>
     (tag f = tag_byte Tag_Bool \<longrightarrow> boolean f = boolean g) \<and>
     (tag f = tag_byte Tag_String \<or> tag f = tag_byte Tag_Bytes \<longrightarrow> data f = data g \<and> len f = len g)"

text \<open>Whatever \<open>to_embedded\<close> accepts is a scalar whose own conversion has the
  same tag and payload, and the bytes it took are those at the pointer: nothing is made up, and
  text is well-formed UTF-8.\<close>

theorem to_embedded_canonical:
  assumes "to_embedded m f = Done (Inr v)"
  shows "\<exists>g. from_embedded (data f) v = Inr g \<and> same_payload f g \<and>
    placed m (data f) (pointed_bytes v) \<and> text_ok v"
  using assms
  by (auto simp: to_embedded_def from_embedded_def same_payload_def c_then_Done and_then_Inr
      borrowed_Inr from_utf8_Some ok_or_def split: if_splits option.splits)

theorem to_embedded_canonical_witness:
  "\<exists>g. from_embedded 0 (VInt 5 :: unit vm_value) = Inr g \<and>
    same_payload (null_value\<lparr>tag := 1, integer := 5\<rparr>) g \<and>
    placed demo_memory 0 (pointed_bytes (VInt 5 :: unit vm_value)) \<and> text_ok (VInt 5 :: unit vm_value)"
  using to_embedded_canonical [of demo_memory "null_value\<lparr>tag := 1, integer := 5\<rparr>" "VInt 5 :: unit vm_value"]
  by (simp add: to_embedded_def tag_byte_def)

text \<open>The contract of \<open>to_embedded\<close>: under a string or byte tag the pointer is readable for the
  length given; a null pointer or a length of zero needs nothing.\<close>

definition pointer_contract :: "memory \<Rightarrow> ffi_value \<Rightarrow> bool" where
  "pointer_contract m f \<longleftrightarrow> tag f \<noteq> tag_byte Tag_String \<and> tag f \<noteq> tag_byte Tag_Bytes \<or>
     len f = 0 \<or> data f = 0 \<or> load (cells m) (data f) (len f) \<noteq> None"

text \<open>\<open>to_embedded\<close> returns on every value within its documented contract, and
  has undefined behaviour on every other value: no check of the code can stand in for the
  contract, and the contract asks no more than is needed.\<close>

theorem to_embedded_defined_iff:
  "(\<exists>r. to_embedded m f = Done (r :: value_error + 'c vm_value)) = pointer_contract m f"
  by (auto simp: to_embedded_def pointer_contract_def c_then_def borrowed_bytes_def
      split: c_outcome.splits option.splits)

section \<open>Values of the wire format\<close>

text \<open>What a map built from entries must keep: lists without repeated keys.\<close>

definition keeps_distinct :: "(('c vm_value \<times> 'c vm_value) list \<Rightarrow> ('c vm_value \<times> 'c vm_value) list) \<Rightarrow> bool" where
  "keeps_distinct mk \<longleftrightarrow> (\<forall>es. distinct (map fst es) \<longrightarrow> mk es = es)"

fun distinct_keys :: "repl_value \<Rightarrow> bool" where
  "distinct_keys (ReplArray vs) = list_all distinct_keys vs"
| "distinct_keys (ReplMap es) =
     (distinct (map fst es) \<and> list_all (\<lambda>(k, v). distinct_keys k \<and> distinct_keys v) es)"
| "distinct_keys _ = True"

definition survives :: "(('c vm_value \<times> 'c vm_value) list \<Rightarrow> ('c vm_value \<times> 'c vm_value) list)
    \<Rightarrow> repl_value \<Rightarrow> bool" where
  "survives mk x \<longleftrightarrow> (\<exists>v. repl_to_embedded mk x = Inr v \<and> embedded_to_repl v = Inr x)"

lemma map_projr:
  assumes "\<And>x. x \<in> set xs \<Longrightarrow> \<exists>y. f x = Inr y \<and> g y = Inr x"
  shows "map f xs = map Inr (map (\<lambda>x. projr (f x)) xs)" and "map g (map (\<lambda>x. projr (f x)) xs) = map Inr xs"
proof -
  have "f x = Inr (projr (f x)) \<and> g (projr (f x)) = Inr x" if "x \<in> set xs" for x
    using assms [OF that] by auto
  then show "map f xs = map Inr (map (\<lambda>x. projr (f x)) xs)"
    "map g (map (\<lambda>x. projr (f x)) xs) = map Inr xs" by (auto simp: comp_def)
qed

lemma collect_survives:
  assumes "\<And>x. x \<in> set xs \<Longrightarrow> \<exists>y. f x = Inr y \<and> g y = Inr x"
  shows "collect (map f xs) = Inr (map (\<lambda>x. projr (f x)) xs)"
    and "collect (map g (map (\<lambda>x. projr (f x)) xs)) = Inr xs"
  using map_projr [of xs f g, OF assms] by (simp_all only: collect_Inr)

lemma survives_distinct: "keeps_distinct mk \<Longrightarrow> distinct_keys x \<Longrightarrow> survives mk x"
proof (induction x)
  case (ReplArray vs)
  then have "\<exists>y. repl_to_embedded mk x = Inr y \<and> embedded_to_repl y = Inr x" if "x \<in> set vs" for x
    using that by (simp add: survives_def list_all_iff)
  note c = collect_survives [of vs, OF this]
  show ?case using c by (simp add: survives_def)
next
  case (ReplMap es)
  let ?f = "\<lambda>(k, v). and_then (repl_to_embedded mk k) (\<lambda>k. and_then (repl_to_embedded mk v) (\<lambda>v. Inr (k, v)))"
  let ?g = "\<lambda>(k, v). and_then (embedded_to_repl k) (\<lambda>k. and_then (embedded_to_repl v) (\<lambda>v. Inr (k, v)))"
  have s: "survives mk k \<and> survives mk v" if "(k, v) \<in> set es" for k v
    using ReplMap that by (fastforce simp: list_all_iff)
  have "\<exists>y. ?f x = Inr y \<and> ?g y = Inr x" if "x \<in> set es" for x
  proof (cases x)
    case (Pair k v)
    then show ?thesis using s [of k v] that by (auto simp: survives_def)
  qed
  note c = collect_survives [of es ?f ?g, OF this]
  let ?xs = "map (\<lambda>x. projr (?f x)) es"
  have k: "fst (projr (?f x)) = projr (repl_to_embedded mk (fst x))" if "x \<in> set es" for x
    using s [of "fst x" "snd x"] that by (cases x) (auto simp: survives_def)
  have "inj_on (\<lambda>x. projr (repl_to_embedded mk x)) (fst ` set es)"
  proof (rule inj_onI)
    fix a b
    assume ab: "a \<in> fst ` set es" "b \<in> fst ` set es"
      and eq: "projr (repl_to_embedded mk a) = projr (repl_to_embedded mk b)"
    from ab s have "survives mk a" "survives mk b" by auto
    with eq show "a = b" by (auto simp: survives_def)
  qed
  then have "distinct (map (\<lambda>x. projr (repl_to_embedded mk x)) (map fst es))"
    using ReplMap.prems(2) by (simp add: distinct_map [of _ "map fst es"] del: map_map)
  then have "distinct (map fst ?xs)" using k by (simp add: comp_def cong: map_cong)
  then have "mk ?xs = ?xs" using ReplMap.prems by (simp add: keeps_distinct_def)
  then show ?case using c by (simp add: survives_def)
qed (simp_all add: survives_def)

text \<open>A value of the wire format whose maps repeat no key is loaded into the
  virtual machine and read back unchanged, whatever a map does with repeated keys.\<close>

theorem repl_value_round_trip:
  assumes "keeps_distinct mk" and "distinct_keys x"
  shows "\<exists>v. repl_to_embedded mk x = Inr v \<and> embedded_to_repl v = Inr x"
  using survives_distinct [OF assms] by (simp add: survives_def)

text \<open>A map that keeps the first entry of each key.\<close>

fun first_entries :: "('k \<times> 'v) list \<Rightarrow> ('k \<times> 'v) list" where
  "first_entries [] = []"
| "first_entries (e # es) = e # [f \<leftarrow> first_entries es. fst f \<noteq> fst e]"

lemma keeps_first_entries:
  "keeps_distinct (first_entries :: ('c vm_value \<times> 'c vm_value) list \<Rightarrow> ('c vm_value \<times> 'c vm_value) list)"
proof -
  have "distinct (map fst es) \<Longrightarrow> first_entries es = es" for es :: "('c vm_value \<times> 'c vm_value) list"
    by (induction es) (auto simp: filter_id_conv image_iff)
  then show ?thesis by (simp add: keeps_distinct_def)
qed

theorem repl_value_round_trip_witness:
  "\<exists>v :: unit vm_value. repl_to_embedded first_entries (ReplMap [(ReplInt 1, ReplNull), (ReplInt 2, ReplNull)]) = Inr v \<and>
     embedded_to_repl v = Inr (ReplMap [(ReplInt 1, ReplNull), (ReplInt 2, ReplNull)])"
  by (rule repl_value_round_trip [OF keeps_first_entries]) simp

text \<open>The values that hold a callable somewhere.\<close>

fun has_callable :: "'c vm_value \<Rightarrow> bool" where
  "has_callable (VCallable _) = True"
| "has_callable (VArray vs) = list_ex has_callable vs"
| "has_callable (VMap es) = list_ex (\<lambda>(k, v). has_callable k \<or> has_callable v) es"
| "has_callable _ = False"

lemma collect_Inl: "collect rs = Inl () \<longleftrightarrow> Inl () \<in> set rs"
  by (induction rs) (auto simp: and_then_Inl and_then_def split: sum.splits)

lemma collect_map_Inl: "collect (map f xs) = Inl () \<longleftrightarrow> (\<exists>x\<in>set xs. f x = Inl ())"
  by (auto simp: collect_Inl eq_commute [of "Inl ()"])

text \<open>Reading a value back from the machine fails exactly when a callable is
  in it, at any depth.\<close>

theorem callables_are_refused: "(embedded_to_repl v = Inl ()) = has_callable v"
proof (induction v)
  case (VArray vs)
  then show ?case by (simp add: and_then_Inl list_ex_iff collect_map_Inl)
next
  case (VMap es)
  let ?g = "\<lambda>(k, v). and_then (embedded_to_repl k) (\<lambda>k. and_then (embedded_to_repl v) (\<lambda>v. Inr (k, v)))"
  have "(?g e = Inl ()) = (case e of (k, v) \<Rightarrow> has_callable k \<or> has_callable v)" if "e \<in> set es" for e
  proof (cases e)
    case (Pair k v)
    then have "(embedded_to_repl k = Inl ()) = has_callable k" "(embedded_to_repl v = Inl ()) = has_callable v"
      using VMap that by force+
    then show ?thesis using Pair by (cases "embedded_to_repl k") (auto simp: and_then_Inl)
  qed
  then show ?case by (simp add: and_then_Inl list_ex_iff collect_map_Inl cong: bex_cong)
qed simp_all

end
