(* ===== verification/Evaluation.thy ===== *)
theory Evaluation
  imports Ffi_Value_Safety Ffi_Run
begin

text \<open>
  What it means to evaluate a snippet on the virtual machine, said without the code of \<open>src/ffi.rs\<close> that
  loads the locals, sets the fuel, picks the status and reads the response back; only the dispatcher that serves
  the host calls of the machine is the one of the code. They are relations between wire values and values of the machine, between a machine and the one with its
  locals set, between the end of a run and what is reported of it. The statuses are the numbers of
  \<open>include/rustscript_embedded.h\<close>. Lemmas show that the code computes these relations.
\<close>

section \<open>The relations\<close>

text \<open>The same value on the wire and in the machine, where maps have been through \<open>mk\<close>.\<close>

inductive stands_for :: "(('c vm_value \<times> 'c vm_value) list \<Rightarrow> ('c vm_value \<times> 'c vm_value) list)
    \<Rightarrow> repl_value \<Rightarrow> 'c vm_value \<Rightarrow> bool" for mk where
  null: "stands_for mk ReplNull VNull"
| int: "stands_for mk (ReplInt i) (VInt i)"
| float: "stands_for mk (ReplFloat f) (VFloat f)"
| bool: "stands_for mk (ReplBool b) (VBool b)"
| string: "stands_for mk (ReplString s) (VString s)"
| bytes: "stands_for mk (ReplBytes bs) (VBytes bs)"
| array: "list_all2 (stands_for mk) xs es \<Longrightarrow> stands_for mk (ReplArray xs) (VArray es)"
| map: "list_all2 (stands_for mk) (map fst xs) (map fst es) \<Longrightarrow>
    list_all2 (stands_for mk) (map snd xs) (map snd es) \<Longrightarrow> stands_for mk (ReplMap xs) (VMap (mk es))"

inductive_simps stands_for_simps [simp]:
  "stands_for mk ReplNull e" "stands_for mk (ReplInt i) e" "stands_for mk (ReplFloat f) e" "stands_for mk (ReplBool b) e"
  "stands_for mk (ReplString s) e" "stands_for mk (ReplBytes bs) e" "stands_for mk (ReplArray xs) e" "stands_for mk (ReplMap xs) e"

inductive_simps stands_for_embedded [simp]:
  "stands_for mk x VNull" "stands_for mk x (VInt i)" "stands_for mk x (VFloat f)" "stands_for mk x (VBool b)"
  "stands_for mk x (VString s)" "stands_for mk x (VBytes bs)" "stands_for mk x (VArray es)" "stands_for mk x (VMap es)"
  "stands_for mk x (VCallable c)"

text \<open>The locals of a machine are set in order, the first one at index 0. An index is a byte.\<close>

inductive loaded :: "('p, 'v, 'c, 'x, 'st, 'u) device \<Rightarrow> 'v \<Rightarrow> 'c vm_value list \<Rightarrow> 'v \<Rightarrow> bool" for D v where
  none: "loaded D v [] v"
| one_more: "loaded D v es v1 \<Longrightarrow> set_local D (of_nat (length es)) e v1 = Inr v2 \<Longrightarrow> loaded D v (es @ [e]) v2"

text \<open>How the end of a run is reported.\<close>

inductive reported :: "'x vm_error + 'st \<Rightarrow> i32 \<Rightarrow> bool" where
  "reported (Inr state) 0"
| "reported (Inl (HostError e)) (- 3)"
| "reported (Inl (HostCallsUnavailable x)) (- 3)"
| "reported (Inl (OutOfFuel x)) (- 4)"
| "reported (Inl (OtherVmError x)) (- 5)"

text \<open>The result of a run that ends without an error is the value on top of the stack, if there is one.\<close>

inductive results_in :: "'x vm_error + 'st \<Rightarrow> 'c vm_value list \<Rightarrow> repl_value option \<Rightarrow> bool" where
  failed: "results_in (Inl e) stack_values None"
| empty: "results_in (Inr state) [] None"
| top: "stands_for (\<lambda>es. es) x e \<Longrightarrow> results_in (Inr state) (stack_values @ [e]) (Some x)"

text \<open>A snippet is evaluated from the values of its locals: they are set in the machine, the machine runs,
  with the fuel that is given or without a limit, and what it then holds in its locals and on its stack is the
  response.\<close>

inductive evaluates :: "('p, 'v, 'c, 'x, 'st, 'u) device \<Rightarrow> 'u callback option \<Rightarrow> u64 \<Rightarrow> 'p
    \<Rightarrow> repl_value list \<Rightarrow> 'u world \<Rightarrow> i32 \<Rightarrow> repl_response \<Rightarrow> 'u world \<Rightarrow> bool"
  for D callback fuel where
  "length ls = program_local_count D p \<Longrightarrow>
   list_all2 (stands_for (make_map D)) ls es \<Longrightarrow>
   loaded D (with_host_dispatcher D p) es v \<Longrightarrow>
   fueled = (if fuel = 0 then v else set_fuel D fuel v) \<Longrightarrow>
   run D (dispatch_host (args_reserve D) callback) fueled w = Done (r, v', w') \<Longrightarrow>
   reported r status \<Longrightarrow>
   list_all2 (stands_for (\<lambda>es. es)) (locals response) (vm_locals D v') \<Longrightarrow>
   results_in r (vm_stack D v') (result response) \<Longrightarrow>
   evaluates D callback fuel p ls w status response w'"

inductive_cases evaluatesE: "evaluates D callback fuel p ls w status response w'"

section \<open>The code computes them\<close>

lemma map_Inr_all2: "map f xs = map Inr ys \<longleftrightarrow> list_all2 (\<lambda>x y. f x = Inr y) xs ys"
  by (induction xs arbitrary: ys) (auto simp: list_all2_Cons1 Cons_eq_map_conv map_eq_Cons_conv)

lemma pairs_all2:
  "list_all2 (\<lambda>x y. (case x of (k, v) \<Rightarrow> and_then (f k) (\<lambda>k. and_then (g v) (\<lambda>v. Inr (k, v)))) = Inr y) xs ys
    \<longleftrightarrow> list_all2 (\<lambda>k k'. f k = Inr k') (map fst xs) (map fst ys) \<and> list_all2 (\<lambda>v v'. g v = Inr v') (map snd xs) (map snd ys)"
proof (induction xs arbitrary: ys)
  case (Cons x xs)
  then show ?case by (cases x; cases ys) (auto simp: and_then_Inr)
qed auto

lemma all2_same: "(\<And>x y. x \<in> set xs \<Longrightarrow> P x y = Q x y) \<Longrightarrow> list_all2 P xs ys = list_all2 Q xs ys"
  by (intro list.rel_cong) simp_all

lemma all2_flip: "list_all2 P xs ys = list_all2 (\<lambda>y x. P x y) ys xs"
  by (auto simp: list_all2_conv_all_nth)

lemma repl_to_embedded_iff: "repl_to_embedded mk x = Inr e \<longleftrightarrow> stands_for mk x e"
proof (induction x arbitrary: e)
  case (ReplArray xs)
  have "list_all2 (\<lambda>x e. repl_to_embedded mk x = Inr e) xs es = list_all2 (stands_for mk) xs es" for es
    by (rule all2_same) (rule ReplArray)
  then show ?case by (simp add: and_then_Inr collect_Inr map_Inr_all2) blast
next
  case (ReplMap xs)
  have "list_all2 (\<lambda>x e. repl_to_embedded mk x = Inr e) (map fst xs) es = list_all2 (stands_for mk) (map fst xs) es"
    "list_all2 (\<lambda>x e. repl_to_embedded mk x = Inr e) (map snd xs) es = list_all2 (stands_for mk) (map snd xs) es" for es
    by (rule all2_same, use ReplMap in force)+
  then show ?case by (simp add: and_then_Inr collect_Inr map_Inr_all2 pairs_all2) blast
qed auto

lemma embedded_to_repl_iff: "embedded_to_repl e = Inr x \<longleftrightarrow> stands_for (\<lambda>es. es) x e"
proof (induction e arbitrary: x)
  case (VArray es)
  have "list_all2 (\<lambda>e x. embedded_to_repl e = Inr x) es xs = list_all2 (stands_for (\<lambda>es. es)) xs es" for xs
    unfolding all2_flip [of _ xs es] by (rule all2_same) (rule VArray)
  then show ?case by (auto simp: and_then_Inr collect_Inr map_Inr_all2)
next
  case (VMap es)
  have "list_all2 (\<lambda>e x. embedded_to_repl e = Inr x) (map fst es) xs = list_all2 (stands_for (\<lambda>es. es)) xs (map fst es)"
    "list_all2 (\<lambda>e x. embedded_to_repl e = Inr x) (map snd es) xs = list_all2 (stands_for (\<lambda>es. es)) xs (map snd es)" for xs
    unfolding all2_flip [of _ xs] by (rule all2_same, use VMap in force)+
  then show ?case by (auto simp: and_then_Inr collect_Inr map_Inr_all2 pairs_all2)
qed auto

lemma load_locals_Nil [simp]: "load_locals D i [] = Inr"
  by (simp add: fun_eq_iff)

lemma load_locals_append:
  "load_locals D i (xs @ ys) = (\<lambda>v. and_then (load_locals D i xs v) (load_locals D (i + length xs) ys))"
proof (induction xs arbitrary: i)
  case (Cons x xs)
  show ?case by (rule ext) (simp add: Cons.IH and_then_assoc)
qed simp

inductive_simps loaded_Nil: "loaded D v [] v'"
inductive_simps loaded_snoc: "loaded D v (es @ [e]) v'"

lemma load_locals_iff:
  "load_locals D 0 ls v = Inr v' \<longleftrightarrow> (\<exists>es. list_all2 (stands_for (make_map D)) ls es \<and> loaded D v es v')"
proof (induction ls arbitrary: v' rule: rev_induct)
  case Nil
  then show ?case by (auto simp: loaded_Nil)
next
  case (snoc x xs)
  let ?S = "stands_for (make_map D)"
  have step: "load_locals D 0 (xs @ [x]) v = Inr v' \<longleftrightarrow> (\<exists>v1 e. load_locals D 0 xs v = Inr v1 \<and> ?S x e
      \<and> set_local D (of_nat (length xs)) e v1 = Inr v')"
    by (auto simp: load_locals_append and_then_Inr repl_to_embedded_iff map_err_Inr)
  show ?case
  proof
    assume "load_locals D 0 (xs @ [x]) v = Inr v'"
    then obtain v1 e es where e: "?S x e" "set_local D (of_nat (length xs)) e v1 = Inr v'"
        and es: "list_all2 ?S xs es" "loaded D v es v1" using step snoc.IH by blast
    have "length xs = length es" using es(1) by (rule list_all2_lengthD)
    with e(2) es(2) have "loaded D v (es @ [e]) v'" by (auto intro: loaded.one_more)
    moreover have "list_all2 ?S (xs @ [x]) (es @ [e])" using e(1) es(1) by (simp add: list_all2_appendI)
    ultimately show "\<exists>es. list_all2 ?S (xs @ [x]) es \<and> loaded D v es v'" by blast
  next
    assume "\<exists>es. list_all2 ?S (xs @ [x]) es \<and> loaded D v es v'"
    then obtain es e where e: "?S x e" and es: "list_all2 ?S xs es" "loaded D v (es @ [e]) v'"
      by (auto simp: list_all2_append1 list_all2_Cons1)
    from es(2) obtain v1 where "loaded D v es v1" "set_local D (of_nat (length es)) e v1 = Inr v'"
      by (auto simp: loaded_snoc)
    moreover have "length es = length xs" using es(1) by (simp add: list_all2_lengthD)
    ultimately show "load_locals D 0 (xs @ [x]) v = Inr v'" using step snoc.IH e es(1) by auto
  qed
qed

lemma reported_iff: "reported r status \<longleftrightarrow> status = vm_status r"
  by (auto simp: vm_status_def status_defs elim: reported.cases intro: reported.intros split: sum.split vm_error.split)

lemma results_in_failed [simp]: "results_in (Inl e) stack_values x \<longleftrightarrow> x = None"
  by (auto elim: results_in.cases intro: results_in.intros)

lemma results_in_done [simp]: "results_in (Inr state) stack_values x \<longleftrightarrow>
    (case x of None \<Rightarrow> stack_values = [] | Some y \<Rightarrow> stack_values \<noteq> [] \<and> stands_for (\<lambda>es. es) y (last stack_values))"
  by (cases stack_values rule: rev_cases) (auto elim: results_in.cases intro: results_in.intros split: option.split)

lemma read_back_iff:
  "read_back D (vm_status r) v = Inr response \<longleftrightarrow>
     list_all2 (stands_for (\<lambda>es. es)) (locals response) (vm_locals D v) \<and> results_in r (vm_stack D v) (result response)"
proof -
  have locals: "collect (map embedded_to_repl (vm_locals D v)) = Inr ls \<longleftrightarrow> list_all2 (stands_for (\<lambda>es. es)) ls (vm_locals D v)" for ls
    unfolding collect_Inr map_Inr_all2 embedded_to_repl_iff by (rule all2_flip [symmetric])
  have top: "(if vm_status r = RUSTSCRIPT_STATUS_OK then
        if vm_stack D v = [] then Inr None else and_then (embedded_to_repl (last (vm_stack D v))) (\<lambda>x. Inr (Some x))
      else Inr None) = Inr x \<longleftrightarrow> results_in r (vm_stack D v) x" for x
    by (cases r) (auto simp: vm_status_def status_defs and_then_Inr embedded_to_repl_iff split: option.splits vm_error.splits)
  show ?thesis unfolding read_back_def and_then_Inr locals top by (cases response) auto
qed

text \<open>So evaluating is what the code does with the values.\<close>

lemma evaluates_by_code:
  assumes "length ls = program_local_count D p"
    and "load_locals D 0 ls (with_host_dispatcher D p) = Inr v"
    and "run D (dispatch_host (args_reserve D) callback) (with_fuel D fuel v) w = Done (r, v', w')"
    and "read_back D (vm_status r) v' = Inr response"
  shows "evaluates D callback fuel p ls w (vm_status r) response w'"
proof -
  obtain es where es: "list_all2 (stands_for (make_map D)) ls es" "loaded D (with_host_dispatcher D p) es v"
    using assms(2) [unfolded load_locals_iff] by (elim exE conjE)
  have "with_fuel D fuel v = (if fuel = 0 then v else set_fuel D fuel v)" by (simp add: with_fuel_def)
  then show ?thesis
    using evaluates.intros [OF assms(1) es _ assms(3)] assms(4) by (simp add: reported_iff read_back_iff)
qed

lemma evaluates_code:
  assumes "evaluates D callback fuel p ls w status response w'"
  obtains v r v' where "length ls = program_local_count D p"
    "load_locals D 0 ls (with_host_dispatcher D p) = Inr v"
    "run D (dispatch_host (args_reserve D) callback) (with_fuel D fuel v) w = Done (r, v', w')"
    "read_back D (vm_status r) v' = Inr response" "status = vm_status r"
proof -
  from assms obtain es v r v' where ev: "length ls = program_local_count D p"
      "list_all2 (stands_for (make_map D)) ls es" "loaded D (with_host_dispatcher D p) es v"
      "run D (dispatch_host (args_reserve D) callback) (if fuel = 0 then v else set_fuel D fuel v) w = Done (r, v', w')"
      "reported r status"
      "list_all2 (stands_for (\<lambda>es. es)) (locals response) (vm_locals D v')"
      "results_in r (vm_stack D v') (result response)"
    by (rule evaluatesE) blast
  have "load_locals D 0 ls (with_host_dispatcher D p) = Inr v"
    unfolding load_locals_iff using ev(2,3) by (intro exI conjI)
  moreover have "with_fuel D fuel v = (if fuel = 0 then v else set_fuel D fuel v)" by (simp add: with_fuel_def)
  ultimately show thesis using ev by (intro that [of v r v']) (simp_all add: reported_iff read_back_iff)
qed

end
