(* ===== verification/Ffi_Safety.thy ===== *)
theory Ffi_Safety
  imports Evaluation Wire_Props
begin

text \<open>
  Properties of running programs through the C interface: which status a call returns, that it
  has undefined behaviour only outside of its documented contract, who owns the output buffer,
  and that the buffer holds the wire encoding of what the virtual machine computed.
\<close>

section \<open>The contract of the machine and the allocator\<close>

definition allocator_ok :: "('p, 'v, 'c, 'x, 'st, 'u) device \<Rightarrow> bool" where
  "allocator_ok D \<longleftrightarrow> (\<forall>m bs a cap. vec_block D m bs = Some (a, cap) \<longrightarrow> fresh_block a cap m \<and> length bs \<le> cap)"

text \<open>A run of the machine, with the dispatcher that serves this callback.\<close>

abbreviation run_with :: "('p, 'v, 'c, 'x, 'st, 'u) device \<Rightarrow> 'u callback option \<Rightarrow> 'v \<Rightarrow> 'u world
    \<Rightarrow> (('x vm_error + 'st) \<times> 'v \<times> 'u world) c_outcome" where
  "run_with D callback \<equiv> run D (dispatch_host (args_reserve D) callback)"

text \<open>It leaves the caller's buffer alone; it has a defined behaviour.\<close>

definition keeps_slots :: "('p, 'v, 'c, 'x, 'st, 'u) device \<Rightarrow> 'u callback option \<Rightarrow> bool" where
  "keeps_slots D callback \<longleftrightarrow>
     (\<forall>v w r v' w'. run_with D callback v w = Done (r, v', w') \<longrightarrow> slots (mem w') = slots (mem w))"

definition run_defined :: "('p, 'v, 'c, 'x, 'st, 'u) device \<Rightarrow> 'u callback option \<Rightarrow> bool" where
  "run_defined D callback \<longleftrightarrow> (\<forall>v w. run_with D callback v w \<noteq> Undefined)"

definition set_local_ok :: "('p, 'v, 'c, 'x, 'st, 'u) device \<Rightarrow> bool" where
  "set_local_ok D \<longleftrightarrow> (\<forall>i e v. unat i < length (vm_locals D v) \<longrightarrow>
     (\<exists>v'. set_local D i e v = Inr v' \<and> vm_locals D v' = (vm_locals D v)[unat i := e]))"

definition emptied :: "addr \<Rightarrow> 'u world \<Rightarrow> 'u world" where
  "emptied output w = w\<lparr>mem := (mem w)\<lparr>slots := (slots (mem w))(output \<mapsto> empty_buffer)\<rparr>\<rparr>"

lemma emptied_sel [simp]:
  "slots (mem (emptied output w)) = (slots (mem w))(output \<mapsto> empty_buffer)"
  "cells (mem (emptied output w)) = cells (mem w)"
  "blocks (mem (emptied output w)) = blocks (mem w)"
  "user (emptied output w) = user w"
  by (simp_all add: emptied_def)

lemma repl_run_start:
  assumes "output \<noteq> 0" and "slots (mem w) output \<noteq> None"
  shows "rustscript_repl_run_vmbc D code code_len state state_len callback fuel output w =
    (let w = emptied output w in
      or_return (nonempty_bytes (mem w) code code_len) w (\<lambda>bs.
      or_return (nonempty_bytes (mem w) state state_len) w (\<lambda>state_bytes.
      or_return (Done (load_snippet D bs state_bytes)) w (\<lambda>v.
      c_then (run D (dispatch_host (args_reserve D) callback) (with_fuel D fuel v) w) (\<lambda>(r, v, w).
      or_return (Done (encode_outcome D (vm_status r) v)) w (\<lambda>encoded.
      give_output D output encoded (vm_status r) w))))))"
  using assms by (auto simp: rustscript_repl_run_vmbc_def emptied_def Let_def)

lemma or_return_Done:
  "or_return r w f = Done (s, w') \<longleftrightarrow>
     r = Done (Inl s) \<and> w' = w \<or> (\<exists>a. r = Done (Inr a) \<and> f a = Done (s, w'))"
proof (cases r)
  case (Done a)
  then show ?thesis by (cases a) auto
qed simp_all

lemma give_output_Done:
  "give_output D output enc status w = Done (s, w') \<longleftrightarrow>
     s = status \<and> slots (mem w) output \<noteq> None \<and>
     (\<exists>a cap. vec_block D (mem w) enc = Some (a, cap) \<and>
       w' = w\<lparr>mem := (new_vec a cap enc (mem w))\<lparr>slots := (slots (mem w))(output \<mapsto>
         \<lparr>buf_data = a, buf_len = length enc, buf_capacity = cap\<rparr>)\<rparr>\<rparr>)"
  by (auto simp: give_output_def c_then_Done write_slot_def new_vec_def split: option.splits if_splits)

section \<open>Statuses\<close>

lemma vm_status_ok: "vm_status r = 0 \<longleftrightarrow> (\<exists>x. r = Inr x)"
  by (auto simp: vm_status_def status_defs split: sum.splits vm_error.splits)

text \<open>\<open>rustscript_run_vmbc\<close> returns the status 0 exactly when its argument is a
  readable nonempty program that decodes and that the machine runs to the end without an error;
  nothing but that run has changed the world.\<close>

theorem run_vmbc_ok_iff:
  "(rustscript_run_vmbc D code code_len callback fuel w = Done (0, w')) =
   (code_len \<noteq> 0 \<and> code \<noteq> 0 \<and>
    (\<exists>bs p x v. load (cells (mem w)) code code_len = Some bs \<and> decode_program D bs = Inr p \<and>
      run D (dispatch_host (args_reserve D) callback) (with_fuel D fuel (with_host_dispatcher D p)) w
        = Done (Inr x, v, w')))"
  by (auto simp: rustscript_run_vmbc_def borrowed_bytes_def c_then_Done status_defs vm_status_ok
      split: option.splits sum.splits if_splits prod.splits dest: load_length; force)

section \<open>Refused calls\<close>

lemma nonempty_bytes_cases:
  "nonempty_bytes m p n = (if n = 0 \<or> p = 0 then Done (Inl RUSTSCRIPT_STATUS_INVALID_ARGUMENT)
     else case load (cells m) p n of None \<Rightarrow> Undefined | Some bs \<Rightarrow> Done (Inr bs))"
  by (auto simp: nonempty_bytes_def borrowed_bytes_def split: option.split dest: load_length)

text \<open>A null or empty program, or after a readable program a null or empty
  state, is refused with the status for an invalid argument: nothing has run, and the output
  buffer is empty.\<close>

theorem invalid_arguments_refused:
  assumes "output \<noteq> 0" and "slots (mem w) output \<noteq> None"
    and "code_len = 0 \<or> code = 0 \<or> load (cells (mem w)) code code_len \<noteq> None \<and> (state_len = 0 \<or> state = 0)"
  shows "rustscript_repl_run_vmbc D code code_len state state_len callback fuel output w
    = Done (RUSTSCRIPT_STATUS_INVALID_ARGUMENT, emptied output w)"
  using assms by (auto simp: repl_run_start nonempty_bytes_cases Let_def)

section \<open>Defined behaviour\<close>

definition readable :: "memory \<Rightarrow> addr \<Rightarrow> nat \<Rightarrow> bool" where
  "readable m p n \<longleftrightarrow> n = 0 \<or> p = 0 \<or> load (cells m) p n \<noteq> None"

definition writable :: "memory \<Rightarrow> addr \<Rightarrow> bool" where
  "writable m p \<longleftrightarrow> p = 0 \<or> slots m p \<noteq> None"

text \<open>Within its documented contract, readable inputs and a writable output, and with
  a machine and callback that keep theirs, \<open>rustscript_repl_run_vmbc\<close> never has undefined
  behaviour.\<close>

theorem repl_run_defined:
  assumes "readable (mem w) code code_len" and "readable (mem w) state state_len"
    and "writable (mem w) output" and "run_defined D callback" and "keeps_slots D callback"
  shows "rustscript_repl_run_vmbc D code code_len state state_len callback fuel output w \<noteq> Undefined"
proof (cases "output = 0")
  case True
  then show ?thesis by (simp add: rustscript_repl_run_vmbc_def)
next
  case False
  let ?w = "emptied output w"
  have slot: "slots (mem w) output \<noteq> None" using assms(3) False by (simp add: writable_def)
  have give: "give_output D output enc s w1 \<noteq> Undefined" if "slots (mem w1) output \<noteq> None" for enc s w1
    using that by (auto simp: give_output_def write_slot_def new_vec_def split: option.splits)
  have ran: "c_then (run_with D callback v ?w) (\<lambda>(r, v, w). or_return (Done (encode_outcome D (vm_status r) v)) w
      (\<lambda>encoded. give_output D output encoded (vm_status r) w)) \<noteq> Undefined" for v
  proof (cases "run_with D callback v ?w")
    case (Done a)
    obtain r v' w1 where a: "a = (r, v', w1)" by (cases a)
    then have "slots (mem w1) output \<noteq> None"
      using Done assms(5) by (metis emptied_sel(1) fun_upd_same keeps_slots_def option.distinct(1))
    then show ?thesis using Done a give by (cases "encode_outcome D (vm_status r) v'") simp_all
  qed (use assms(4) in \<open>simp_all add: run_defined_def\<close>)
  have bytes: "nonempty_bytes (mem ?w) p n \<noteq> Undefined \<and> nonempty_bytes (mem ?w) p n \<noteq> Diverges"
    if "readable (mem w) p n" for p n
    using that by (auto simp: nonempty_bytes_cases readable_def split: option.split)
  show ?thesis
    unfolding repl_run_start [OF False slot] Let_def
    using bytes [OF assms(1)] bytes [OF assms(2)] ran
    by (auto simp: or_return_def c_then_def split: c_outcome.splits sum.splits)
qed

section \<open>The output buffer\<close>

lemma repl_run_Done:
  assumes "rustscript_repl_run_vmbc D code code_len state state_len callback fuel output w = Done (status, w')"
    and "output \<noteq> 0" and "keeps_slots D callback"
  obtains (empty) w1 where "slots (mem w1) output = Some empty_buffer" "w' = w1"
      "w1 = emptied output w \<or> (\<exists>v r v'. run_with D callback v (emptied output w) = Done (r, v', w1))"
  | (full) v r v' w1 response enc a cap where
      "run D (dispatch_host (args_reserve D) callback) (with_fuel D fuel v) (emptied output w) = Done (r, v', w1)"
      "read_back D (vm_status r) v' = Inr response" "encode_repl_response response = Inr enc"
      "vec_block D (mem w1) enc = Some (a, cap)" "status = vm_status r"
      "w' = w1\<lparr>mem := (new_vec a cap enc (mem w1))\<lparr>slots := (slots (mem w1))(output \<mapsto>
         \<lparr>buf_data = a, buf_len = length enc, buf_capacity = cap\<rparr>)\<rparr>\<rparr>"
proof -
  let ?w = "emptied output w"
  have slot: "slots (mem w) output \<noteq> None"
    using assms(1,2) by (auto simp: rustscript_repl_run_vmbc_def write_slot_def c_then_Done split: if_splits)
  have kept: "slots (mem w1) output = Some empty_buffer" if "run_with D callback v ?w = Done (r, v', w1)" for v r v' w1
    using that assms(3) by (metis emptied_sel(1) fun_upd_same keeps_slots_def)
  from assms(1) [unfolded repl_run_start [OF assms(2) slot] Let_def or_return_Done c_then_Done]
  consider "w' = ?w" | v r v' w1 where
      "run D (dispatch_host (args_reserve D) callback) (with_fuel D fuel v) ?w = Done (r, v', w1)"
      "w' = w1 \<or> (\<exists>enc. encode_outcome D (vm_status r) v' = Inr enc \<and>
         give_output D output enc (vm_status r) w1 = Done (status, w'))"
    by (auto simp: or_return_Done)
  then show thesis
  proof cases
    case 1
    then show thesis using empty [of ?w] by simp
  next
    case 2
    from 2(2) show thesis
    proof
      assume "w' = w1"
      then show thesis using empty [of w1] kept [OF 2(1)] 2(1) by blast
    next
      assume "\<exists>enc. encode_outcome D (vm_status r) v' = Inr enc \<and>
         give_output D output enc (vm_status r) w1 = Done (status, w')"
      then show thesis using full [OF 2(1)]
        by (auto simp: encode_outcome_def and_then_Inr give_output_Done)
    qed
  qed
qed

text \<open>A buffer that owns an encoded response.\<close>

definition owns_response :: "memory \<Rightarrow> ffi_buffer \<Rightarrow> repl_response \<Rightarrow> bool" where
  "owns_response m b response \<longleftrightarrow> (\<exists>enc. encode_repl_response response = Inr enc \<and>
     load (cells m) (buf_data b) (buf_len b) = Some enc \<and> blocks m (buf_data b) = Some (buf_capacity b) \<and>
     0 < buf_data b \<and> 0 < buf_len b \<and> buf_len b \<le> buf_capacity b)"

lemma encoded_response_nonempty: "encode_repl_response response = Inr enc \<Longrightarrow> enc \<noteq> []"
  by (auto simp: encode_repl_response_iff response_bytes_def magic_bytes)

lemma given_owns:
  assumes "vec_block D m enc = Some (a, cap)" and "encode_repl_response response = Inr enc"
    and "allocator_ok D"
  shows "owns_response ((new_vec a cap enc m)\<lparr>slots := s\<rparr>)
    \<lparr>buf_data = a, buf_len = length enc, buf_capacity = cap\<rparr> response"
  using assms encoded_response_nonempty [OF assms(2)]
  by (auto simp: owns_response_def new_vec_def allocator_ok_def fresh_block_def)

text \<open>C16. When \<open>rustscript_repl_run_vmbc\<close> returns, with whatever status, the
  output buffer is empty or owns a live block of the allocator that holds the encoding of a
  response; no path leaves it half written.\<close>

theorem output_owned_or_empty:
  assumes "rustscript_repl_run_vmbc D code code_len state state_len callback fuel output w = Done (status, w')"
    and "output \<noteq> 0" and "keeps_slots D callback" and "allocator_ok D"
  shows "\<exists>b. slots (mem w') output = Some b \<and> b \<in> insert empty_buffer {b. \<exists>response. owns_response (mem w') b response}"
  using assms(1-3)
proof (cases rule: repl_run_Done)
  case (full v r v' w1 response enc a cap)
  then show ?thesis using given_owns [OF full(4,3) assms(4)] by auto
qed simp

text \<open>C17. Freeing a buffer that is not empty gives back what the call allocated: the
  memory is again the one the run of the program left, except for the caller's own buffer
  variable. Freeing the same buffer a second time is undefined, so the caller must not.\<close>

theorem buffer_freed_once:
  assumes "rustscript_repl_run_vmbc D code code_len state state_len callback fuel output w = Done (status, w')"
    and "output \<noteq> 0" and "keeps_slots D callback" and "allocator_ok D"
    and "slots (mem w') output = Some b" and "b \<noteq> empty_buffer"
  shows "\<exists>m v r v' w1. run_with D callback v (emptied output w) = Done (r, v', w1) \<and>
    rustscript_buffer_free b (mem w') = Done m \<and> m = (mem w1)\<lparr>slots := slots (mem w')\<rparr> \<and>
    rustscript_buffer_free b m = Undefined"
  using assms(1-3)
proof (cases rule: repl_run_Done)
  case (empty w1)
  then show ?thesis using assms(5,6) by simp
next
  case (full v r v' w1 response enc a cap)
  have b: "b = \<lparr>buf_data = a, buf_len = length enc, buf_capacity = cap\<rparr>"
    using assms(5) full(6) by simp
  have fresh: "fresh_block a cap (mem w1)" "length enc \<le> cap"
    using assms(4) full(4) by (auto simp: allocator_ok_def)
  note ne = encoded_response_nonempty [OF full(3)]
  have "drop_vec a cap (new_vec a cap enc (mem w1)) = Done (mem w1)"
    by (rule drop_new_vec [OF fresh ne])
  then have "drop_vec a cap (mem w') = Done ((mem w1)\<lparr>slots := slots (mem w')\<rparr>)"
    using full(6) by (simp add: drop_vec_slots)
  moreover have "0 < cap" using fresh(2) ne by (cases enc) auto
  moreover have "blocks (mem w1) a = None" "0 < a" using fresh(1) by (simp_all add: fresh_block_def)
  ultimately have free: "rustscript_buffer_free b (mem w') = Done ((mem w1)\<lparr>slots := slots (mem w')\<rparr>)"
    and again: "rustscript_buffer_free b ((mem w1)\<lparr>slots := slots (mem w')\<rparr>) = Undefined"
    using fresh(2) by (simp_all add: rustscript_buffer_free_def b drop_vec_def)
  show ?thesis using full(1) free again by blast
qed

section \<open>Refinement of an abstract evaluation\<close>

text \<open>What a snippet means without pointers and bytes is the relation of \<^theory_text>\<open>Evaluation\<close>, which
  does not use the code that loads and reads back.\<close>

lemma repl_run_evaluates:
  assumes "target_ok (machine D)" and "keeps_slots D callback"
    and "output \<noteq> 0" and "slots (mem w) output \<noteq> None"
    and "placed (mem w) code bs" and "bs \<noteq> []" and "decode_program D bs = Inr p"
    and "placed (mem w) state sb" and "encode_repl_state ls = Inr sb" and "wire_values ls"
    and "evaluates D callback fuel p ls (emptied output w) status response w1"
    and "encode_repl_response response = Inr enc"
  shows "rustscript_repl_run_vmbc D code (length bs) state (length sb) callback fuel output w
      = give_output D output enc status w1" and "slots (mem w1) output \<noteq> None"
proof -
  have sb: "sb \<noteq> []" using assms(9) by (auto simp: encode_repl_state_iff state_bytes_def magic_bytes)
  have args: "nonempty_bytes (mem (emptied output w)) code (length bs) = Done (Inr bs)"
    "nonempty_bytes (mem (emptied output w)) state (length sb) = Done (Inr sb)"
    using assms(5,6,8) sb by (auto simp: nonempty_bytes_cases placed_def)
  have state: "decode_repl_state (machine D) sb = Inr ls"
    by (rule payload_codec.dec_enc [OF state_codec [OF assms(1)] assms(10,9)])
  from assms(11) obtain v r v' where ev: "length ls = program_local_count D p"
      "load_locals D 0 ls (with_host_dispatcher D p) = Inr v"
      "run D (dispatch_host (args_reserve D) callback) (with_fuel D fuel v) (emptied output w) = Done (r, v', w1)"
      "read_back D (vm_status r) v' = Inr response" "status = vm_status r"
    by (rule evaluates_code)
  show "slots (mem w1) output \<noteq> None"
    using ev(3) assms(2) by (metis emptied_sel(1) fun_upd_same keeps_slots_def option.distinct(1))
  have "load_snippet D bs sb = Inr v" using assms(7) state ev(1,2) by (simp add: load_snippet_def)
  moreover have "encode_outcome D status v' = Inr enc" using ev(4,5) assms(12) by (simp add: encode_outcome_def)
  ultimately show "rustscript_repl_run_vmbc D code (length bs) state (length sb) callback fuel output w
      = give_output D output enc status w1"
    using ev(3,5) by (simp add: repl_run_start [OF assms(3,4)] Let_def args)
qed

lemma give_output_owned:
  assumes "allocator_ok D" and "slots (mem w) output \<noteq> None" and "vec_block D (mem w) enc \<noteq> None" and "enc \<noteq> []"
  obtains w' b where "give_output D output enc status w = Done (status, w')" "slots (mem w') output = Some b"
    "load (cells (mem w')) (buf_data b) (buf_len b) = Some enc"
    "rustscript_buffer_free b (mem w') = Done ((mem w)\<lparr>slots := slots (mem w')\<rparr>)"
proof -
  obtain a cap where block: "vec_block D (mem w) enc = Some (a, cap)" using assms(3) by auto
  then have fresh: "fresh_block a cap (mem w)" "length enc \<le> cap" using assms(1) by (auto simp: allocator_ok_def)
  define b where "b = \<lparr>buf_data = a, buf_len = length enc, buf_capacity = cap\<rparr>"
  define w' where "w' = w\<lparr>mem := (new_vec a cap enc (mem w))\<lparr>slots := (slots (mem w))(output \<mapsto> b)\<rparr>\<rparr>"
  have "rustscript_buffer_free b (mem w') = Done ((mem w)\<lparr>slots := slots (mem w')\<rparr>)"
    using drop_new_vec [OF fresh assms(4)] fresh
    by (simp add: rustscript_buffer_free_def b_def w'_def drop_vec_slots fresh_block_def)
  moreover have "give_output D output enc status w = Done (status, w')"
    using block assms(2) by (auto simp: give_output_def write_slot_def new_vec_def w'_def b_def)
  ultimately show thesis by (intro that [of w' b]) (simp_all add: w'_def b_def new_vec_def)
qed

text \<open>C8. The C function refines the abstract evaluation: given the bytes of a program
  and of a state, it returns the status of the evaluation and leaves in the output buffer the
  bytes of its response, which any host decodes to that response. The evaluation is said in relations of its own:
  each value in its local, the fuel that is given or none, the status of the header file for the end of the run,
  all locals, and the value on top of the stack.\<close>

theorem repl_run_refines:
  assumes "target_ok (machine D)" and "target_ok T" and "allocator_ok D" and "keeps_slots D callback"
    and "output \<noteq> 0" and "slots (mem w) output \<noteq> None"
    and "placed (mem w) code bs" and "bs \<noteq> []" and "decode_program D bs = Inr p"
    and "placed (mem w) state sb" and "encode_repl_state ls = Inr sb" and "wire_values ls"
    and "evaluates D callback fuel p ls (emptied output w) status response w1"
    and "encode_repl_response response = Inr enc" and "wire_response response"
    and "vec_block D (mem w1) enc \<noteq> None"
  shows "\<exists>w' b enc. rustscript_repl_run_vmbc D code (length bs) state (length sb) callback fuel output w
      = Done (status, w') \<and> slots (mem w') output = Some b \<and>
    load (cells (mem w')) (buf_data b) (buf_len b) = Some enc \<and> decode_repl_response T enc = Inr response"
proof -
  note run = repl_run_evaluates [OF assms(1,4-14)]
  have "decode_repl_response T enc = Inr response"
    by (rule payload_codec.dec_enc [OF response_codec [OF assms(2)] assms(15,14)])
  with give_output_owned [OF assms(3) run(2) assms(16) encoded_response_nonempty [OF assms(14)], of status] run(1)
  show ?thesis by metis
qed

section \<open>Loading the locals\<close>

abbreviation machine_value :: "('p, 'v, 'c, 'x, 'st, 'u) device \<Rightarrow> repl_value \<Rightarrow> 'c vm_value" where
  "machine_value D x \<equiv> projr (repl_to_embedded (make_map D) x)"

lemma machine_value:
  assumes "keeps_distinct (make_map D)" and "distinct_keys x"
  shows "repl_to_embedded (make_map D) x = Inr (machine_value D x)"
    and "embedded_to_repl (machine_value D x) = Inr x"
  using survives_distinct [OF assms] by (auto simp: survives_def)

lemma load_local_step:
  assumes "set_local_ok D" and "keeps_distinct (make_map D)" and "distinct_keys x"
    and "i mod 256 < length (vm_locals D v)"
  shows "\<exists>v'. load_locals D i [x] v = Inr v' \<and>
    vm_locals D v' = (vm_locals D v)[i mod 256 := machine_value D x]"
proof -
  have "unat (of_nat i :: u8) = i mod 256" by (simp add: unat_of_nat)
  then have "\<exists>v'. set_local D (of_nat i) (machine_value D x) v = Inr v' \<and>
      vm_locals D v' = (vm_locals D v)[i mod 256 := machine_value D x]"
    using assms(1,4) by (metis set_local_ok_def)
  moreover obtain e where "repl_to_embedded (make_map D) x = Inr e"
    using machine_value(1) [OF assms(2,3)] by blast
  ultimately show ?thesis by auto
qed

lemma load_locals_prefix:
  assumes "set_local_ok D" and "keeps_distinct (make_map D)" and "list_all distinct_keys ls"
    and "length ls \<le> length (vm_locals D v)" and "length ls \<le> 256"
  shows "\<exists>v'. load_locals D 0 ls v = Inr v' \<and>
    vm_locals D v' = map (machine_value D) ls @ drop (length ls) (vm_locals D v)"
  using assms
proof (induction ls rule: rev_induct)
  case (snoc x ls)
  then obtain v1 where v1: "load_locals D 0 ls v = Inr v1"
      "vm_locals D v1 = map (machine_value D) ls @ drop (length ls) (vm_locals D v)"
    by auto
  obtain v2 where v2: "load_locals D (length ls) [x] v1 = Inr v2"
      "vm_locals D v2 = (vm_locals D v1)[length ls := machine_value D x]"
    using load_local_step [OF snoc.prems(1,2), of x "length ls" v1] snoc.prems v1(2) by auto
  have "vm_locals D v2 = map (machine_value D) (ls @ [x]) @ drop (length (ls @ [x])) (vm_locals D v)"
    using v1(2) v2(2) snoc.prems(4) Cons_nth_drop_Suc [of "length ls" "vm_locals D v", symmetric]
    by (simp add: list_update_append)
  then show ?case using v1(1) v2(1) by (simp add: load_locals_append)
qed simp

text \<open>A state with one value per local, at most 256 of them, is loaded without an
  error, and read back from the machine it is the same state.\<close>

theorem locals_reach_machine:
  assumes "set_local_ok D" and "keeps_distinct (make_map D)" and "list_all distinct_keys ls"
    and "length ls = length (vm_locals D v)" and "length ls \<le> 256"
  shows "\<exists>v'. load_locals D 0 ls v = Inr v' \<and> collect (map embedded_to_repl (vm_locals D v')) = Inr ls"
proof -
  have "map embedded_to_repl (map (machine_value D) ls) = map Inr ls"
    using machine_value(2) [OF assms(2)] assms(3) by (simp add: list_all_iff)
  then show ?thesis
    using load_locals_prefix [OF assms(1-3) _ assms(5), of v] assms(4) by (auto simp: collect_Inr)
qed

text \<open>C32. The index of a local is truncated to a byte: with 257 locals the last value
  overwrites local 0, local 256 keeps what the machine had, and no error is reported.\<close>

theorem locals_wrap_at_256:
  assumes "set_local_ok D" and "keeps_distinct (make_map D)" and "list_all distinct_keys ls"
    and "length ls = 257" and "length (vm_locals D v) = 257"
  shows "\<exists>v'. load_locals D 0 ls v = Inr v' \<and> embedded_to_repl (vm_locals D v' ! 0) = Inr (ls ! 256) \<and>
    vm_locals D v' ! 256 = vm_locals D v ! 256"
proof -
  have ls: "ls = take 256 ls @ [ls ! 256]"
    using assms(4) take_Suc_conv_app_nth [of 256 ls] by simp
  have keys: "list_all distinct_keys (take 256 ls)" "distinct_keys (ls ! 256)"
    using assms(3,4) by (auto simp: list_all_iff dest: in_set_takeD)
  obtain v1 where v1: "load_locals D 0 (take 256 ls) v = Inr v1"
      "vm_locals D v1 = map (machine_value D) (take 256 ls) @ drop 256 (vm_locals D v)"
    using load_locals_prefix [OF assms(1,2) keys(1), of v] assms(4,5) by auto
  then have len: "length (vm_locals D v1) = 257" using assms(4,5) by simp
  obtain v2 where v2: "load_locals D 256 [ls ! 256] v1 = Inr v2"
      "vm_locals D v2 = (vm_locals D v1)[0 := machine_value D (ls ! 256)]"
    using load_local_step [OF assms(1,2) keys(2), of 256 v1] len by auto
  have "load_locals D 0 ls v = Inr v2"
    by (subst ls) (use v1(1) v2(1) assms(4) in \<open>simp add: load_locals_append\<close>)
  moreover have "embedded_to_repl (vm_locals D v2 ! 0) = Inr (ls ! 256)"
    using v2(2) len machine_value(2) [OF assms(2) keys(2)] by simp
  moreover have "vm_locals D v2 ! 256 = vm_locals D v ! 256"
    using v2(2) v1(2) assms(4,5) by (simp add: nth_append)
  ultimately show ?thesis by blast
qed

section \<open>Host calls\<close>

text \<open>A host call with scalar arguments reaches the callback once, with the
  converted arguments in order; a status of 1 and a result within its contract is the value
  that the call returns, a status of 0 is no value.\<close>

theorem host_call_passes_values:
  fixes args :: "('c vm_value \<times> addr) list"
  assumes "callback name (map (\<lambda>(v, p). projr (from_embedded p v)) args) null_value w = Done (status, f, w')"
    and "list_all (\<lambda>(v, p). \<not> compound v) args" and "reserve (length args)"
    and "status = 0 \<or> status = 1 \<and> to_embedded (mem w') f = Done (Inr x)"
  shows "dispatch_host reserve (Some callback) name args w
    = Done (Inr (if status = 1 then Some x else None), w')"
proof -
  have "\<not> compound v \<Longrightarrow> from_embedded p v = Inr (projr (from_embedded p v))" for p and v :: "'c vm_value"
    by (cases v) (simp_all add: from_embedded_def)
  then have "collect (map (\<lambda>(v, p). from_embedded p v) args) = Inr (map (\<lambda>(v, p). projr (from_embedded p v)) args)"
    using assms(2) by (auto simp: collect_Inr list_all_iff)
  then show ?thesis using assms(1,3,4) by (auto simp: dispatch_host_def)
qed

section \<open>A small machine\<close>

text \<open>A machine whose programs are a local count and do nothing, on which the properties above are
  applied: the program at 16, the state at 32, the output buffer at 8.\<close>

definition small_machine :: "(nat, unit vm_value list, unit, unit, unit, 'u) device" where
  "small_machine = \<lparr>
     decode_program = (\<lambda>bs. case bs of [] \<Rightarrow> Inl () | b # _ \<Rightarrow> Inr (unat b)),
     program_local_count = (\<lambda>n. n),
     with_host_dispatcher = (\<lambda>n. replicate n VNull),
     set_local = (\<lambda>i e v. if unat i < length v then Inr (v[unat i := e]) else Inl (OtherVmError ())),
     set_fuel = (\<lambda>_ v. v),
     run = (\<lambda>d v w. Done (Inr (), v, w)),
     vm_locals = (\<lambda>v. v),
     vm_stack = (\<lambda>v. v),
     make_map = first_entries,
     machine = esp_target,
     args_reserve = (\<lambda>_. True),
     vec_block = (\<lambda>m bs. if fresh_block 100 (length bs) m then Some (100, length bs) else None)\<rparr>"

abbreviation small_device :: "(nat, unit vm_value list, unit, unit, unit, unit) device" where
  "small_device \<equiv> small_machine"

definition demo_state :: "u8 list" where
  "demo_state = [82, 83, 82, 49, 1, 0, 0, 0, 1, 7, 0, 0, 0, 0, 0, 0, 0]"

definition demo_answer :: "u8 list" where
  "demo_answer = [82, 83, 79, 49, 1, 0, 0, 0, 1, 7, 0, 0, 0, 0, 0, 0, 0, 1, 1, 7, 0, 0, 0, 0, 0, 0, 0]"

definition demo_world :: "unit world" where
  "demo_world = \<lparr>mem = \<lparr>cells = store 32 demo_state (store 16 [1] (\<lambda>_. None)), blocks = (\<lambda>_. None),
     slots = (\<lambda>_. None)(8 \<mapsto> empty_buffer)\<rparr>, user = ()\<rparr>"

definition demo_response :: repl_response where
  "demo_response = \<lparr>locals = [ReplInt 7], result = Some (ReplInt 7)\<rparr>"

definition demo_ran :: "unit world" where
  "demo_ran = demo_world\<lparr>mem := (new_vec 100 27 demo_answer (mem demo_world))\<lparr>slots :=
     (\<lambda>_. None)(8 \<mapsto> \<lparr>buf_data = 100, buf_len = 27, buf_capacity = 27\<rparr>)\<rparr>\<rparr>"

lemma demo_contract [simp]:
  "allocator_ok small_machine" "keeps_slots small_machine callback" "run_defined small_machine callback"
  "set_local_ok small_machine" "keeps_distinct (make_map small_machine)"
  by (auto simp: allocator_ok_def keeps_slots_def run_defined_def set_local_ok_def small_machine_def
      keeps_first_entries split: if_splits)

lemma demo_sel [simp]:
  "machine small_machine = esp_target" "vm_locals small_machine v = v"
  "decode_program small_machine [1] = Inr 1"
  by (simp_all add: small_machine_def)

lemma demo_lengths [simp]: "length demo_state = 17" "length demo_answer = 27" "demo_state \<noteq> []"
  by (simp_all add: demo_state_def demo_answer_def)

lemma demo_codecs:
  "encode_repl_state [ReplInt 7] = Inr demo_state" "encode_repl_response demo_response = Inr demo_answer"
  "wire_values [ReplInt 7]" "wire_response demo_response"
  by (simp_all add: encode_repl_state_iff encode_repl_response_iff state_bytes_def response_bytes_def
      response_values_def demo_state_def demo_answer_def demo_response_def magic_bytes le_eval
      MAX_NESTING_def MAX_WIRE_BYTES_def wire_values_def wire_response_def total_nodes_def MAX_VALUE_NODES_def)

lemma demo_slot [simp]: "slots (mem demo_world) 8 = Some empty_buffer" "emptied 8 demo_world = demo_world"
  by (simp_all add: emptied_def demo_world_def)

lemma demo_placed [simp]: "placed (mem demo_world) 16 [1]" "placed (mem demo_world) 32 demo_state"
  using load_store [of 32 demo_state "store 16 [1] (\<lambda>_. None)"]
    load_store_other [of 16 1 32 demo_state "store 16 [1] (\<lambda>_. None)"] load_store [of 16 "[1]" "\<lambda>_. None"]
  by (auto simp: placed_def demo_world_def)

lemma demo_block: "vec_block small_device (mem demo_world) demo_answer = Some (100, 27)"
proof -
  show ?thesis
    by (auto simp: small_machine_def fresh_block_def demo_world_def store_outside)
qed

lemma demo_evaluates: "evaluates small_device None 0 1 [ReplInt 7] demo_world 0 demo_response demo_world"
  using evaluates_by_code [of "[ReplInt 7]" small_device 1 "[VInt 7]" None 0 demo_world "Inr ()" "[VInt 7]" demo_world]
  by (simp add: small_machine_def with_fuel_def vm_status_def status_defs read_back_def demo_response_def)

lemma demo_run:
  "rustscript_repl_run_vmbc small_device 16 1 32 17 None 0 8 demo_world = Done (0, demo_ran)"
proof -
  have args: "nonempty_bytes (mem demo_world) 16 1 = Done (Inr [1])"
    "nonempty_bytes (mem demo_world) 32 17 = Done (Inr demo_state)"
    using demo_placed by (simp_all add: nonempty_bytes_cases placed_def del: load.simps)
  have "decode_repl_state esp_target demo_state = Inr [ReplInt 7]"
    by (rule esp_state.dec_enc [OF demo_codecs(3,1)])
  then have snippet: "load_snippet small_device [1] demo_state = Inr [VInt 7]"
    by (simp add: load_snippet_def small_machine_def)
  have answer: "encode_outcome small_device 0 [VInt 7] = Inr demo_answer"
    using demo_codecs(2) by (simp add: encode_outcome_def read_back_def small_machine_def status_defs demo_response_def)
  have run: "run small_device d v w = Done (Inr (), v, w)" "with_fuel small_device 0 v = v" for d v w
    by (simp_all add: small_machine_def with_fuel_def)
  have give: "give_output small_device 8 demo_answer 0 demo_world = Done (0, demo_ran)"
    by (simp add: give_output_def demo_block demo_ran_def write_slot_def new_vec_def)
      (simp add: demo_world_def)
  have start: "rustscript_repl_run_vmbc small_device 16 1 32 17 None 0 8 demo_world =
      (let w = demo_world in
      or_return (nonempty_bytes (mem w) 16 1) w (\<lambda>bs.
      or_return (nonempty_bytes (mem w) 32 17) w (\<lambda>state_bytes.
      or_return (Done (load_snippet small_device bs state_bytes)) w (\<lambda>v.
      c_then (run small_device (dispatch_host (args_reserve small_device) None) (with_fuel small_device 0 v) w) (\<lambda>(r, v, w).
      or_return (Done (encode_outcome small_device (vm_status r) v)) w (\<lambda>encoded.
      give_output small_device 8 encoded (vm_status r) w))))))"
    using repl_run_start [of 8 demo_world small_device 16 1 32 17 None 0] by simp
  show ?thesis
    unfolding start Let_def args snippet run or_return_simps c_then_simps
    by (simp add: vm_status_def status_defs answer give)
qed

theorem invalid_arguments_refused_witness:
  "rustscript_repl_run_vmbc small_device 0 5 32 17 None 0 8 demo_world
    = Done (RUSTSCRIPT_STATUS_INVALID_ARGUMENT, emptied 8 demo_world)"
  by (rule invalid_arguments_refused) simp_all

theorem repl_run_defined_witness:
  "rustscript_repl_run_vmbc small_device 16 1 0 3 None 0 8 demo_world \<noteq> Undefined"
  by (rule repl_run_defined) (use demo_placed in \<open>simp_all add: readable_def writable_def placed_def del: load.simps\<close>)

theorem output_owned_or_empty_witness:
  "\<exists>b. slots (mem demo_ran) 8 = Some b \<and>
    b \<in> insert empty_buffer {b. \<exists>response. owns_response (mem demo_ran) b response}"
  by (rule output_owned_or_empty [OF demo_run]) simp_all

theorem buffer_freed_once_witness:
  "\<exists>m v r v' w1. run_with small_device None v (emptied 8 demo_world) = Done (r, v', w1) \<and>
    rustscript_buffer_free \<lparr>buf_data = 100, buf_len = 27, buf_capacity = 27\<rparr> (mem demo_ran) = Done m \<and>
    m = (mem w1)\<lparr>slots := slots (mem demo_ran)\<rparr> \<and>
    rustscript_buffer_free \<lparr>buf_data = 100, buf_len = 27, buf_capacity = 27\<rparr> m = Undefined"
  by (rule buffer_freed_once [OF demo_run]) (simp_all add: demo_ran_def empty_buffer_def)

theorem repl_run_refines_witness:
  "\<exists>w' b enc. rustscript_repl_run_vmbc small_device 16 (length [1 :: u8]) 32 (length demo_state) None 0 8 demo_world
      = Done (0, w') \<and> slots (mem w') 8 = Some b \<and>
    load (cells (mem w')) (buf_data b) (buf_len b) = Some enc \<and>
    decode_repl_response host_target enc = Inr demo_response"
  by (rule repl_run_refines [where p = 1 and ls = "[ReplInt 7]" and enc = demo_answer and ?w1.0 = demo_world])
    (use demo_evaluates demo_codecs demo_block in simp_all)

theorem locals_reach_machine_witness:
  "\<exists>v'. load_locals small_device 0 [ReplNull, ReplBool True] [VNull, VNull] = Inr v' \<and>
    collect (map embedded_to_repl (vm_locals small_device v')) = Inr [ReplNull, ReplBool True]"
  by (rule locals_reach_machine) simp_all

theorem locals_wrap_at_256_witness:
  "\<exists>v'. load_locals small_device 0 (replicate 257 (ReplBool True)) (replicate 257 VNull) = Inr v' \<and>
    embedded_to_repl (vm_locals small_device v' ! 0) = Inr (replicate 257 (ReplBool True) ! 256) \<and>
    vm_locals small_device v' ! 256 = vm_locals small_device (replicate 257 VNull) ! 256"
  by (rule locals_wrap_at_256) (simp_all add: list_all_iff)

theorem host_call_passes_values_witness:
  "dispatch_host (\<lambda>_. True) (Some (\<lambda>name args f w. Done (1, hd args, w))) ''echo'' [(VInt 3 :: unit vm_value, 0)] demo_world
    = Done (Inr (if (1 :: i32) = 1 then Some (VInt 3) else None), demo_world)"
  by (rule host_call_passes_values [where f = "null_value\<lparr>tag := tag_byte Tag_Int, integer := 3\<rparr>"])
    (simp_all add: from_embedded_def to_embedded_def)

end
