(* ===== verification/Host_Contract.thy ===== *)
theory Host_Contract
  imports Ffi_Safety
begin

text \<open>
  The contract between the C interface, the virtual machine and the host functions of a board. A
  host function that is called with readable arguments must have a defined behaviour, leave the
  heap as it is, and return a value that can be read; a machine that passes only readable
  arguments, and does nothing else to memory, then runs every program within the same limits.
\<close>

section \<open>Memory\<close>

text \<open>The same blocks are live, and the buffers of the caller are the same.\<close>

definition same_heap :: "memory \<Rightarrow> memory \<Rightarrow> bool" where
  "same_heap m m' \<longleftrightarrow> blocks m' = blocks m \<and> slots m' = slots m"

lemma same_heap_refl [simp]: "same_heap m m"
  by (simp add: same_heap_def)

lemma same_heap_trans: "same_heap m m1 \<Longrightarrow> same_heap m1 m2 \<Longrightarrow> same_heap m m2"
  by (simp add: same_heap_def)

text \<open>Also, what could be read can still be read; static buffers may have a new content.\<close>

definition kept :: "memory \<Rightarrow> memory \<Rightarrow> bool" where
  "kept m m' \<longleftrightarrow> same_heap m m' \<and> dom (cells m) \<subseteq> dom (cells m')"

lemma kept_refl [simp]: "kept m m"
  by (simp add: kept_def)

lemma kept_trans: "kept m m1 \<Longrightarrow> kept m1 m2 \<Longrightarrow> kept m m2"
  by (auto simp: kept_def intro: same_heap_trans)

lemma kept_same_heap: "kept m m' \<Longrightarrow> same_heap m m'"
  by (simp add: kept_def)

lemma dom_store: "dom (store a bs c) = dom c \<union> {a..<a + length bs}"
  by (induction bs arbitrary: a) auto

lemma load_iff_dom: "load c a n \<noteq> None \<longleftrightarrow> {a..<a + n} \<subseteq> dom c"
proof (induction n arbitrary: a)
  case (Suc n)
  have "{a..<a + Suc n} = insert a {Suc a..<Suc a + n}" by auto
  with Suc [of "Suc a"] show ?case by (auto split: option.split)
qed simp

lemma kept_load: "kept m m' \<Longrightarrow> load (cells m) a n \<noteq> None \<Longrightarrow> load (cells m') a n \<noteq> None"
  unfolding load_iff_dom kept_def by blast

lemma kept_readable: "kept m m' \<Longrightarrow> readable m p n \<Longrightarrow> readable m' p n"
  by (auto simp: readable_def dest: kept_load)

section \<open>Host functions\<close>

text \<open>A value of the C interface whose bytes, if it has any, can be read.\<close>

definition data_readable :: "memory \<Rightarrow> ffi_value \<Rightarrow> bool" where
  "data_readable m v \<longleftrightarrow> (tag v = tag_byte Tag_String \<or> tag v = tag_byte Tag_Bytes \<longrightarrow> readable m (data v) (len v))"

definition callback_ok :: "'u callback \<Rightarrow> bool" where
  "callback_ok callback \<longleftrightarrow> (\<forall>name args res w. list_all (data_readable (mem w)) args \<longrightarrow>
     ensures (callback name args res w) (\<lambda>(status, res', w').
       kept (mem w) (mem w') \<and> (status = 1 \<longrightarrow> data_readable (mem w') res')))"

text \<open>The arguments of a call as the machine passes them.\<close>

definition args_readable :: "memory \<Rightarrow> ('c vm_value \<times> addr) list \<Rightarrow> bool" where
  "args_readable m args \<longleftrightarrow> list_all (\<lambda>(v, p). case v of
       VString s \<Rightarrow> readable m p (length s) | VBytes bs \<Rightarrow> readable m p (length bs) | _ \<Rightarrow> True) args"

definition dispatcher_ok :: "('c, 'u) dispatcher \<Rightarrow> bool" where
  "dispatcher_ok d \<longleftrightarrow> (\<forall>name args w. args_readable (mem w) args \<longrightarrow>
     ensures (d name args w) (\<lambda>(r, w'). kept (mem w) (mem w')))"

lemma readable_to_embedded: "data_readable m v \<Longrightarrow> ensures (to_embedded m v) (\<lambda>r. True)"
  by (auto simp: to_embedded_def data_readable_def readable_def borrowed_bytes_def split: option.split)

lemma data_readable_args:
  assumes "args_readable m args" and "collect (map (\<lambda>(v, p). from_embedded p v) args) = Inr vs"
  shows "list_all (data_readable m) vs"
  using assms
proof (induction args arbitrary: vs)
  case (Cons a args)
  obtain v p where a: "a = (v, p)" by (cases a)
  from Cons.prems(2) obtain x xs where "from_embedded p v = Inr x"
      "collect (map (\<lambda>(v, p). from_embedded p v) args) = Inr xs" "vs = x # xs"
    by (auto simp: a and_then_def split: sum.splits)
  with Cons show ?case
    by (cases v) (auto simp: a from_embedded_def args_readable_def data_readable_def null_value_def tag_byte_def)
qed simp

text \<open>What \<open>dispatch_host\<close> makes of a callback, or of none.\<close>

lemma dispatch_ok:
  fixes callback :: "'u callback option"
  assumes "\<And>f. callback = Some f \<Longrightarrow> callback_ok f"
  shows "dispatcher_ok (dispatch_host reserve callback :: ('c, 'u) dispatcher)"
  unfolding dispatcher_ok_def
proof (intro allI impI)
  fix name and args :: "('c vm_value \<times> addr) list" and w :: "'u world"
  assume args: "args_readable (mem w) args"
  show "ensures (dispatch_host reserve callback name args w) (\<lambda>(r, w'). kept (mem w) (mem w'))"
  proof (cases callback)
    case (Some f)
    show ?thesis
    proof (cases "collect (map (\<lambda>(v, p). from_embedded p v) args)")
      case (Inr vs)
      have "ensures (f name vs null_value w) (\<lambda>(status, res', w').
          kept (mem w) (mem w') \<and> (status = 1 \<longrightarrow> data_readable (mem w') res'))"
        using assms [OF Some] data_readable_args [OF args Inr] by (simp add: callback_ok_def)
      then show ?thesis
        unfolding dispatch_host_def Some Inr
        by (auto elim!: ensures_mono intro: readable_to_embedded)
    qed (simp add: dispatch_host_def Some)
  qed (simp add: dispatch_host_def)
qed

section \<open>The machine\<close>

definition machine_sound :: "('p, 'v, 'c, 'x, 'st, 'u) device \<Rightarrow> bool" where
  "machine_sound D \<longleftrightarrow> (\<forall>d v w. dispatcher_ok d \<longrightarrow>
     ensures (run D d v w) (\<lambda>(r, v', w'). kept (mem w) (mem w')))"

lemma sound_run:
  fixes D :: "('p, 'v, 'c, 'x, 'st, 'u) device"
  assumes "machine_sound D" and "callback_ok callback"
  shows "ensures (run_with D (Some callback) v w) (\<lambda>(r, v', w'). kept (mem w) (mem w'))"
proof -
  have "dispatcher_ok (dispatch_host (args_reserve D) (Some callback) :: ('c, 'u) dispatcher)"
    by (rule dispatch_ok) (use assms(2) in simp)
  then show ?thesis using assms(1) by (simp add: machine_sound_def)
qed

lemma sound_contracts:
  assumes "machine_sound D" and "callback_ok callback"
  shows "keeps_slots D (Some callback)" and "run_defined D (Some callback)"
proof -
  show "run_defined D (Some callback)"
    unfolding run_defined_def using sound_run [OF assms] ensures_not_Undefined by blast
  show "keeps_slots D (Some callback)"
    unfolding keeps_slots_def using ensures_Done [OF sound_run [OF assms]]
    by (fastforce simp: kept_def same_heap_def)
qed

end
