(* ===== verification/Firmware_Props.thy ===== *)
theory Firmware_Props
  imports Firmware Transport_Safety Host_Contract
begin

text \<open>
  Lemmas about the firmware: its checksums are the host's, what it assumes of the serial port
  (locale \<open>serial_port\<close>), that it reads back the frames the host sends and writes the frames
  the host expects, and how a round leaves the heap.
\<close>

section \<open>Checksums\<close>

lemma crc_bits_c_eq: "crc_bits_c n crc = (crc_bit ^^ n) crc"
  by (induction n arbitrary: crc) (simp_all add: crc_bit_def Let_def funpow_swap1)

lemma crc_bytes_c_eq: "crc_bytes_c crc bs = foldl crc_byte crc bs"
  by (induction bs arbitrary: crc) (simp_all add: crc_byte_def crc_bits_c_eq del: crc_bits_c.simps)

lemma rustscript_crc32_eq [simp]: "rustscript_crc32 bs = crc32 bs"
  by (simp add: rustscript_crc32_def crc32_def crc_bytes_c_eq)

lemma rotl_1: "push_bit 1 x OR drop_bit 31 x = word_rotl 1 x" for x :: u32
proof (rule bit_word_eqI)
  fix n
  assume "n < LENGTH(32)"
  then show "bit (push_bit 1 x OR drop_bit 31 x) n = bit (word_rotl 1 x) n"
    by (cases n) (auto simp: bit_or_iff bit_drop_bit_eq bit_word_rotl_iff bit_double_iff mult.commute [of x 2]
      dest: bit_imp_le_length)
qed

lemma repl_request_crc_eq [simp]: "repl_request_crc prog state = request_crc prog state"
  using rotl_1 [of "crc32 state"] by (simp add: repl_request_crc_def request_crc_def Let_def)

section \<open>Frames\<close>

lemma magic_c [simp]:
  "REPL_REQUEST_MAGIC_C = REPL_REQUEST_MAGIC" "REPL_RESPONSE_MAGIC_C = REPL_RESPONSE_MAGIC"
  by (simp_all add: REPL_REQUEST_MAGIC_C_def REPL_RESPONSE_MAGIC_C_def REPL_REQUEST_MAGIC_def REPL_RESPONSE_MAGIC_def)

text \<open>The header of a request, taken apart the way the firmware does, and what it accepts.\<close>

lemma length_request_header [simp]: "length (request_header rid prog state) = 24"
  by (simp add: request_header_def REPL_REQUEST_MAGIC_def)

lemma request_header_fields:
  fixes rid :: u32 and prog state :: "u8 list"
  defines "h \<equiv> request_header rid prog state"
  shows "take 4 h = REPL_REQUEST_MAGIC" "from_le (slice 4 6 h) = FRAME_VERSION" "from_le (slice 8 12 h) = rid"
    "from_le (slice 12 16 h) = (of_nat (length prog) :: u32)"
    "from_le (slice 16 20 h) = (of_nat (length state) :: u32)"
    "from_le (slice 20 24 h) = request_crc prog state"
proof -
  let ?m = REPL_REQUEST_MAGIC and ?v = "u16_bytes FRAME_VERSION @ [0, 0]"
  have m: "length ?m = 4" by (simp add: REPL_REQUEST_MAGIC_def)
  show "take 4 h = ?m" using m by (simp add: h_def request_header_def)
  show "from_le (slice 4 6 h) = FRAME_VERSION"
    using m unfolding h_def request_header_def by (intro le16.dec_slice) simp_all
  show "from_le (slice 8 12 h) = rid"
    using m le32.dec_slice [of "?m @ ?v" 8 12 rid] by (simp add: h_def request_header_def)
  show "from_le (slice 12 16 h) = (of_nat (length prog) :: u32)"
    using m le32.dec_slice [of "?m @ ?v @ u32_bytes rid" 12 16 "of_nat (length prog)"]
    by (simp add: h_def request_header_def)
  show "from_le (slice 16 20 h) = (of_nat (length state) :: u32)"
    using m le32.dec_slice [of "?m @ ?v @ u32_bytes rid @ u32_bytes (of_nat (length prog))" 16 20 "of_nat (length state)"]
    by (simp add: h_def request_header_def)
  show "from_le (slice 20 24 h) = request_crc prog state"
    using m le32.dec_slice [of "?m @ ?v @ u32_bytes rid @ u32_bytes (of_nat (length prog))
        @ u32_bytes (of_nat (length state))" 20 24 "request_crc prog state" "[]"]
    by (simp add: h_def request_header_def)
qed

lemma request_header_ok: "\<not> frame_header_bad (request_header rid prog state)"
  using request_header_fields [of rid prog state]
  by (simp add: frame_header_bad_def REPL_FRAME_VERSION_def FRAME_VERSION_def)

lemma unat_of_length: "n \<le> MAX_FRAME_BYTES \<Longrightarrow> unat (of_nat n :: u32) = n"
  by (simp add: unat_of_nat take_bit_nat_eq_self MAX_FRAME_BYTES_def)

lemma frame_sizes_ok:
  assumes "0 < m" and "0 < n" and "m + n \<le> MAX_FRAME_BYTES"
  shows "\<not> frame_sizes_bad (of_nat m) (of_nat n)"
proof -
  have "unat (of_nat m :: u32) = m" "unat (of_nat n :: u32) = n"
    using assms by (simp_all add: unat_of_length)
  moreover have "unat (REPL_MAX_FRAME_SIZE - of_nat n) = 128 * 1024 - n"
    using assms by (subst unat_sub) (simp_all add: REPL_MAX_FRAME_SIZE_def MAX_FRAME_BYTES_def word_le_nat_alt
        calculation)
  ultimately show ?thesis
    using assms by (auto simp: frame_sizes_bad_def word_less_nat_alt MAX_FRAME_BYTES_def REPL_MAX_FRAME_SIZE_def
        unat_eq_0 [symmetric] simp del: unat_eq_0)
qed

section \<open>The serial port\<close>

text \<open>What is expected of the port, over the bytes that have arrived and those that were sent: reads
  take from the front, in pieces of any size, and time out only when nothing is left; writes
  append. No operation does anything else to the two.\<close>

locale serial_port =
  fixes S :: "'u serial"
    and rx tx :: "'u \<Rightarrow> u8 list"
  assumes available: "serial_available S u = (waiting, u') \<Longrightarrow>
        (waiting \<noteq> 0) = (rx u \<noteq> []) \<and> rx u' = rx u \<and> tx u' = tx u"
    and peek: "serial_peek S u = (if rx u = [] then None else Some (hd (rx u)))"
    and read_one: "rx (snd (serial_read S u)) = tl (rx u) \<and> tx (snd (serial_read S u)) = tx u"
    and read_bytes: "serial_read_bytes S n u = (bs, u') \<Longrightarrow>
        rx u = bs @ rx u' \<and> length bs \<le> n \<and> tx u' = tx u \<and> (bs = [] \<longrightarrow> n = 0 \<or> rx u = [])"
    and wrote: "rx (serial_write S bs u) = rx u" "tx (serial_write S bs u) = tx u @ bs"
    and printed: "rx (serial_print S s u) = rx u" "tx (serial_print S s u) = tx u @ as_bytes s"
    and printed_line: "rx (serial_println S s u) = rx u" "tx (serial_println S s u) = tx u @ as_bytes s @ [13, 10]"
    and flushed: "rx (serial_flush S u) = rx u" "tx (serial_flush S u) = tx u"
    and timeout_set: "rx (serial_set_timeout S ms u) = rx u" "tx (serial_set_timeout S ms u) = tx u"
    and clock_read: "board_millis S u = (now, u') \<Longrightarrow> rx u' = rx u \<and> tx u' = tx u"
    and waited: "rx (board_delay S ms u) = rx u" "tx (board_delay S ms u) = tx u"
begin

lemmas writes [simp] = wrote printed printed_line flushed timeout_set waited

text \<open>The loop of \<open>read_serial_payload\<close> puts the pieces together.\<close>

lemma fill_enough:
  "n \<le> length (rx u) \<Longrightarrow>
     \<exists>u'. fill_payload S n u = (True, take n (rx u), u') \<and> rx u' = drop n (rx u) \<and> tx u' = tx u"
proof (induction n arbitrary: u rule: less_induct)
  case (less n)
  obtain bs u1 where r: "serial_read_bytes S n u = (bs, u1)" by fastforce
  note law = read_bytes [OF r]
  show ?case
  proof (cases "n = 0")
    case False
    with law less.prems have bs: "bs \<noteq> []" by auto
    have "length (rx u) = length bs + length (rx u1)" using law by simp
    then have "n - length bs < n" "n - length bs \<le> length (rx u1)" using False bs less.prems by (cases bs; simp)+
    from less.IH [OF this] law
    obtain u' where "fill_payload S (n - length bs) u1 = (True, take (n - length bs) (rx u1), u')"
      "rx u' = drop (n - length bs) (rx u1)" "tx u' = tx u1" by auto
    then show ?thesis using False bs r law by (subst fill_payload.simps) (auto simp: take_append)
  qed (simp add: fill_payload.simps)
qed

lemma fill_short:
  "length (rx u) < n \<Longrightarrow>
     \<exists>u'. fill_payload S n u = (False, rx u, u') \<and> rx u' = [] \<and> tx u' = tx u"
proof (induction n arbitrary: u rule: less_induct)
  case (less n)
  obtain bs u1 where r: "serial_read_bytes S n u = (bs, u1)" by fastforce
  note law = read_bytes [OF r]
  show ?case
  proof (cases "bs = []")
    case True
    then show ?thesis using law less.prems r by (subst fill_payload.simps) auto
  next
    case False
    have "length (rx u) = length bs + length (rx u1)" using law by simp
    then have "n - length bs < n" "length (rx u1) < n - length bs" using False less.prems by (cases bs; simp)+
    from less.IH [OF this] law
    obtain u' where "fill_payload S (n - length bs) u1 = (False, rx u1, u')" "rx u' = []" "tx u' = tx u1" by auto
    then show ?thesis using False r law less.prems by (subst fill_payload.simps) auto
  qed
qed

lemma payload_enough:
  assumes "n \<le> length (rx u)"
  obtains u' where "read_serial_payload S n u = (True, take n (rx u), u')" "rx u' = drop n (rx u)" "tx u' = tx u"
proof -
  obtain u' where "fill_payload S n (serial_set_timeout S 10000 u) = (True, take n (rx u), u')"
      "rx u' = drop n (rx u)" "tx u' = tx u"
    using fill_enough [of n "serial_set_timeout S 10000 u"] assms by auto
  then show thesis by (intro that [of "serial_set_timeout S (serial_timeout S u) u'"]) (auto simp: read_serial_payload_def)
qed

lemma payload_short:
  assumes "length (rx u) < n"
  obtains u' where "read_serial_payload S n u = (False, rx u, u')" "rx u' = []" "tx u' = tx u"
proof -
  obtain u' where "fill_payload S n (serial_set_timeout S 10000 u) = (False, rx u, u')" "rx u' = []" "tx u' = tx u"
    using fill_short [of "serial_set_timeout S 10000 u" n] assms by auto
  then show thesis by (intro that [of "serial_set_timeout S (serial_timeout S u) u'"]) (auto simp: read_serial_payload_def)
qed

lemma response_written:
  assumes "bytes_at (mem w) p n = Done bs"
  obtains u where "write_repl_response S rid status p n w = Done (w\<lparr>user := u\<rparr>)" "rx u = rx (user w)"
    "tx u = tx (user w) @ response_frame rid [0, 0] status bs"
proof -
  have n: "length bs = n" using assms by (auto simp: bytes_at_def load_length split: option.splits)
  then have "n = 0 \<longleftrightarrow> bs = []" by auto
  with n assms that show thesis
    by (auto simp: write_repl_response_def Let_def response_frame_def response_header_def
        REPL_FRAME_VERSION_def FRAME_VERSION_def)
qed

end

section \<open>A request on the board\<close>

text \<open>The board of the firmware: its port, and a heap that keeps its promise.\<close>

locale firmware_board = serial_port "fw_serial F" rx tx
  for F :: "('p, 'v, 'c, 'x, 'st, 'u) firmware" and rx tx :: "'u \<Rightarrow> u8 list" +
  assumes heap: "heap_ok (fw_place F)"
begin

lemma binary_read:
  assumes "0 < n" and "n \<le> length (rx (user w))" and "fw_place F n (mem w) \<noteq> 0"
    and "read_serial_payload (fw_serial F) n (user w) = (ok, bs, u)"
  shows "read_serial_binary F n w = Done (fw_place F n (mem w),
      w\<lparr>mem := new_vec (fw_place F n (mem w)) n bs (mem w), user := u\<rparr>)"
    and "bs = take n (rx (user w))" and "rx u = drop n (rx (user w))" and "tx u = tx (user w)"
    and "fresh_block (fw_place F n (mem w)) n (mem w)"
proof -
  obtain u' where u': "read_serial_payload (fw_serial F) n (user w) = (True, take n (rx (user w)), u')"
      "rx u' = drop n (rx (user w))" "tx u' = tx (user w)"
    by (rule payload_enough [OF assms(2)])
  then show "bs = take n (rx (user w))" "rx u = drop n (rx (user w))" "tx u = tx (user w)"
    using assms(4) by simp_all
  show "fresh_block (fw_place F n (mem w)) n (mem w)" using heap assms(3) by (simp add: heap_ok_def)
  have "c_malloc (fw_place F) n (mem w) = (fw_place F n (mem w), new_vec (fw_place F n (mem w)) n [] (mem w))"
    using assms(3) by (simp add: c_malloc_def Let_def new_vec_def)
  moreover have "length bs \<le> n" using u'(1) assms(4) by auto
  ultimately show "read_serial_binary F n w = Done (fw_place F n (mem w),
      w\<lparr>mem := new_vec (fw_place F n (mem w)) n bs (mem w), user := u\<rparr>)"
    using assms(1,3,4) u'(1) by (simp add: read_serial_binary_def write_new_vec)
qed

end

text \<open>Where a request ends up: the blocks of its two parts, and the world with them.\<close>

definition program_at :: "('p, 'v, 'c, 'x, 'st, 'u) firmware \<Rightarrow> u8 list \<Rightarrow> 'u world \<Rightarrow> addr" where
  "program_at F prog w = fw_place F (length prog) (mem w)"

definition with_program :: "('p, 'v, 'c, 'x, 'st, 'u) firmware \<Rightarrow> u8 list \<Rightarrow> 'u world \<Rightarrow> memory" where
  "with_program F prog w = new_vec (program_at F prog w) (length prog) prog (mem w)"

definition state_at :: "('p, 'v, 'c, 'x, 'st, 'u) firmware \<Rightarrow> u8 list \<Rightarrow> u8 list \<Rightarrow> 'u world \<Rightarrow> addr" where
  "state_at F prog state w = fw_place F (length state) (with_program F prog w)"

definition request_read :: "'u serial \<Rightarrow> nat \<Rightarrow> nat \<Rightarrow> 'u \<Rightarrow> 'u" where
  "request_read S m n u =
     (case read_serial_payload S REPL_FRAME_HEADER_SIZE u of (_, _, u) \<Rightarrow>
      case read_serial_payload S m u of (_, _, u) \<Rightarrow>
      case read_serial_payload S n u of (_, _, u) \<Rightarrow> u)"

definition request_world :: "('p, 'v, 'c, 'x, 'st, 'u) firmware \<Rightarrow> u8 list \<Rightarrow> u8 list \<Rightarrow> 'u world \<Rightarrow> 'u world" where
  "request_world F prog state w =
     w\<lparr>mem := new_vec (state_at F prog state w) (length state) state (with_program F prog w),
       user := request_read (fw_serial F) (length prog) (length state) (user w)\<rparr>"

text \<open>There is room for a request.\<close>

definition request_fits :: "('p, 'v, 'c, 'x, 'st, 'u) firmware \<Rightarrow> u8 list \<Rightarrow> u8 list \<Rightarrow> 'u world \<Rightarrow> bool" where
  "request_fits F prog state w \<longleftrightarrow> prog \<noteq> [] \<and> state \<noteq> [] \<and> length prog + length state \<le> MAX_FRAME_BYTES
     \<and> program_at F prog w \<noteq> 0 \<and> state_at F prog state w \<noteq> 0"

context firmware_board
begin

lemma frame_received:
  assumes "rx (user w) = request_header rid prog' state' @ prog @ state @ tail"
    and "length prog' = length prog" and "length state' = length state"
    and "request_fits F prog state w"
  shows "serve_frame F w =
      (if request_crc prog state = request_crc prog' state' then
         run_frame F rid (program_at F prog w) (length prog) (state_at F prog state w) (length state)
           (request_world F prog state w)
       else c_then (free_at (program_at F prog w) (request_world F prog state w)) (\<lambda>w'.
         c_then (free_at (state_at F prog state w) w')
           (write_repl_response (fw_serial F) rid RUSTSCRIPT_STATUS_INVALID_REPL_STATE 0 0)))"
    and "rx (user (request_world F prog state w)) = tail" and "tx (user (request_world F prog state w)) = tx (user w)"
    and "fresh_block (program_at F prog w) (length prog) (mem w)"
    and "fresh_block (state_at F prog state w) (length state) (with_program F prog w)"
proof -
  let ?S = "fw_serial F" and ?h = "request_header rid prog' state'"
  note fits = assms(4) [unfolded request_fits_def]
  obtain u0 where u0: "read_serial_payload ?S REPL_FRAME_HEADER_SIZE (user w) = (True, ?h, u0)"
      "rx u0 = prog @ state @ tail" "tx u0 = tx (user w)"
    using payload_enough [of REPL_FRAME_HEADER_SIZE "user w"] assms(1) by (auto simp: REPL_FRAME_HEADER_SIZE_def)
  let ?w0 = "w\<lparr>user := u0\<rparr>"
  obtain ok1 bs1 u1 where r1: "read_serial_payload ?S (length prog) (user ?w0) = (ok1, bs1, u1)" by (metis prod_cases3)
  have at1: "fw_place F (length prog) (mem ?w0) = program_at F prog w" by (simp add: program_at_def)
  note b1 = binary_read [OF _ _ _ r1, unfolded at1]
  let ?w1 = "w\<lparr>mem := with_program F prog w, user := u1\<rparr>"
  have b1': "read_serial_binary F (length prog) ?w0 = Done (program_at F prog w, ?w1)"
    "rx u1 = state @ tail" "tx u1 = tx (user w)" "fresh_block (program_at F prog w) (length prog) (mem w)"
    using b1 u0 fits by (simp_all add: with_program_def)
  obtain ok2 bs2 u2 where r2: "read_serial_payload ?S (length state) (user ?w1) = (ok2, bs2, u2)" by (metis prod_cases3)
  have at2: "fw_place F (length state) (mem ?w1) = state_at F prog state w" by (simp add: state_at_def)
  note b2 = binary_read [OF _ _ _ r2, unfolded at2]
  have u2: "request_read ?S (length prog) (length state) (user w) = u2"
    using u0(1) r1 r2 by (simp add: request_read_def)
  have b2': "read_serial_binary F (length state) ?w1 = Done (state_at F prog state w, request_world F prog state w)"
    "rx u2 = tail" "tx u2 = tx (user w)" "fresh_block (state_at F prog state w) (length state) (with_program F prog w)"
    using b2 b1' fits u2 by (simp_all add: request_world_def)
  show "fresh_block (program_at F prog w) (length prog) (mem w)"
    "fresh_block (state_at F prog state w) (length state) (with_program F prog w)" by fact+
  show "rx (user (request_world F prog state w)) = tail" "tx (user (request_world F prog state w)) = tx (user w)"
    using b2' u2 by (simp_all add: request_world_def)
  have bytes: "bytes_at (mem (request_world F prog state w)) (program_at F prog w) (length prog) = Done prog"
    "bytes_at (mem (request_world F prog state w)) (state_at F prog state w) (length state) = Done state"
    using load_new_vec_other [OF b2'(4), of state "program_at F prog w" "length prog" prog] load_new_vec [OF b1'(4), of prog]
      load_new_vec [OF b2'(4), of state]
    by (simp_all add: bytes_at_def request_world_def with_program_def)
  have sizes: "\<not> frame_sizes_bad (of_nat (length prog)) (of_nat (length state))"
    "unat (of_nat (length prog) :: u32) = length prog" "unat (of_nat (length state) :: u32) = length state"
    using fits frame_sizes_ok [of "length prog" "length state"] by (simp_all add: unat_of_length)
  note f = request_header_fields [of rid prog' state', unfolded assms(2,3)] request_header_ok [of rid prog' state']
  show "serve_frame F w =
      (if request_crc prog state = request_crc prog' state' then
         run_frame F rid (program_at F prog w) (length prog) (state_at F prog state w) (length state)
           (request_world F prog state w)
       else c_then (free_at (program_at F prog w) (request_world F prog state w)) (\<lambda>w'.
         c_then (free_at (state_at F prog state w) w')
           (write_repl_response (fw_serial F) rid RUSTSCRIPT_STATUS_INVALID_REPL_STATE 0 0)))"
    using fits by (simp add: serve_frame_def serve_state_def serve_loaded_def u0(1) f sizes b1'(1) b2'(1) bytes Let_def)
qed

end

section \<open>Running a request\<close>

text \<open>A run of the machine keeps the heap, so the memory after it is again one with two blocks of the
  sizes of the request.\<close>

lemma kept_block:
  assumes "kept (new_vec a (length xs) xs m) m2" and "fresh_block a (length xs) m"
  obtains xs' where "length xs' = length xs" "load (cells m2) a (length xs) = Some xs'"
proof -
  have "load (cells m2) a (length xs) \<noteq> None"
    by (rule kept_load [OF assms(1)]) (simp add: load_new_vec [OF assms(2)])
  then obtain xs' where xs': "load (cells m2) a (length xs) = Some xs'" by blast
  show thesis by (rule that [OF load_length [OF xs'] xs'])
qed

lemma store_load:
  assumes "load c a n = Some xs"
  shows "store a xs (forget a n c) = c"
proof
  fix x
  have len: "length xs = n" by (rule load_length [OF assms])
  show "store a xs (forget a n c) x = c x"
  proof (cases "x \<in> {a..<a + n}")
    case True
    then obtain i where "x = a + i" "i < n" by (auto simp: le_iff_add)
    then show ?thesis using load_nth [OF assms, of i] len by (simp add: store_inside)
  next
    case False
    then show ?thesis using len by (auto simp: store_outside forget_def)
  qed
qed

lemma two_blocks_kept:
  assumes "fresh_block a (length xs) m" and "fresh_block b (length ys) (new_vec a (length xs) xs m)"
    and "kept (new_vec b (length ys) ys (new_vec a (length xs) xs m)) m2"
  obtains m' xs' ys' where "m2 = new_vec b (length ys) ys' (new_vec a (length xs) xs' m')" "same_heap m m'"
    "length xs' = length xs" "length ys' = length ys"
    "fresh_block a (length xs) m'" "fresh_block b (length ys) (new_vec a (length xs) xs' m')"
proof -
  let ?m1 = "new_vec a (length xs) xs m"
  let ?m2 = "new_vec b (length ys) ys ?m1"
  note fb = fresh_new_vec [OF assms(2) refl]
  obtain ys' where ys': "length ys' = length ys" "load (cells m2) b (length ys) = Some ys'"
    by (rule kept_block [OF assms(3,2)])
  have "load (cells ?m2) a (length xs) = Some xs"
    by (rule load_new_vec_other [OF assms(2) order_refl load_new_vec [OF assms(1)]])
  then have "load (cells m2) a (length xs) \<noteq> None" by (intro kept_load [OF assms(3)]) simp
  then obtain xs' where xs': "load (cells m2) a (length xs) = Some xs'" by blast
  note lx = load_length [OF xs']
  define m' where "m' = m2\<lparr>cells := forget a (length xs) (forget b (length ys) (cells m2)), blocks := blocks m\<rparr>"
  have "load (forget b (length ys) (cells m2)) a (length xs) = load (cells m2) a (length xs)"
    using fb(3) by (intro load_cong) (auto simp: forget_def)
  then have cells: "store b ys' (store a xs' (cells m')) = cells m2"
    using store_load [of "forget b (length ys) (cells m2)"] xs' store_load [OF ys'(2)] by (simp add: m'_def)
  have same: "blocks m2 = blocks ?m2" "slots m2 = slots m"
    using assms(3) by (simp_all add: kept_def same_heap_def new_vec_def)
  show thesis
  proof (rule that [OF _ _ lx ys'(1), of m'])
    show "m2 = new_vec b (length ys) ys' (new_vec a (length xs) xs' m')"
      using cells same by (simp add: new_vec_def m'_def)
    show "same_heap m m'" using same(2) by (simp add: same_heap_def m'_def)
    show "fresh_block a (length xs) m'"
      using assms(1) by (auto simp: fresh_block_def m'_def forget_def)
    show "fresh_block b (length ys) (new_vec a (length xs) xs' m')"
      by (rule fresh_new_vecI [OF _ fb(2), where xs = xs', unfolded lx, OF _ fb(3)])
        (use fb(1) in \<open>auto simp: fresh_block_def m'_def forget_def\<close>)
  qed
qed

text \<open>The firmware with a machine and an allocator that keep their contracts. \<open>run_frame\<close> then
  answers with the status of the call and with the response in its buffer, if there is one, and
  gives back all three blocks.\<close>

definition frame_call :: "('p, 'v, 'c, 'x, 'st, 'u) firmware \<Rightarrow> addr \<Rightarrow> nat \<Rightarrow> addr \<Rightarrow> nat \<Rightarrow> 'u world
    \<Rightarrow> (i32 \<times> 'u world) c_outcome" where
  "frame_call F a n b k w = rustscript_repl_run_vmbc (fw_device F) a n b k
     (Some (fw_dispatch F)) REPL_FUEL (fw_output F) (emptied (fw_output F) w)"

text \<open>The memory of a call: two blocks on top of \<open>m\<close>.\<close>

definition request_blocks :: "addr \<Rightarrow> u8 list \<Rightarrow> addr \<Rightarrow> u8 list \<Rightarrow> memory \<Rightarrow> memory \<Rightarrow> bool" where
  "request_blocks a prog b state m m2 \<longleftrightarrow> fresh_block a (length prog) m
     \<and> fresh_block b (length state) (new_vec a (length prog) prog m)
     \<and> m2 = new_vec b (length state) state (new_vec a (length prog) prog m)"

lemma request_loads:
  assumes "request_blocks a prog b state m m2"
  shows "load (cells m2) a (length prog) = Some prog" and "load (cells m2) b (length state) = Some state"
proof -
  note req = assms [unfolded request_blocks_def]
  then show "load (cells m2) b (length state) = Some state" by (simp add: load_new_vec)
  have "load (cells (new_vec a (length prog) prog m)) a (length prog) = Some prog"
    using req by (simp add: load_new_vec)
  from load_new_vec_other [OF _ order_refl this] req
  show "load (cells m2) a (length prog) = Some prog" by simp
qed

locale trusted_board = firmware_board F rx tx
  for F :: "('p, 'v, 'c, 'x, 'st, 'u) firmware" and rx tx :: "'u \<Rightarrow> u8 list" +
  assumes allocator: "allocator_ok (fw_device F)"
    and machine_ok: "machine_sound (fw_device F)"
    and dispatch: "callback_ok (fw_dispatch F)"
    and output_place: "fw_output F \<noteq> 0"
begin

lemma emptied_twice [simp]: "emptied p (emptied p w) = emptied p w"
  by (simp add: emptied_def)

lemma run_frame_called:
  "run_frame F rid a n b k w
    = c_then (frame_call F a n b k w) (\<lambda>(status, w2).
       c_then (free_at a w2) (\<lambda>w2.
       c_then (free_at b w2) (\<lambda>w2.
       case slots (mem w2) (fw_output F) of
         None \<Rightarrow> Undefined
       | Some out \<Rightarrow>
           c_then (write_repl_response (fw_serial F) rid status (buf_data out) (buf_len out) w2) (\<lambda>w2.
           c_then (if 0 < buf_len out then rustscript_buffer_free out (mem w2) else Done (mem w2)) (\<lambda>m.
           Done (w2\<lparr>mem := m\<lparr>slots := (slots m)(fw_output F := None)\<rparr>\<rparr>))))))"
  by (simp add: run_frame_def frame_call_def emptied_def Let_def)

lemma ran_kept: "run_with (fw_device F) (Some (fw_dispatch F)) v w = Done (r, v', w1) \<Longrightarrow> kept (mem w) (mem w1)"
  using sound_run [OF machine_ok dispatch, of v w] by simp

lemmas slots_kept = sound_contracts(1) [OF machine_ok dispatch]

lemma kept_called:
  assumes "request_blocks a prog b state m (mem w)" and "kept (mem (emptied (fw_output F) w)) (mem w1)"
  obtains m' prog' state' where "request_blocks a prog' b state' m' (mem w1)"
    "length prog' = length prog" "length state' = length state"
    "blocks m' = blocks m" "slots m' = (slots m)(fw_output F \<mapsto> empty_buffer)"
proof -
  let ?m = "m\<lparr>slots := (slots m)(fw_output F \<mapsto> empty_buffer)\<rparr>"
  have blocks: "fresh_block a (length prog) ?m" "fresh_block b (length state) (new_vec a (length prog) prog ?m)"
    "mem (emptied (fw_output F) w) = new_vec b (length state) state (new_vec a (length prog) prog ?m)"
    using assms(1) by (simp_all add: request_blocks_def fresh_block_def new_vec_def emptied_def)
  obtain m' prog' state' where "mem w1 = new_vec b (length state) state' (new_vec a (length prog) prog' m')" "same_heap ?m m'"
      "length prog' = length prog" "length state' = length state"
      "fresh_block a (length prog) m'" "fresh_block b (length state) (new_vec a (length prog) prog' m')"
    by (rule two_blocks_kept [OF blocks(1,2) assms(2) [unfolded blocks(3)]])
  then show thesis by (intro that [of prog' state' m']) (simp_all add: same_heap_def request_blocks_def)
qed

lemma frame_answered:
  assumes "frame_call F a (length prog) b (length state) w = Done (status, w2)"
    and "request_blocks a prog b state m0 (mem w)" and "slots m0 (fw_output F) = None"
  obtains w' buf payload where "run_frame F rid a (length prog) b (length state) w = Done w'"
    "slots (mem w2) (fw_output F) = Some buf" "load (cells (mem w2)) (buf_data buf) (buf_len buf) = Some payload"
    "rx (user w') = rx (user w2)" "tx (user w') = tx (user w2) @ response_frame rid [0, 0] status payload"
    "same_heap m0 (mem w')"
proof -
  let ?o = "fw_output F"
  note run = run_frame_called [of rid a "length prog" b "length state" w] assms(1)
  note called = assms(1) [unfolded frame_call_def]
  show thesis
    using called output_place slots_kept
  proof (cases rule: repl_run_Done)
    case (empty w1)
    have "kept (mem (emptied ?o w)) (mem w1)" using empty(3) ran_kept by auto
    from kept_called [OF assms(2) this] obtain m prog' state' where m:
        "request_blocks a prog' b state' m (mem w1)" "length prog' = length prog" "length state' = length state"
        "blocks m = blocks m0" "slots m = (slots m0)(?o \<mapsto> empty_buffer)" .
    note req = m(1) [unfolded request_blocks_def m(2,3)]
    note free = free_two [where xs = prog' and ys = state', unfolded m(2,3), OF req [THEN conjunct1] req [THEN conjunct2, THEN conjunct1]]
    obtain u where u: "write_repl_response (fw_serial F) rid status 0 0 (w1\<lparr>mem := m\<rparr>) = Done (w1\<lparr>mem := m, user := u\<rparr>)"
        "rx u = rx (user w1)" "tx u = tx (user w1) @ response_frame rid [0, 0] status []"
      using response_written [of "w1\<lparr>mem := m\<rparr>" 0 0 "[]" rid status] by auto
    show thesis
      by (rule that [of "w1\<lparr>mem := m\<lparr>slots := (slots m)(?o := None)\<rparr>, user := u\<rparr>" empty_buffer "[]"])
        (use run empty m req free u assms(3) in \<open>auto simp: free_at_def empty_buffer_def same_heap_def\<close>)
  next
    case (full v r v' w1 response enc c cap)
    let ?buf = "\<lparr>buf_data = c, buf_len = length enc, buf_capacity = cap\<rparr>"
    have "kept (mem (emptied ?o w)) (mem w1)" using ran_kept [OF full(1)] by simp
    from kept_called [OF assms(2) this] obtain m prog' state' where m:
        "request_blocks a prog' b state' m (mem w1)" "length prog' = length prog" "length state' = length state"
        "blocks m = blocks m0" "slots m = (slots m0)(?o \<mapsto> empty_buffer)" .
    note req = m(1) [unfolded request_blocks_def m(2,3)]
    have c: "fresh_block c cap (mem w1)" "length enc \<le> cap"
      using full(4) allocator by (auto simp: allocator_ok_def)
    note ne = encoded_response_nonempty [OF full(3)]
    define m0' where "m0' = m\<lparr>slots := (slots m)(?o \<mapsto> ?buf)\<rparr>"
    have m0': "mem w2 = new_vec c cap enc (new_vec b (length state) state' (new_vec a (length prog) prog' m0'))"
      using full(6) req by (simp add: m0'_def new_vec_def)
    have fresh: "fresh_block a (length prog) m0'" "fresh_block b (length state) (new_vec a (length prog) prog' m0')"
        "fresh_block c cap (new_vec b (length state) state' (new_vec a (length prog) prog' m0'))"
      using req c(1) by (simp_all add: m0'_def fresh_block_def new_vec_def)
    note free = free_three [where xs = prog' and ys = state', unfolded m(2,3), OF fresh c(2) ne]
    let ?w = "w2\<lparr>mem := new_vec c cap enc m0'\<rparr>"
    have "bytes_at (mem ?w) c (length enc) = Done enc" by (simp add: bytes_at_def new_vec_def)
    from response_written [OF this, of rid status]
    obtain u where u: "write_repl_response (fw_serial F) rid status c (length enc) ?w = Done (?w\<lparr>user := u\<rparr>)"
        "rx u = rx (user w2)" "tx u = tx (user w2) @ response_frame rid [0, 0] status enc" by auto
    have "c \<noteq> 0" using c(1) by (simp add: fresh_block_def)
    then have bf: "rustscript_buffer_free ?buf (new_vec c cap enc m0') = Done m0'"
      using free(3) c(2) by (simp add: rustscript_buffer_free_def)
    have sl: "slots (new_vec c cap enc m0') ?o = Some ?buf" "slots (mem w2) ?o = Some ?buf"
      by (simp_all add: m0' m0'_def new_vec_def)
    show thesis
      by (rule that [of "w2\<lparr>mem := m0'\<lparr>slots := (slots m0')(?o := None)\<rparr>, user := u\<rparr>" ?buf enc])
        (use run free u bf sl m m0' ne assms(3) in \<open>auto simp: free_at_def same_heap_def m0'_def new_vec_def fun_upd_idem\<close>)
  qed
qed

end

end
