(* ===== verification/Firmware_Safety.thy ===== *)
theory Firmware_Safety
  imports Firmware_Props
begin

text \<open>
  Properties of the firmware: whatever arrives on the line, no step of it has undefined behaviour
  or leaves a block behind; a request is answered with the evaluation of its program, a damaged
  or oversized one with an error of the same id.
\<close>

section \<open>Blocks\<close>

text \<open>The memory with one block more.\<close>

definition owns :: "addr \<Rightarrow> nat \<Rightarrow> memory \<Rightarrow> memory \<Rightarrow> bool" where
  "owns a n m m' \<longleftrightarrow> a \<noteq> 0 \<and> blocks m a = None \<and> blocks m' = (blocks m)(a \<mapsto> n) \<and> slots m' = slots m"

lemma owns_new_vec: "fresh_block a n m \<Longrightarrow> owns a n m (new_vec a n bs m)"
  by (auto simp: owns_def fresh_block_def new_vec_def)

lemma owns_kept: "owns a n m m1 \<Longrightarrow> same_heap m1 m2 \<Longrightarrow> owns a n m m2"
  by (auto simp: owns_def same_heap_def)

lemma free_owned: "owns a n m m' \<Longrightarrow> ensures (c_free a m') (same_heap m)"
  by (auto simp: owns_def c_free_def same_heap_def)

lemma free_at_owned: "owns a n m (mem w) \<Longrightarrow> ensures (free_at a w) (\<lambda>w'. same_heap m (mem w') \<and> user w' = user w)"
  by (simp add: free_at_def) (rule ensures_mono [OF free_owned], simp_all)

context firmware_board
begin

lemma payload_length:
  assumes "read_serial_payload (fw_serial F) n u = (ok, bs, u')"
  shows "length bs \<le> n \<and> (ok \<longrightarrow> length bs = n)"
proof (cases "n \<le> length (rx u)")
  case True
  from payload_enough [OF this] show ?thesis using assms True by (metis Pair_inject length_take min.absorb2 order_refl)
next
  case False
  then have "length (rx u) < n" by simp
  from payload_short [OF this] show ?thesis using assms \<open>length (rx u) < n\<close> by (metis Pair_inject less_imp_le)
qed

lemma binary_ensures:
  "ensures (read_serial_binary F n w) (\<lambda>(a, w').
     a = 0 \<and> mem w' = mem w \<or>
     (\<exists>bs. a \<noteq> 0 \<and> length bs = n \<and> fresh_block a n (mem w) \<and> mem w' = new_vec a n bs (mem w)))"
proof -
  obtain ok bs u where r: "read_serial_payload (fw_serial F) n (user w) = (ok, bs, u)" by (metis prod_cases3)
  note len = payload_length [OF r]
  show ?thesis
    by (rule malloc_cases [OF heap, of n "mem w"])
      (use r len in \<open>auto simp: read_serial_binary_def write_new_vec free_new_vec\<close>)
qed

lemma response_ensures:
  "load (cells (mem w)) p n \<noteq> None \<Longrightarrow> ensures (write_repl_response S rid status p n w) (\<lambda>w'. mem w' = mem w)"
  by (auto simp: write_repl_response_def bytes_at_def Let_def)

lemma discard_ensures: "ensures (discard_serial_until_quiet S w) (\<lambda>w'. mem w' = mem w)"
  by (auto simp: discard_serial_until_quiet_def split: prod.split option.split)

lemma refuse_ensures: "ensures (refuse_frame S rid w) (\<lambda>w'. mem w' = mem w)"
  unfolding refuse_frame_def ensures_simps
  by (rule ensures_mono [OF discard_ensures]) (rule ensures_mono [OF response_ensures], simp_all)

end

context trusted_board
begin

lemma frame_call_defined:
  assumes "request_blocks a prog b state m (mem w)"
  shows "frame_call F a (length prog) b (length state) w \<noteq> Undefined"
proof -
  let ?w = "emptied (fw_output F) w"
  have "readable (mem ?w) a (length prog)" "readable (mem ?w) b (length state)" "writable (mem ?w) (fw_output F)"
    using request_loads [OF assms] by (simp_all add: readable_def writable_def)
  from repl_run_defined [OF this sound_contracts(2,1) [OF machine_ok dispatch]] show ?thesis
    by (simp add: frame_call_def)
qed

lemma run_frame_ensures:
  assumes "request_blocks a prog b state m (mem w)" and "slots m (fw_output F) = None"
  shows "ensures (run_frame F rid a (length prog) b (length state) w) (\<lambda>w'. same_heap m (mem w'))"
proof (cases "frame_call F a (length prog) b (length state) w")
  case (Done r)
  obtain status w2 where "r = (status, w2)" by (cases r)
  from frame_answered [OF Done [unfolded this] assms] show ?thesis by (metis ensures_simps(3))
next
  case Diverges
  then show ?thesis by (simp add: run_frame_called)
next
  case Undefined
  then show ?thesis using frame_call_defined [OF assms(1)] by simp
qed

lemma serve_loaded_ensures:
  assumes "request_blocks a prog b state (mem w0) (mem w)" and "slots (mem w0) (fw_output F) = None"
  shows "ensures (serve_loaded F rid crc a (length prog) b (length state) w) (\<lambda>w'. same_heap (mem w0) (mem w'))"
proof -
  note req = assms(1) [unfolded request_blocks_def]
  have bytes: "bytes_at (mem w) a (length prog) = Done prog" "bytes_at (mem w) b (length state) = Done state"
    using request_loads [OF assms(1)] by (simp_all add: bytes_at_def)
  have "ensures (c_then (free_at a w) (\<lambda>w. c_then (free_at b w) (write_repl_response S rid st 0 0)))
      (\<lambda>w'. same_heap (mem w0) (mem w'))" for S st
    using free_two [of a prog "mem w0" b state] req
    by (auto simp: free_at_def intro: ensures_mono [OF response_ensures])
  then show ?thesis
    using run_frame_ensures [OF assms] by (simp add: serve_loaded_def bytes)
qed

lemma serve_state_ensures:
  assumes "fresh_block a (length prog) (mem w0)" and "mem w = new_vec a (length prog) prog (mem w0)"
    and "slots (mem w0) (fw_output F) = None"
  shows "ensures (serve_state F rid crc a (length prog) k w) (\<lambda>w'. same_heap (mem w0) (mem w'))"
  unfolding serve_state_def ensures_simps
proof (rule ensures_mono [OF binary_ensures], clarify)
  fix b and w' :: "'u world"
  assume "b = 0 \<and> mem w' = mem w \<or>
    (\<exists>bs. b \<noteq> 0 \<and> length bs = k \<and> fresh_block b k (mem w) \<and> mem w' = new_vec b k bs (mem w))"
  then show "ensures (if b = 0 then c_then (free_at a w') (refuse_frame (fw_serial F) rid)
      else serve_loaded F rid crc a (length prog) b k w') (\<lambda>w'. same_heap (mem w0) (mem w'))"
  proof
    assume "b = 0 \<and> mem w' = mem w"
    then show ?thesis
      using free_new_vec [OF assms(1), of prog] assms(2)
      by (auto simp: free_at_def intro: ensures_mono [OF refuse_ensures])
  next
    assume "\<exists>bs. b \<noteq> 0 \<and> length bs = k \<and> fresh_block b k (mem w) \<and> mem w' = new_vec b k bs (mem w)"
    then obtain bs where b: "b \<noteq> 0" "length bs = k" "request_blocks a prog b bs (mem w0) (mem w')"
      using assms(1,2) by (auto simp: request_blocks_def)
    then show ?thesis using serve_loaded_ensures [OF b(3) assms(3)] by simp
  qed
qed

lemma serve_frame_ensures:
  assumes "slots (mem w) (fw_output F) = None"
  shows "ensures (serve_frame F w) (\<lambda>w'. same_heap (mem w) (mem w'))"
proof -
  obtain ok h u where r: "read_serial_payload (fw_serial F) REPL_FRAME_HEADER_SIZE (user w) = (ok, h, u)"
    by (metis prod_cases3)
  have refuse: "ensures (refuse_frame (fw_serial F) rid w') (\<lambda>w'. same_heap (mem w) (mem w'))" if "mem w' = mem w" for w' rid
    by (rule ensures_mono [OF refuse_ensures]) (simp add: that)
  have "ensures (c_then (read_serial_binary F n (w\<lparr>user := u\<rparr>)) (\<lambda>(prog, w).
      if prog = 0 then refuse_frame (fw_serial F) rid w else serve_state F rid crc prog n k w))
      (\<lambda>w'. same_heap (mem w) (mem w'))" for n k rid crc
    unfolding ensures_simps
  proof (rule ensures_mono [OF binary_ensures], clarify)
    fix a and w' :: "'u world"
    assume "a = 0 \<and> mem w' = mem (w\<lparr>user := u\<rparr>) \<or> (\<exists>bs. a \<noteq> 0 \<and> length bs = n
      \<and> fresh_block a n (mem (w\<lparr>user := u\<rparr>)) \<and> mem w' = new_vec a n bs (mem (w\<lparr>user := u\<rparr>)))"
    then show "ensures (if a = 0 then refuse_frame (fw_serial F) rid w' else serve_state F rid crc a n k w')
      (\<lambda>w'. same_heap (mem w) (mem w'))"
      using refuse [of w' rid] serve_state_ensures [OF _ _ assms, of a _ w'] by auto
  qed
  then show ?thesis using refuse by (auto simp: serve_frame_def r Let_def)
qed

end

section \<open>Commands and storage\<close>

text \<open>A read of the flash that succeeds gives all the bytes, one of a file at most as many.\<close>

locale storage_board = trusted_board F rx tx
  for F :: "('p, 'v, 'c, 'x, 'st, 'u) firmware" and rx tx :: "'u \<Rightarrow> u8 list" +
  assumes flash_read: "partition_read (fw_flash F) i n u = (Some bs, u') \<Longrightarrow> length bs = n"
    and file_read: "sd_read (fw_sd F) n u = (bs, u') \<Longrightarrow> length bs \<le> n"
begin

text \<open>A program in a block of its own.\<close>

definition holds_image :: "memory \<Rightarrow> script_image option \<times> 'u world \<Rightarrow> bool" where
  "holds_image m = (\<lambda>(r, w). case r of
       None \<Rightarrow> same_heap m (mem w)
     | Some img \<Rightarrow> owns (image_data img) (image_len img) m (mem w)
         \<and> load (cells (mem w)) (image_data img) (image_len img) \<noteq> None)"

lemma run_vmbc_ensures:
  assumes "load (cells (mem w)) p n \<noteq> None"
  shows "ensures (rustscript_run_vmbc (fw_device F) p n (Some (fw_dispatch F)) fuel w) (\<lambda>(status, w'). same_heap (mem w) (mem w'))"
proof -
  have ran: "ensures (run_with (fw_device F) (Some (fw_dispatch F)) v w) (\<lambda>a. same_heap (mem w) (mem (snd (snd a))))" for v
    by (rule ensures_mono [OF sound_run [OF machine_ok dispatch]]) (auto simp: kept_same_heap)
  then show ?thesis
    using assms by (auto simp: rustscript_run_vmbc_def borrowed_bytes_def split: sum.split intro!: ensures_mono [OF ran])
qed

lemma run_payload_ensures:
  assumes "load (cells (mem w)) p n \<noteq> None"
  shows "ensures (run_repl_payload F p n w) (\<lambda>w'. same_heap (mem w) (mem w'))"
  unfolding run_repl_payload_def ensures_simps
  by (rule ensures_mono [OF run_vmbc_ensures [OF assms]]) auto

lemma keep_image_ensures:
  assumes "fresh_block a n m" and "length bs \<le> n" and "good \<Longrightarrow> length bs = n" and "mem w = new_vec a n bs m"
  shows "ensures (keep_image good a n source w) (holds_image m)"
proof (cases good)
  case True
  then show ?thesis
    using assms load_new_vec [OF assms(1), of bs] by (simp add: keep_image_def holds_image_def owns_new_vec)
next
  case False
  then show ?thesis
    using free_new_vec [OF assms(1,2)] assms(4) by (simp add: keep_image_def holds_image_def free_at_def)
qed

lemma load_payload_ensures: "ensures (load_payload F n crc w) (holds_image (mem w))"
proof -
  obtain r u where r: "partition_read (fw_flash F) IMAGE_HEADER_SIZE n (user w) = (r, u)" by fastforce
  then have len: "r = Some bs \<Longrightarrow> length bs = n" for bs by (simp add: flash_read)
  have none: "holds_image m (None, w')" if "mem w' = m" for m w' by (simp add: holds_image_def that)
  show ?thesis
    by (rule malloc_cases [OF heap, of n "mem w"]; cases r)
      (use r len in \<open>auto simp: load_payload_def none write_new_vec
        intro!: keep_image_ensures [where bs = "case r of None \<Rightarrow> [] | Some bs \<Rightarrow> bs"]\<close>)
qed

lemma load_partition_ensures: "ensures (rustscript_load_partition F w) (holds_image (mem w))"
proof -
  obtain r u where r: "partition_read (fw_flash F) 0 IMAGE_HEADER_SIZE (user w) = (r, u)" by fastforce
  have none: "holds_image (mem w) (None, w)" "holds_image (mem w) (None, w\<lparr>user := u\<rparr>)"
    by (simp_all add: holds_image_def)
  have "ensures (load_payload F n crc (w\<lparr>user := u\<rparr>)) (holds_image (mem w))" for n crc
    using load_payload_ensures [of n crc "w\<lparr>user := u\<rparr>"] by simp
  then show ?thesis
    using r none by (simp add: rustscript_load_partition_def Let_def split: option.split)
qed

lemma load_sd_ensures: "ensures (rustscript_load_sd F w) (holds_image (mem w))"
proof -
  have none: "holds_image (mem w) (None, w')" if "mem w' = mem w" for w' by (simp add: holds_image_def that)
  obtain ok u where b: "sd_begin (fw_sd F) (user w) = (ok, u)" by fastforce
  obtain r u1 where o: "sd_open (fw_sd F) RUSTSCRIPT_SD_PATH u = (r, u1)" by fastforce
  show ?thesis
  proof (cases "\<exists>f. ok \<and> r = Some f \<and> \<not> file_is_directory f \<and> file_size f \<noteq> 0")
    case False
    then show ?thesis using b o none by (cases ok; cases r) (auto simp: rustscript_load_sd_def Let_def)
  next
    case True
    then obtain f where f: "ok" "r = Some f" "\<not> file_is_directory f" "file_size f \<noteq> 0" by blast
    obtain bs u2 where s: "sd_read (fw_sd F) (file_size f) u1 = (bs, u2)" by fastforce
    show ?thesis
      by (rule malloc_cases [OF heap, of "file_size f" "mem w"])
        (use b o s f none file_read [OF s] in \<open>auto simp: rustscript_load_sd_def Let_def write_new_vec
          intro!: keep_image_ensures [where bs = bs]\<close>)
  qed
qed

lemma free_image_ensures:
  assumes "owns (image_data img) (image_len img) m (mem w)"
  shows "ensures (rustscript_free_image img w) (\<lambda>w'. same_heap m (mem w'))"
  unfolding rustscript_free_image_def by (rule ensures_mono [OF free_at_owned [OF assms]]) simp

lemma run_command_ensures: "ensures (run_command F w) (\<lambda>w'. same_heap (mem w) (mem w'))"
  unfolding run_command_def ensures_simps
proof (rule ensures_mono [OF load_partition_ensures], clarify)
  fix r and w1 :: "'u world"
  assume held: "holds_image (mem w) (r, w1)"
  show "ensures (case r of None \<Rightarrow> Done (say F ''rss:error=no-partition-script'' w1)
      | Some img \<Rightarrow> c_then (run_repl_payload F (image_data img) (image_len img) w1) (rustscript_free_image img))
      (\<lambda>w'. same_heap (mem w) (mem w'))"
  proof (cases r)
    case None
    then show ?thesis using held by (simp add: holds_image_def say_def)
  next
    case (Some img)
    with held have "ensures (run_repl_payload F (image_data img) (image_len img) w1) (\<lambda>w'. same_heap (mem w1) (mem w'))"
      by (intro run_payload_ensures) (simp add: holds_image_def)
    then show ?thesis
      using held Some by (auto simp: holds_image_def intro: free_image_ensures owns_kept elim!: ensures_mono)
  qed
qed

lemma say_mem [simp]: "mem (say F line w) = mem w"
  by (simp add: say_def)

lemma accept_ensures:
  assumes "fresh_block a (length bs) m" and "mem w = new_vec a (length bs) bs m"
  shows "ensures (accept_payload F a (length bs) crc install w) (\<lambda>w'. same_heap m (mem w'))"
proof -
  have own: "owns a (length bs) m (mem w)" and loaded: "load (cells (mem w)) a (length bs) = Some bs"
    using assms load_new_vec [OF assms(1)] by (simp_all add: owns_new_vec)
  have free: "ensures (free_at a w') (\<lambda>w'. same_heap m (mem w'))" if "same_heap (mem w) (mem w')" for w' :: "'u world"
    by (rule ensures_mono [OF free_at_owned [OF owns_kept [OF own that]]]) simp
  have "ensures (run_repl_payload F a (length bs) w') (\<lambda>w'. ensures (free_at a w') (\<lambda>w'. same_heap m (mem w')))"
    if "mem w' = mem w" for w'
    by (rule ensures_mono [OF run_payload_ensures]) (simp_all add: that loaded free)
  then show ?thesis
    by (auto simp: accept_payload_def bytes_at_def loaded Let_def free split: prod.split)
qed

lemma receive_ensures: "ensures (receive_repl_payload F n crc install w) (\<lambda>w'. same_heap (mem w) (mem w'))"
proof -
  obtain ok bs u where r: "read_serial_payload (fw_serial F) n (serial_println (fw_serial F) ''rss:ready'' (user w)) = (ok, bs, u)"
    by (metis prod_cases3)
  note len = payload_length [OF r]
  show ?thesis
  proof (rule malloc_cases [OF heap, of n "mem w"])
    assume "c_malloc (fw_place F) n (mem w) = (0, mem w)"
    then show ?thesis by (auto simp: receive_repl_payload_def Let_def)
  next
    fix a
    assume a: "c_malloc (fw_place F) n (mem w) = (a, new_vec a n [] (mem w))" "a \<noteq> 0" "fresh_block a n (mem w)"
    have "ensures (free_at a (say F s (w\<lparr>mem := new_vec a n bs (mem w), user := u\<rparr>))) (\<lambda>w'. same_heap (mem w) (mem w'))" for s
      using free_new_vec [OF a(3)] len by (simp add: free_at_def)
    moreover have "ensures (accept_payload F a n crc install (w\<lparr>mem := new_vec a n bs (mem w), user := u\<rparr>))
        (\<lambda>w'. same_heap (mem w) (mem w'))" if ok
      using accept_ensures [of a bs "mem w" "w\<lparr>mem := new_vec a n bs (mem w), user := u\<rparr>"] len that a(3) by simp
    ultimately show ?thesis
      using a r len by (auto simp: receive_repl_payload_def Let_def write_new_vec)
  qed
qed

lemma serve_line_ensures: "ensures (serve_line F line w) (\<lambda>w'. same_heap (mem w) (mem w'))"
  by (auto simp: serve_line_def receive_ensures run_command_ensures info_command_def split: option.split)

text \<open>No round, whatever arrives, has undefined behaviour or changes which blocks are live.\<close>

lemma round_ensures:
  assumes "slots (mem w) (fw_output F) = None"
  shows "ensures (repl_round F w) (\<lambda>w'. same_heap (mem w) (mem w'))"
proof -
  have "ensures (serve_frame F (w\<lparr>user := u\<rparr>)) (\<lambda>w'. same_heap (mem w) (mem w'))"
    "ensures (serve_line F line (w\<lparr>user := u\<rparr>)) (\<lambda>w'. same_heap (mem w) (mem w'))" for u line
    using serve_frame_ensures [of "w\<lparr>user := u\<rparr>"] serve_line_ensures [of line "w\<lparr>user := u\<rparr>"] assms by simp_all
  then show ?thesis by (auto simp: repl_round_def split: prod.split)
qed

lemma holds_image_kept: "same_heap m m1 \<Longrightarrow> holds_image m1 rw \<Longrightarrow> holds_image m rw"
  by (auto simp: holds_image_def same_heap_def owns_def split: option.splits)

lemma start_mem [simp]: "mem (repl_start S w) = mem w"
  by (simp add: repl_start_def)

lemma boot_image_ensures: "ensures (boot_image F w) (holds_image (mem w))"
  unfolding boot_image_def ensures_simps
proof (rule ensures_mono [OF load_sd_ensures], clarify)
  fix r and w1 :: "'u world"
  assume held: "holds_image (mem w) (r, w1)"
  then show "ensures (case r of Some img \<Rightarrow> Done (Some img, w1) | None \<Rightarrow> rustscript_load_partition F w1) (holds_image (mem w))"
  proof (cases r)
    case None
    with held have "same_heap (mem w) (mem w1)" by (simp add: holds_image_def)
    with None show ?thesis by (auto intro: ensures_mono [OF load_partition_ensures] holds_image_kept)
  qed simp
qed

lemma boot_run_ensures:
  assumes "holds_image m (r, w)"
  shows "ensures (boot_run F r w) (\<lambda>w'. same_heap m (mem w'))"
proof (cases r)
  case None
  with assms show ?thesis by (simp add: boot_run_def holds_image_def)
next
  case (Some img)
  with assms have "load (cells (mem w)) (image_data img) (image_len img) \<noteq> None"
      "owns (image_data img) (image_len img) m (mem w)"
    by (simp_all add: holds_image_def)
  with Some show ?thesis
    by (auto simp: boot_run_def intro!: ensures_mono [OF run_vmbc_ensures] ensures_mono [OF free_image_ensures]
        elim: owns_kept)
qed

lemma boot_ensures: "ensures (boot F w) (\<lambda>w'. same_heap (mem w) (mem w'))"
  unfolding boot_def ensures_simps
  by (rule ensures_mono [OF boot_image_ensures]) (auto intro: ensures_mono [OF boot_run_ensures])

end

section \<open>Any number of rounds\<close>

text \<open>What the firmware can get to: it boots, and then does rounds for ever. What happens on the line
  and on the board in between can change all but the memory.\<close>

inductive reaches :: "('p, 'v, 'c, 'x, 'st, 'u) firmware \<Rightarrow> 'u world \<Rightarrow> 'u world \<Rightarrow> bool" for F w0 where
  booted: "boot F w0 = Done w \<Longrightarrow> reaches F w0 w"
| round: "reaches F w0 w \<Longrightarrow> repl_round F w = Done w' \<Longrightarrow> reaches F w0 w'"
| elsewhere: "reaches F w0 w \<Longrightarrow> reaches F w0 (w\<lparr>user := u\<rparr>)"

text \<open>C2. The firmware never has undefined behaviour and never loses memory, whatever arrives on its line:
  booting is defined, and after it and any number of rounds of the REPL, with well-formed, damaged, truncated and
  oversized requests and commands, exactly the blocks are live that were at the start, and the
  next round is defined.\<close>

theorem firmware_safe:
  assumes "storage_board F rx tx" and "slots (mem w0) (fw_output F) = None"
  shows "boot F w0 \<noteq> Undefined \<and> (\<forall>w. reaches F w0 w \<longrightarrow> same_heap (mem w0) (mem w) \<and> repl_round F w \<noteq> Undefined)"
proof (intro conjI allI impI)
  show "boot F w0 \<noteq> Undefined" using storage_board.boot_ensures [OF assms(1), of w0] by auto
next
  fix w
  assume "reaches F w0 w"
  then show heap: "same_heap (mem w0) (mem w)"
  proof induction
    case (booted w)
    then show ?case using storage_board.boot_ensures [OF assms(1), of w0] by simp
  next
    case (round w w')
    then have "slots (mem w) (fw_output F) = None" using assms(2) by (simp add: same_heap_def)
    from storage_board.round_ensures [OF assms(1) this] round show ?case by (auto intro: same_heap_trans)
  qed simp
  then have "slots (mem w) (fw_output F) = None" using assms(2) by (simp add: same_heap_def)
  from storage_board.round_ensures [OF assms(1) this] show "repl_round F w \<noteq> Undefined" by auto
qed

section \<open>Requests\<close>

text \<open>The world once the port has been asked for input.\<close>

definition polled :: "('p, 'v, 'c, 'x, 'st, 'u) firmware \<Rightarrow> 'u world \<Rightarrow> 'u world" where
  "polled F w = w\<lparr>user := snd (serial_available (fw_serial F) (user w))\<rparr>"

lemma polled_mem [simp]: "mem (polled F w) = mem w"
  by (simp add: polled_def)

lemma R_byte: "hd REPL_REQUEST_MAGIC = of_char CHR ''R''" "REPL_REQUEST_MAGIC \<noteq> []"
  by (simp_all add: REPL_REQUEST_MAGIC_def as_bytes_def)

context firmware_board
begin

lemma polled_port [simp]: "rx (user (polled F w)) = rx (user w)" "tx (user (polled F w)) = tx (user w)"
  by (simp_all add: polled_def available [OF surjective_pairing])

lemma round_frame:
  assumes "rx (user w) \<noteq> []" and "hd (rx (user w)) = of_char CHR ''R''"
  shows "repl_round F w = serve_frame F (polled F w)"
proof -
  obtain waiting u where a: "serial_available (fw_serial F) (user w) = (waiting, u)" by fastforce
  from available [OF a] assms show ?thesis by (simp add: repl_round_def a peek polled_def)
qed

lemma round_request:
  assumes "rx (user w) = request_header rid prog' state' @ more_bytes"
  shows "repl_round F w = serve_frame F (polled F w)"
  using assms R_byte by (intro round_frame) (simp_all add: request_header_def)

end

context trusted_board
begin

lemma request_served:
  assumes "rx (user w) = request_frame rid prog state @ tail" and "request_fits F prog state (polled F w)"
    and "slots (mem w) (fw_output F) = None"
    and "frame_call F (program_at F prog (polled F w)) (length prog) (state_at F prog state (polled F w)) (length state)
      (request_world F prog state (polled F w)) = Done (status, w2)"
  obtains w' buf payload where "repl_round F w = Done w'"
    "slots (mem w2) (fw_output F) = Some buf" "load (cells (mem w2)) (buf_data buf) (buf_len buf) = Some payload"
    "rx (user w') = rx (user w2)" "tx (user w') = tx (user w2) @ response_frame rid [0, 0] status payload"
    "same_heap (mem w) (mem w')"
proof -
  let ?w = "polled F w"
  have rx: "rx (user ?w) = request_header rid prog state @ prog @ state @ tail"
    using assms(1) by (simp add: request_frame_def)
  note got = frame_received [OF rx refl refl assms(2)]
  have "request_blocks (program_at F prog ?w) prog (state_at F prog state ?w) state (mem w) (mem (request_world F prog state ?w))"
    using got(4,5) by (simp add: request_blocks_def request_world_def with_program_def)
  from frame_answered [OF assms(4) this assms(3)] got(1) round_request [of w rid prog state "prog @ state @ tail"] rx
  show thesis by (metis polled_port(1) that)
qed

lemma request_evaluated:
  assumes "target_ok (machine (fw_device F))"
    and "rx (user w) = request_frame rid prog state @ tail" and "request_fits F prog state (polled F w)"
    and "slots (mem w) (fw_output F) = None" and "decode_program (fw_device F) prog = Inr p"
    and "encode_repl_state vals = Inr state" and "wire_values vals"
    and "evaluates (fw_device F) (Some (fw_dispatch F)) REPL_FUEL p vals
      (emptied (fw_output F) (request_world F prog state (polled F w))) status response w1"
    and "encode_repl_response response = Inr enc" and "vec_block (fw_device F) (mem w1) enc \<noteq> None"
  shows "\<exists>w'. repl_round F w = Done w' \<and> rx (user w') = rx (user w1)
    \<and> tx (user w') = tx (user w1) @ response_frame rid [0, 0] status enc \<and> same_heap (mem w) (mem w')"
proof -
  let ?w = "polled F w" and ?o = "fw_output F" and ?D = "fw_device F"
  let ?r = "request_world F prog state ?w"
  note ok = slots_kept allocator output_place
  have rx: "rx (user ?w) = request_header rid prog state @ prog @ state @ tail"
    using assms(2) by (simp add: request_frame_def)
  note got = frame_received [OF rx refl refl assms(3)]
  have blocks: "request_blocks (program_at F prog ?w) prog (state_at F prog state ?w) state (mem w) (mem ?r)"
    using got(4,5) by (simp add: request_blocks_def request_world_def with_program_def)
  have placed: "placed (mem (emptied ?o ?r)) (program_at F prog ?w) prog" "placed (mem (emptied ?o ?r)) (state_at F prog state ?w) state"
    using request_loads [OF blocks] assms(3) by (simp_all add: placed_def request_fits_def)
  have "prog \<noteq> []" using assms(3) by (simp add: request_fits_def)
  have "evaluates ?D (Some (fw_dispatch F)) REPL_FUEL p vals (emptied ?o (emptied ?o ?r)) status response w1"
    using assms(8) by (simp add: emptied_def)
  note ran = repl_run_evaluates [OF assms(1) ok(1,3) _ placed(1) \<open>prog \<noteq> []\<close> assms(5) placed(2) assms(6,7) this assms(9)]
  obtain w2 b where give: "give_output ?D ?o enc status w1 = Done (status, w2)" "slots (mem w2) ?o = Some b"
      "load (cells (mem w2)) (buf_data b) (buf_len b) = Some enc"
    using give_output_owned [OF ok(2) ran(2) assms(10) encoded_response_nonempty [OF assms(9)]] by (metis emptied_sel(1) fun_upd_same option.distinct(1))
  then have "frame_call F (program_at F prog ?w) (length prog) (state_at F prog state ?w) (length state) ?r = Done (status, w2)"
    using ran(1) by (simp add: frame_call_def)
  from request_served [OF assms(2,3,4) this]
  obtain w' where "repl_round F w = Done w'" "rx (user w') = rx (user w2)"
      "tx (user w') = tx (user w2) @ response_frame rid [0, 0] status enc" "same_heap (mem w) (mem w')"
    using give(2,3) by (metis option.inject)
  moreover have "user w2 = user w1" using give(1) by (auto simp: give_output_Done)
  ultimately show ?thesis by auto
qed

end

text \<open>C7. A request that arrives is evaluated: one round of the firmware reads exactly its bytes, runs the
  program on the values of the state, and sends, behind what the program printed, the frame with the id of
  the request, the status and the encoded response. Afterwards no block is live that was not before.\<close>

theorem firmware_evaluates_request:
  assumes "trusted_board F rx tx" and "target_ok (machine (fw_device F))"
    and "rx (user w) = request_frame rid prog state @ tail" and "request_fits F prog state (polled F w)"
    and "slots (mem w) (fw_output F) = None" and "decode_program (fw_device F) prog = Inr p"
    and "encode_repl_state vals = Inr state" and "wire_values vals"
    and "evaluates (fw_device F) (Some (fw_dispatch F)) REPL_FUEL p vals
      (emptied (fw_output F) (request_world F prog state (polled F w))) status response w1"
    and "encode_repl_response response = Inr enc" and "vec_block (fw_device F) (mem w1) enc \<noteq> None"
  shows "\<exists>w'. repl_round F w = Done w' \<and> rx (user w') = rx (user w1)
    \<and> tx (user w') = tx (user w1) @ response_frame rid [0, 0] status enc \<and> same_heap (mem w) (mem w')"
  by (rule trusted_board.request_evaluated [OF assms])

section \<open>Damaged requests\<close>

context firmware_board
begin

lemma request_damaged:
  assumes "rx (user w) = request_header rid prog' state' @ prog @ state @ tail"
    and "length prog' = length prog" and "length state' = length state"
    and "request_fits F prog state (polled F w)" and "request_crc prog state \<noteq> request_crc prog' state'"
  obtains w' where "repl_round F w = Done w'" "rx (user w') = tail" "mem w' = mem w"
    "tx (user w') = tx (user w) @ response_frame rid [0, 0] RUSTSCRIPT_STATUS_INVALID_REPL_STATE []"
proof -
  let ?w = "polled F w"
  let ?r = "request_world F prog state ?w"
  have rx: "rx (user ?w) = request_header rid prog' state' @ prog @ state @ tail" using assms(1) by simp
  note got = frame_received [OF rx assms(2-4)]
  have "mem ?r = new_vec (state_at F prog state ?w) (length state) state (with_program F prog ?w)"
    by (simp add: request_world_def)
  then have free: "free_at (program_at F prog ?w) ?r = Done (?r\<lparr>mem := new_vec (state_at F prog state ?w) (length state) state (mem w)\<rparr>)"
    "free_at (state_at F prog state ?w) (?r\<lparr>mem := new_vec (state_at F prog state ?w) (length state) state (mem w)\<rparr>)
      = Done (?r\<lparr>mem := mem w\<rparr>)"
    using free_two [OF got(4), of "state_at F prog state ?w" state] got(5)
    by (simp_all add: free_at_def with_program_def)
  obtain u where "write_repl_response (fw_serial F) rid RUSTSCRIPT_STATUS_INVALID_REPL_STATE 0 0 (?r\<lparr>mem := mem w\<rparr>)
      = Done (?r\<lparr>mem := mem w, user := u\<rparr>)" "rx u = tail"
      "tx u = tx (user w) @ response_frame rid [0, 0] RUSTSCRIPT_STATUS_INVALID_REPL_STATE []"
    using response_written [of "?r\<lparr>mem := mem w\<rparr>" 0 0 "[]" rid RUSTSCRIPT_STATUS_INVALID_REPL_STATE] got(2,3) by auto
  then show thesis
    using round_request [OF assms(1)] got(1) assms(5) free
    by (intro that [of "?r\<lparr>mem := mem w, user := u\<rparr>"]) simp_all
qed

end

text \<open>C18. A request that was damaged on the line, in its program or in its state, inside of a window of
  four bytes, is not run: the firmware reads all of it, answers with an error that carries the id of
  the request, and frees what it had read.\<close>

theorem damaged_request_refused:
  assumes "firmware_board F rx tx"
    and "rx (user w) = request_header rid (a @ sent @ b) (c @ sent' @ d) @ (a @ got @ b) @ (c @ got' @ d) @ tail"
    and "length got = length sent" and "length got' = length sent'" and "length sent \<le> 4" and "length sent' \<le> 4"
    and "got = sent \<longleftrightarrow> got' \<noteq> sent'"
    and "request_fits F (a @ got @ b) (c @ got' @ d) (polled F w)"
  shows "\<exists>w'. repl_round F w = Done w' \<and> rx (user w') = tail \<and> mem w' = mem w
    \<and> tx (user w') = tx (user w) @ response_frame rid [0, 0] RUSTSCRIPT_STATUS_INVALID_REPL_STATE []"
proof -
  have "request_crc (a @ got @ b) (c @ got' @ d) \<noteq> request_crc (a @ sent @ b) (c @ sent' @ d)"
    using crc32_window [OF assms(3,5), of a b] crc32_window [OF assms(4,6), of c d] assms(7)
    by (cases "got = sent") (simp_all add: request_crc_inject)
  moreover have "rx (user w) = request_header rid (a @ sent @ b) (c @ sent' @ d) @ (a @ got @ b) @ (c @ got' @ d) @ tail"
    "length (a @ sent @ b) = length (a @ got @ b)" "length (c @ sent' @ d) = length (c @ got' @ d)"
    using assms(2-4) by simp_all
  ultimately show ?thesis using assms(8) by (metis firmware_board.request_damaged [OF assms(1)])
qed

section \<open>Refused requests\<close>

text \<open>A board whose clock counts the milliseconds it waits; what it does meanwhile takes none.\<close>

locale clocked_board = firmware_board F rx tx
  for F :: "('p, 'v, 'c, 'x, 'st, 'u) firmware" and rx tx :: "'u \<Rightarrow> u8 list" +
  fixes clock :: "'u \<Rightarrow> nat"
  assumes time_now: "board_millis (fw_serial F) u = (now, u') \<Longrightarrow> now = of_nat (clock u) \<and> clock u' = clock u"
    and instant_poll: "serial_available (fw_serial F) u = (waiting, u') \<Longrightarrow> clock u' = clock u"
    and instant_read: "clock (snd (serial_read (fw_serial F) u)) = clock u"
    and time_passes: "clock (board_delay (fw_serial F) ms u) = clock u + unat ms"
begin

lemma quiet_test:
  assumes "s \<le> c" and "c \<le> s + 50"
  shows "(of_nat c - of_nat s < (50 :: u32)) = (c < s + 50)"
proof -
  have "of_nat c - of_nat s = (of_nat (c - s) :: u32)" using assms(1) by simp
  moreover have "unat (of_nat (c - s) :: u32) = c - s"
    using assms(2) by (simp add: unat_of_nat take_bit_nat_eq_self)
  ultimately show ?thesis using assms(1) by (auto simp: word_less_nat_alt)
qed

lemma discard_drains:
  "s \<le> clock u \<Longrightarrow> clock u \<le> s + 50 \<Longrightarrow> rx u = [] \<or> clock u < s + 50 \<Longrightarrow>
     \<exists>u'. discard_loop (fw_serial F) (of_nat s) u = Some u' \<and> rx u' = [] \<and> tx u' = tx u"
proof (induction "51 * length (rx u) + (50 - (clock u - s))" arbitrary: s u rule: less_induct)
  case less
  obtain now u1 where m: "board_millis (fw_serial F) u = (now, u1)" by fastforce
  obtain waiting u2 where a: "serial_available (fw_serial F) u1 = (waiting, u2)" by fastforce
  obtain now' u3 where m': "board_millis (fw_serial F) (snd (serial_read (fw_serial F) u2)) = (now', u3)" by fastforce
  note port = clock_read [OF m] available [OF a] clock_read [OF m'] read_one [of u2]
  note time = time_now [OF m] instant_poll [OF a] time_now [OF m'] instant_read [of u2]
  show ?case
  proof (cases "clock u < s + 50")
    case False
    then show ?thesis
      using m port time less.prems quiet_test [OF less.prems(1,2)] by (subst discard_loop.simps) auto
  next
    case True
    show ?thesis
    proof (cases "rx u = []")
      case True
      let ?u = "board_delay (fw_serial F) 1 u2"
      have "\<exists>u'. discard_loop (fw_serial F) (of_nat s) ?u = Some u' \<and> rx u' = [] \<and> tx u' = tx ?u"
        by (rule less.hyps) (use True \<open>clock u < s + 50\<close> port time less.prems in \<open>simp_all add: time_passes\<close>)
      then show ?thesis
        using True \<open>clock u < s + 50\<close> m a port time quiet_test [OF less.prems(1,2)]
        by (subst discard_loop.simps) auto
    next
      case False
      have "\<exists>u'. discard_loop (fw_serial F) (of_nat (clock u3)) u3 = Some u' \<and> rx u' = [] \<and> tx u' = tx u3"
        by (rule less.hyps) (use False \<open>clock u < s + 50\<close> port time less.prems in
            \<open>cases "rx u"; simp\<close>)+
      then show ?thesis
        using False \<open>clock u < s + 50\<close> m a m' port time quiet_test [OF less.prems(1,2)]
        by (subst discard_loop.simps) auto
    qed
  qed
qed

lemma refused:
  obtains u where "refuse_frame (fw_serial F) rid w = Done (w\<lparr>user := u\<rparr>)" "rx u = []"
    "tx u = tx (user w) @ response_frame rid [0, 0] RUSTSCRIPT_STATUS_INVALID_ARGUMENT []"
proof -
  obtain now u1 where m: "board_millis (fw_serial F) (user w) = (now, u1)" by fastforce
  obtain u2 where u2: "discard_loop (fw_serial F) (of_nat (clock u1)) u1 = Some u2" "rx u2 = []" "tx u2 = tx u1"
    using discard_drains [of "clock u1" u1] by auto
  then have d: "discard_serial_until_quiet (fw_serial F) w = Done (w\<lparr>user := u2\<rparr>)"
    using time_now [OF m] by (simp add: discard_serial_until_quiet_def m)
  obtain u where u: "write_repl_response (fw_serial F) rid RUSTSCRIPT_STATUS_INVALID_ARGUMENT 0 0 (w\<lparr>user := u2\<rparr>)
      = Done (w\<lparr>user := u\<rparr>)" "rx u = rx u2" "tx u = tx u2 @ response_frame rid [0, 0] RUSTSCRIPT_STATUS_INVALID_ARGUMENT []"
    using response_written [of "w\<lparr>user := u2\<rparr>" 0 0 "[]" rid RUSTSCRIPT_STATUS_INVALID_ARGUMENT] by auto
  show thesis
    by (rule that [of u]) (use d u u2 clock_read [OF m] in \<open>simp_all add: refuse_frame_def\<close>)
qed

lemma frame_refused:
  assumes "rx (user w) = header @ rest_bytes" and "length header = 24" and "hd header = of_char CHR ''R''"
    and "frame_header_bad header \<or> frame_sizes_bad (from_le (slice 12 16 header)) (from_le (slice 16 20 header))"
  shows "\<exists>w'. repl_round F w = Done w' \<and> mem w' = mem w \<and> rx (user w') = []
    \<and> tx (user w') = tx (user w) @ response_frame (from_le (slice 8 12 header)) [0, 0] RUSTSCRIPT_STATUS_INVALID_ARGUMENT []"
proof -
  let ?S = "fw_serial F" and ?w = "polled F w"
  obtain u where u: "read_serial_payload ?S REPL_FRAME_HEADER_SIZE (user ?w) = (True, header, u)"
      "rx u = rest_bytes" "tx u = tx (user w)"
    using payload_enough [of REPL_FRAME_HEADER_SIZE "user ?w"] assms(1,2) by (auto simp: REPL_FRAME_HEADER_SIZE_def)
  have "header \<noteq> []" using assms(2) by auto
  then have "rx (user w) \<noteq> []" "hd (rx (user w)) = of_char CHR ''R''" using assms(1,3) by simp_all
  then have "repl_round F w = serve_frame F ?w" by (rule round_frame)
  also have "\<dots> = refuse_frame ?S (from_le (slice 8 12 header)) (?w\<lparr>user := u\<rparr>)"
    using assms(4) by (auto simp: serve_frame_def u(1) Let_def)
  finally have round: "repl_round F w = \<dots>" .
  obtain u' where "refuse_frame ?S (from_le (slice 8 12 header)) (?w\<lparr>user := u\<rparr>) = Done (?w\<lparr>user := u\<rparr>\<lparr>user := u'\<rparr>)"
      "rx u' = []" "tx u' = tx (user (?w\<lparr>user := u\<rparr>))
        @ response_frame (from_le (slice 8 12 header)) [0, 0] RUSTSCRIPT_STATUS_INVALID_ARGUMENT []"
    by (rule refused)
  then show ?thesis using u(3) round by simp
qed

end

text \<open>C19. A frame with a header that is no request of this version, or whose parts are empty or over the limit,
  is refused: no memory is asked for, all that the host sent with it is discarded, so that no byte of it
  is taken for a command, and the answer carries the id of the header.\<close>

theorem refused_frame_answered:
  assumes "clocked_board F rx tx clock"
    and "rx (user w) = header @ rest_bytes" and "length header = 24" and "hd header = of_char CHR ''R''"
    and "frame_header_bad header \<or> frame_sizes_bad (from_le (slice 12 16 header)) (from_le (slice 16 20 header))"
  shows "\<exists>w'. repl_round F w = Done w' \<and> mem w' = mem w \<and> rx (user w') = []
    \<and> tx (user w') = tx (user w) @ response_frame (from_le (slice 8 12 header)) [0, 0] RUSTSCRIPT_STATUS_INVALID_ARGUMENT []"
  by (rule clocked_board.frame_refused [OF assms])

end
