(* ===== verification/Flash_Safety.thy ===== *)
theory Flash_Safety
  imports Firmware_Safety
begin

text \<open>
  The script partition: what the installer writes is what the loader reads, over flash memory that
  is erased to ones and in which writing can only clear bits (locale \<open>nor_flash\<close>). What
  is loaded was intact, whatever the flash contains, and a payload that has changed inside of four bytes is
  never loaded.
\<close>

section \<open>The image header\<close>

lemma length_image_magic [simp]: "length SCRIPT_IMAGE_MAGIC = 8"
  by (simp add: SCRIPT_IMAGE_MAGIC_def)

text \<open>What is read back is the header that was written.\<close>

lemma header_of_to_bytes:
  assumes "length (image_magic h) = 8"
  shows "header_of_bytes (header_to_bytes h) = h"
proof -
  let ?m = "image_magic h" and ?v = "u32_bytes (image_version h)" and ?n = "u32_bytes (payload_len h)"
  have "from_le (slice 8 12 (header_to_bytes h)) = image_version h"
    using assms le32.dec_slice [of ?m 8 12 "image_version h"] by (simp add: header_to_bytes_def)
  moreover have "from_le (slice 12 16 (header_to_bytes h)) = payload_len h"
    using assms le32.dec_slice [of "?m @ ?v" 12 16 "payload_len h"] by (simp add: header_to_bytes_def)
  moreover have "from_le (slice 16 20 (header_to_bytes h)) = image_crc32 h"
    using assms le32.dec_slice [of "?m @ ?v @ ?n" 16 20 "image_crc32 h" "[]"] by (simp add: header_to_bytes_def)
  moreover have "take 8 (header_to_bytes h) = ?m" using assms by (simp add: header_to_bytes_def)
  ultimately show ?thesis by (simp add: header_of_bytes_def)
qed

lemma length_header_to_bytes: "length (image_magic h) = 8 \<Longrightarrow> length (header_to_bytes h) = IMAGE_HEADER_SIZE"
  by (simp add: header_to_bytes_def IMAGE_HEADER_SIZE_def)

lemma header_to_of_bytes:
  assumes "length h = IMAGE_HEADER_SIZE"
  shows "header_to_bytes (header_of_bytes h) = h"
proof -
  have h: "length h = 20" using assms by (simp add: IMAGE_HEADER_SIZE_def)
  then have "header_to_bytes (header_of_bytes h) = take 8 h @ slice 8 12 h @ slice 12 16 h @ slice 16 20 h"
    by (simp add: header_to_bytes_def header_of_bytes_def le_bytes_from_le slice_def)
  also have "\<dots> = take 20 h"
    using slice_append_take [of 8 12 h] slice_append_take [of 12 16 h] slice_append_take [of 16 20 h]
    by (simp flip: append_assoc)
  finally show ?thesis using h by simp
qed

text \<open>What the installer writes in front of a program.\<close>

definition written_header :: "u8 list \<Rightarrow> image_header" where
  "written_header bs = \<lparr>image_magic = SCRIPT_IMAGE_MAGIC, image_version = SCRIPT_IMAGE_VERSION,
     payload_len = of_nat (length bs), image_crc32 = crc32 bs\<rparr>"

section \<open>Flash memory\<close>

definition cleared_bits :: "u8 list \<Rightarrow> u8 list \<Rightarrow> u8 list" where
  "cleared_bits old bs = map2 (AND) old bs"

lemma cleared_erased [simp]: "length bs = n \<Longrightarrow> cleared_bits (replicate n 0xff) bs = bs"
proof (induction bs arbitrary: n)
  case (Cons b bs)
  have "(0xff :: u8) = - 1" by simp
  then have "0xff AND b = b" by (metis and.left_neutral)
  with Cons show ?case by (auto simp: cleared_bits_def)
qed (simp add: cleared_bits_def)

locale nor_flash =
  fixes X :: "'u flash"
    and part :: esp_partition
    and content :: "'u \<Rightarrow> u8 list"
  assumes found: "find_partition X u = Some part"
    and room: "of_nat IMAGE_HEADER_SIZE < partition_size part"
    and sized: "length (content u) = unat (partition_size part)"
    and reads: "i + n \<le> unat (partition_size part) \<Longrightarrow>
        \<exists>u'. partition_read X i n u = (Some (take n (drop i (content u))), u') \<and> content u' = content u"
    and erases: "partition_erase X 0 (unat (partition_size part)) u = (True, u') \<Longrightarrow>
        content u' = replicate (unat (partition_size part)) 0xff"
    and writes: "partition_write X i bs u = (True, u') \<Longrightarrow> i + length bs \<le> unat (partition_size part) \<Longrightarrow>
        content u' = take i (content u) @ cleared_bits (take (length bs) (drop i (content u))) bs
          @ drop (i + length bs) (content u)"
begin

abbreviation room_left :: "u8 list \<Rightarrow> nat" where
  "room_left bs \<equiv> unat (partition_size part) - IMAGE_HEADER_SIZE - length bs"

lemma size_left: "unat (partition_size part - of_nat IMAGE_HEADER_SIZE) = unat (partition_size part) - IMAGE_HEADER_SIZE"
  using room by (subst unat_sub) (simp_all add: IMAGE_HEADER_SIZE_def)

lemma installed_content:
  assumes "rustscript_install_partition X bs u = (True, u')"
  shows "content u' = header_to_bytes (written_header bs) @ bs @ replicate (room_left bs) 0xff"
    and "bs \<noteq> []" and "length bs \<le> unat (partition_size part) - IMAGE_HEADER_SIZE"
proof -
  let ?h = "header_to_bytes (written_header bs)" and ?n = "unat (partition_size part)"
  have lh: "length ?h = IMAGE_HEADER_SIZE" by (simp add: length_header_to_bytes written_header_def)
  from assms show ne: "bs \<noteq> []" and fits: "length bs \<le> ?n - IMAGE_HEADER_SIZE"
    by (auto simp: rustscript_install_partition_def found size_left split: if_splits)
  from assms obtain u1 u2 where steps: "partition_erase X 0 ?n u = (True, u1)" "partition_write X 0 ?h u1 = (True, u2)"
      "partition_write X IMAGE_HEADER_SIZE bs u2 = (True, u')"
    by (auto simp: rustscript_install_partition_def found Let_def written_header_def split: if_splits prod.splits bool.splits)
  have big: "IMAGE_HEADER_SIZE \<le> ?n" using room by (simp add: IMAGE_HEADER_SIZE_def word_less_nat_alt)
  have "content u2 = ?h @ replicate (?n - IMAGE_HEADER_SIZE) 0xff"
    using writes [OF steps(2)] erases [OF steps(1)] big lh by simp
  then show "content u' = ?h @ bs @ replicate (room_left bs) 0xff"
    using writes [OF steps(3)] fits big lh by (simp add: diff_diff_left)
qed

end

locale flash_board = nor_flash "fw_flash F" part content
  for F :: "('p, 'v, 'c, 'x, 'st, 'u) firmware" and part content +
  assumes heap: "heap_ok (fw_place F)"
begin

text \<open>Whatever is in the flash, this is what is loaded.\<close>

lemma load_image:
  defines "h u \<equiv> header_of_bytes (take IMAGE_HEADER_SIZE (content u))"
  defines "n u \<equiv> unat (payload_len (h u))"
  defines "payload u \<equiv> take (n u) (drop IMAGE_HEADER_SIZE (content u))"
  defines "a w \<equiv> fw_place F (n (user w)) (mem w)"
  shows "\<exists>u'. rustscript_load_partition F w =
      (if header_valid (h (user w)) (partition_size part) \<and> a w \<noteq> 0 \<and> crc32 (payload (user w)) = image_crc32 (h (user w)) then
         Done (Some \<lparr>image_data = a w, image_len = n (user w), image_source = ''flash:rustscript''\<rparr>,
           w\<lparr>mem := new_vec (a w) (n (user w)) (payload (user w)) (mem w), user := u'\<rparr>)
       else Done (None, w\<lparr>user := u'\<rparr>))"
proof -
  let ?X = "fw_flash F" and ?h = "h (user w)" and ?n = "n (user w)" and ?bs = "payload (user w)"
    and ?size = "unat (partition_size part)"
  have big: "IMAGE_HEADER_SIZE < ?size" using room by (simp add: IMAGE_HEADER_SIZE_def word_less_nat_alt)
  obtain u1 where u1: "partition_read ?X 0 IMAGE_HEADER_SIZE (user w) = (Some (take IMAGE_HEADER_SIZE (content (user w))), u1)"
      "content u1 = content (user w)"
    using reads [of 0 IMAGE_HEADER_SIZE "user w"] big by auto
  have start: "rustscript_load_partition F w =
      (if header_valid ?h (partition_size part) then load_payload F ?n (image_crc32 ?h) (w\<lparr>user := u1\<rparr>)
       else Done (None, w\<lparr>user := u1\<rparr>))"
    using room u1(1) by (simp add: rustscript_load_partition_def found Let_def h_def n_def flip: not_less)
  show ?thesis
  proof (cases "header_valid ?h (partition_size part) \<and> a w \<noteq> 0")
    case True
    then have fits: "IMAGE_HEADER_SIZE + ?n \<le> ?size"
      using big size_left by (auto simp: header_valid_def n_def word_le_nat_alt)
    obtain u2 where u2: "partition_read ?X IMAGE_HEADER_SIZE ?n u1 = (Some ?bs, u2)"
      using reads [OF fits, of u1] u1(2) by (auto simp: payload_def)
    have "length ?bs \<le> ?n" by (simp add: payload_def)
    moreover have "c_malloc (fw_place F) ?n (mem w) = (a w, new_vec (a w) ?n [] (mem w))"
      using True by (simp add: c_malloc_def Let_def new_vec_def a_def)
    moreover have "fresh_block (a w) ?n (mem w)" using heap True by (simp add: heap_ok_def a_def)
    ultimately show ?thesis
      using True u2 free_new_vec [of "a w" ?n "mem w" ?bs]
      by (intro exI [of _ u2]) (simp add: start load_payload_def write_new_vec keep_image_def free_at_def)
  next
    case False
    then show ?thesis
      by (intro exI [of _ u1]) (auto simp: start load_payload_def c_malloc_def a_def Let_def)
  qed
qed

lemma load_written:
  assumes "content (user w) = header_to_bytes (written_header bs) @ bs' @ rest_bytes" and "length bs' = length bs"
    and "bs \<noteq> []" and "length bs \<le> unat (partition_size part) - IMAGE_HEADER_SIZE"
    and "fw_place F (length bs) (mem w) \<noteq> 0"
  shows "\<exists>u'. rustscript_load_partition F w =
      (if crc32 bs' = crc32 bs then
         Done (Some \<lparr>image_data = fw_place F (length bs) (mem w), image_len = length bs, image_source = ''flash:rustscript''\<rparr>,
           w\<lparr>mem := new_vec (fw_place F (length bs) (mem w)) (length bs) bs' (mem w), user := u'\<rparr>)
       else Done (None, w\<lparr>user := u'\<rparr>))"
proof -
  let ?h = "written_header bs"
  have lh: "length (header_to_bytes ?h) = IMAGE_HEADER_SIZE" by (simp add: length_header_to_bytes written_header_def)
  have "length bs < 2 ^ 32" using assms(4) unsigned_less [of "partition_size part", where ?'a = nat] by simp
  then have len: "unat (payload_len ?h) = length bs"
    by (simp add: written_header_def unat_of_nat take_bit_nat_eq_self)
  have read: "header_of_bytes (take IMAGE_HEADER_SIZE (content (user w))) = ?h"
    using header_of_to_bytes [of ?h] lh by (simp add: assms(1) written_header_def)
  have "payload_len ?h \<noteq> 0" using len assms(3) by (metis length_0_conv unat_0)
  then have "header_valid ?h (partition_size part)"
    using assms(4) len size_left by (simp add: header_valid_def word_le_nat_alt, simp add: written_header_def)
  moreover have "image_crc32 ?h = crc32 bs" by (simp add: written_header_def)
  moreover have payload: "take (length bs) (drop IMAGE_HEADER_SIZE (content (user w))) = bs'"
    using assms(1,2) lh by simp
  ultimately show ?thesis using assms(5) load_image [of w, unfolded read len payload] by (simp split del: if_split)
qed

text \<open>What is loaded was intact in the flash.\<close>

lemma loaded_intact:
  assumes "rustscript_load_partition F w = Done (Some img, w')"
  shows "\<exists>bs rest_bytes. content (user w) = header_to_bytes (written_header bs) @ bs @ rest_bytes \<and> bs \<noteq> [] \<and>
    image_len img = length bs \<and> load (cells (mem w')) (image_data img) (length bs) = Some bs"
proof -
  let ?c = "content (user w)" and ?size = "unat (partition_size part)"
  let ?h = "header_of_bytes (take IMAGE_HEADER_SIZE ?c)"
  let ?n = "unat (payload_len ?h)" and ?rest = "drop IMAGE_HEADER_SIZE ?c"
  let ?bs = "take ?n ?rest" and ?a = "fw_place F ?n (mem w)"
  have big: "IMAGE_HEADER_SIZE < ?size" using room by (simp add: IMAGE_HEADER_SIZE_def word_less_nat_alt)
  obtain u' where "rustscript_load_partition F w =
      (if header_valid ?h (partition_size part) \<and> ?a \<noteq> 0 \<and> crc32 ?bs = image_crc32 ?h then
         Done (Some \<lparr>image_data = ?a, image_len = ?n, image_source = ''flash:rustscript''\<rparr>,
           w\<lparr>mem := new_vec ?a ?n ?bs (mem w), user := u'\<rparr>)
       else Done (None, w\<lparr>user := u'\<rparr>))"
    using load_image [of w] by blast
  with assms have good: "header_valid ?h (partition_size part)" "?a \<noteq> 0" "crc32 ?bs = image_crc32 ?h"
      "image_data img = ?a" "image_len img = ?n" "mem w' = new_vec ?a ?n ?bs (mem w)"
    by (auto split: if_splits)
  from good(1) have fits: "?n \<le> ?size - IMAGE_HEADER_SIZE" and n: "?n \<noteq> 0"
    using size_left by (simp_all add: header_valid_def word_le_nat_alt unat_eq_0)
  have len: "length ?bs = ?n" using fits sized [of "user w"] by simp
  have "?h = written_header ?bs"
    using good(1,3) len by (simp add: written_header_def header_valid_def)
  then have header: "header_to_bytes (written_header ?bs) = take IMAGE_HEADER_SIZE ?c"
    using header_to_of_bytes [of "take IMAGE_HEADER_SIZE ?c"] big sized [of "user w"] by simp
  show ?thesis
  proof (rule exI [of _ ?bs], rule exI [of _ "drop ?n ?rest"], intro conjI)
    show "?c = header_to_bytes (written_header ?bs) @ ?bs @ drop ?n ?rest"
      unfolding header by (simp only: append_take_drop_id)
    show "?bs \<noteq> []" using n len by (metis list.size(3))
    show "image_len img = length ?bs" using good(5) len by simp
    show "load (cells (mem w')) (image_data img) (length ?bs) = Some ?bs"
      unfolding good(4,6) new_vec_def by (simp del: length_take)
  qed
qed

end

text \<open>C38. Only an intact image is loaded, whatever the flash contains: in front of the program are exactly the 20
  bytes that the installer writes for it, with the mark, the version, its length and its checksum, and what is
  in memory are its bytes.\<close>

theorem only_intact_images_load:
  assumes "flash_board F part content" and "rustscript_load_partition F w = Done (Some img, w')"
  shows "\<exists>bs rest_bytes. content (user w) = SCRIPT_IMAGE_MAGIC @ u32_bytes SCRIPT_IMAGE_VERSION
      @ u32_bytes (of_nat (length bs)) @ u32_bytes (crc32 bs) @ bs @ rest_bytes \<and> bs \<noteq> [] \<and>
    image_len img = length bs \<and> load (cells (mem w')) (image_data img) (length bs) = Some bs"
  using flash_board.loaded_intact [OF assms] by (simp add: header_to_bytes_def written_header_def)

text \<open>C22. A program that was installed is the program that is loaded, byte for byte, at the next boot or
  command.\<close>

theorem installed_program_loads:
  assumes "flash_board F part content" and "rustscript_install_partition (fw_flash F) bs (user w) = (True, u')"
    and "fw_place F (length bs) (mem w) \<noteq> 0"
  shows "\<exists>u2. rustscript_load_partition F (w\<lparr>user := u'\<rparr>) =
    Done (Some \<lparr>image_data = fw_place F (length bs) (mem w), image_len = length bs, image_source = ''flash:rustscript''\<rparr>,
      w\<lparr>mem := new_vec (fw_place F (length bs) (mem w)) (length bs) bs (mem w), user := u2\<rparr>)"
proof -
  have flash: "nor_flash (fw_flash F) part content" by (rule flash_board.axioms(1) [OF assms(1)])
  note installed = nor_flash.installed_content [OF flash assms(2)]
  show ?thesis
    using flash_board.load_written [OF assms(1), of "w\<lparr>user := u'\<rparr>" bs bs] installed assms(3) by simp
qed

text \<open>C36. A program that has changed in the flash, inside of a window of at most four of its bytes and behind an
  intact header, is not loaded: its checksum always tells.\<close>

theorem damaged_image_not_loaded:
  assumes "flash_board F part content"
    and "content (user w) = header_to_bytes (written_header (xs @ v @ ys)) @ xs @ v' @ ys @ rest_bytes"
    and "length v' = length v" and "length v \<le> 4" and "v' \<noteq> v"
    and "length (xs @ v @ ys) \<le> unat (partition_size part) - IMAGE_HEADER_SIZE"
    and "fw_place F (length (xs @ v @ ys)) (mem w) \<noteq> 0"
  shows "\<exists>u'. rustscript_load_partition F w = Done (None, w\<lparr>user := u'\<rparr>)"
proof -
  have differ: "crc32 (xs @ v' @ ys) \<noteq> crc32 (xs @ v @ ys)"
    using crc32_window [OF assms(3,4), of xs ys] assms(5) by simp
  have "xs @ v @ ys \<noteq> []" using assms(3,5) by auto
  then show ?thesis
    using flash_board.load_written [OF assms(1), of w "xs @ v @ ys" "xs @ v' @ ys" rest_bytes] differ assms(2-7)
    by simp
qed

end
