(* ===== verification/Host_Functions.thy ===== *)
theory Host_Functions
  imports Board Host_Contract
begin

text \<open>
  The host functions of the firmware, \<open>firmware/host_framework.cpp\<close>: what a script can call, by
  name and number of arguments, and how each call checks its arguments before it touches the
  hardware. The drivers of Arduino and ESP-IDF are parameters, like the serial port. The pointers
  to the arguments and to the result are never null here, so the code's tests for that are not in
  the model.
\<close>

section \<open>The drivers\<close>

datatype pin_mode = INPUT | OUTPUT | INPUT_PULLUP | INPUT_PULLDOWN | OUTPUT_OPEN_DRAIN

datatype bt_status = BT_Idle | BT_Inited | BT_Enabled | BT_Other

type_synonym esp_err = i32

definition ESP_OK :: esp_err where
  "ESP_OK = 0"

definition ESP_FAIL :: esp_err where
  "ESP_FAIL = - 1"

definition ESP_ERR_INVALID_STATE :: esp_err where
  "ESP_ERR_INVALID_STATE = 0x103"

text \<open>The variables of the file, but for the two byte arrays, which are in memory.\<close>

record framework =
  pwm_pins :: "8 word list"
  wifi_station :: bool
  wifi_initialized :: bool

text \<open>The operations that the code calls. A chip has \<open>gpio_pins\<close> pins; the two functions that restart
  the chip do not return, which is \<open>None\<close>. \<open>wifi_set_config\<close> gets the network, its password and
  whether it is open.\<close>

record 'u drivers =
  framework_of :: "'u \<Rightarrow> framework"
  with_framework :: "framework \<Rightarrow> 'u \<Rightarrow> 'u"
  io_buffer_at :: addr
  network_text_at :: addr
  feature_wifi :: bool
  feature_bluetooth :: bool
  gpio_pins :: int
  set_pin_mode :: "u8 \<Rightarrow> pin_mode \<Rightarrow> 'u \<Rightarrow> 'u"
  digital_write :: "u8 \<Rightarrow> bool \<Rightarrow> 'u \<Rightarrow> 'u"
  digital_read :: "u8 \<Rightarrow> 'u \<Rightarrow> bool \<times> 'u"
  analog_read :: "u8 \<Rightarrow> 'u \<Rightarrow> u16 \<times> 'u"
  ledc_setup :: "int \<Rightarrow> i64 \<Rightarrow> i64 \<Rightarrow> 'u \<Rightarrow> u32 \<times> 'u"
  ledc_attach_pin :: "u8 \<Rightarrow> int \<Rightarrow> 'u \<Rightarrow> 'u"
  ledc_write :: "int \<Rightarrow> u32 \<Rightarrow> 'u \<Rightarrow> 'u"
  wire_begin :: "i32 \<Rightarrow> i32 \<Rightarrow> u32 \<Rightarrow> 'u \<Rightarrow> bool \<times> 'u"
  wire_end :: "'u \<Rightarrow> 'u"
  wire_begin_transmission :: "u8 \<Rightarrow> 'u \<Rightarrow> 'u"
  wire_write :: "u8 list \<Rightarrow> 'u \<Rightarrow> 'u"
  wire_end_transmission :: "bool \<Rightarrow> 'u \<Rightarrow> u8 \<times> 'u"
  wire_request_from :: "u8 \<Rightarrow> u8 \<Rightarrow> 'u \<Rightarrow> nat \<times> 'u"
  wire_available :: "'u \<Rightarrow> i32 \<times> 'u"
  wire_read :: "'u \<Rightarrow> i32 \<times> 'u"
  delay_microseconds :: "u32 \<Rightarrow> 'u \<Rightarrow> 'u"
  board_micros :: "'u \<Rightarrow> u32 \<times> 'u"
  cpu_freq_mhz :: "'u \<Rightarrow> u32 \<times> 'u"
  free_heap :: "'u \<Rightarrow> u32 \<times> 'u"
  flash_chip_size :: "'u \<Rightarrow> u32 \<times> 'u"
  random_word :: "'u \<Rightarrow> u32 \<times> 'u"
  chip_restart :: "'u \<Rightarrow> 'u option"
  deep_sleep :: "u64 \<Rightarrow> 'u \<Rightarrow> 'u option"
  netif_init :: "'u \<Rightarrow> esp_err \<times> 'u"
  event_loop_create :: "'u \<Rightarrow> esp_err \<times> 'u"
  create_station :: "'u \<Rightarrow> bool \<times> 'u"
  wifi_init :: "'u \<Rightarrow> esp_err \<times> 'u"
  wifi_set_storage_ram :: "'u \<Rightarrow> esp_err \<times> 'u"
  wifi_set_mode_station :: "'u \<Rightarrow> esp_err \<times> 'u"
  wifi_set_config :: "u8 list \<Rightarrow> u8 list \<Rightarrow> bool \<Rightarrow> 'u \<Rightarrow> esp_err \<times> 'u"
  wifi_start :: "'u \<Rightarrow> esp_err \<times> 'u"
  wifi_connect_station :: "'u \<Rightarrow> esp_err \<times> 'u"
  wifi_disconnect_station :: "'u \<Rightarrow> esp_err \<times> 'u"
  wifi_access_point :: "'u \<Rightarrow> (esp_err \<times> 8 word) \<times> 'u"
  station_ip :: "'u \<Rightarrow> (esp_err \<times> u32) \<times> 'u"
  bt_get_status :: "'u \<Rightarrow> bt_status \<times> 'u"
  bt_init :: "'u \<Rightarrow> esp_err \<times> 'u"
  bt_enable_ble :: "'u \<Rightarrow> esp_err \<times> 'u"
  bt_disable :: "'u \<Rightarrow> esp_err \<times> 'u"
  bt_deinit :: "'u \<Rightarrow> esp_err \<times> 'u"

text \<open>A call of a driver from code that works on the world.\<close>

definition drive :: "('u \<Rightarrow> 'u) \<Rightarrow> 'u world \<Rightarrow> 'u world" where
  "drive f w = w\<lparr>user := f (user w)\<rparr>"

definition ask :: "('u \<Rightarrow> 'a \<times> 'u) \<Rightarrow> 'u world \<Rightarrow> ('a \<Rightarrow> 'u world \<Rightarrow> 'b) \<Rightarrow> 'b" where
  "ask f w k = (case f (user w) of (a, u) \<Rightarrow> k a (w\<lparr>user := u\<rparr>))"

section \<open>Arguments and results\<close>

definition MAX_IO_BYTES :: nat where
  "MAX_IO_BYTES = 255"

definition PWM_CHANNEL_COUNT :: nat where
  "PWM_CHANNEL_COUNT = 6"

definition NETWORK_TEXT_CAPACITY :: nat where
  "NETWORK_TEXT_CAPACITY = 64"

definition is_int :: "ffi_value \<Rightarrow> bool" where
  "is_int v \<longleftrightarrow> tag v = tag_byte Tag_Int"

definition is_bytes :: "ffi_value \<Rightarrow> bool" where
  "is_bytes v \<longleftrightarrow> tag v = tag_byte Tag_Bytes \<and> (len v = 0 \<or> data v \<noteq> 0)"

definition is_string :: "ffi_value \<Rightarrow> bool" where
  "is_string v \<longleftrightarrow> tag v = tag_byte Tag_String \<and> (len v = 0 \<or> data v \<noteq> 0)"

text \<open>\<open>args[i].integer\<close> within bounds.\<close>

definition int_in :: "int \<Rightarrow> int \<Rightarrow> ffi_value \<Rightarrow> bool" where
  "int_in lo hi v \<longleftrightarrow> lo \<le> sint (integer v) \<and> sint (integer v) \<le> hi"

definition valid_pin :: "'u drivers \<Rightarrow> ffi_value \<Rightarrow> bool" where
  "valid_pin P v \<longleftrightarrow> 0 \<le> sint (integer v) \<and> sint (integer v) < gpio_pins P"

definition valid_i2c_address :: "ffi_value \<Rightarrow> bool" where
  "valid_i2c_address v = int_in 0x08 0x77 v"

type_synonym 'u handler = "ffi_value list \<Rightarrow> ffi_value \<Rightarrow> 'u world \<Rightarrow> (i32 \<times> ffi_value \<times> 'u world) c_outcome"

text \<open>The result was cleared and set, or is what it was.\<close>

definition return_bool :: "bool \<Rightarrow> 'u world \<Rightarrow> (i32 \<times> ffi_value \<times> 'u world) c_outcome" where
  "return_bool b w = Done (1, null_value\<lparr>tag := tag_byte Tag_Bool, boolean := of_bool b\<rparr>, w)"

definition return_int :: "i64 \<Rightarrow> 'u world \<Rightarrow> (i32 \<times> ffi_value \<times> 'u world) c_outcome" where
  "return_int i w = Done (1, null_value\<lparr>tag := tag_byte Tag_Int, integer := i\<rparr>, w)"

definition return_bytes :: "addr \<Rightarrow> nat \<Rightarrow> 'u world \<Rightarrow> (i32 \<times> ffi_value \<times> 'u world) c_outcome" where
  "return_bytes p n w = Done (1, null_value\<lparr>tag := tag_byte Tag_Bytes, data := p, len := n\<rparr>, w)"

text \<open>The length of a string is that of its text, up to the zero behind it.\<close>

definition return_string :: "addr \<Rightarrow> nat \<Rightarrow> 'u world \<Rightarrow> (i32 \<times> ffi_value \<times> 'u world) c_outcome" where
  "return_string p n w = Done (1, null_value\<lparr>tag := tag_byte Tag_String, data := p, len := n\<rparr>, w)"

definition refuse_call :: "ffi_value \<Rightarrow> 'u world \<Rightarrow> (i32 \<times> ffi_value \<times> 'u world) c_outcome" where
  "refuse_call res w = Done (- 1, res, w)"

text \<open>\<open>io_buffer[i] = b\<close>; a write behind its end is an overflow.\<close>

definition io_put :: "'u drivers \<Rightarrow> nat \<Rightarrow> i32 \<Rightarrow> 'u world \<Rightarrow> 'u world c_outcome" where
  "io_put P i b w =
     (if i < MAX_IO_BYTES then
        Done (w\<lparr>mem := (mem w)\<lparr>cells := (cells (mem w))(io_buffer_at P + i \<mapsto> ucast b)\<rparr>\<rparr>)
      else Undefined)"

section \<open>Pins\<close>

definition pin_mode_of :: "i64 \<Rightarrow> pin_mode option" where
  "pin_mode_of i = (if i = 0 then Some INPUT else if i = 1 then Some OUTPUT else if i = 2 then Some INPUT_PULLUP
     else if i = 3 then Some INPUT_PULLDOWN else if i = 4 then Some OUTPUT_OPEN_DRAIN else None)"

definition gpio_configure :: "'u drivers \<Rightarrow> 'u handler" where
  "gpio_configure P args res w =
     (if \<not> is_int (args ! 0) \<or> \<not> is_int (args ! 1) \<or> \<not> valid_pin P (args ! 0) then refuse_call res w
      else case pin_mode_of (integer (args ! 1)) of
          None \<Rightarrow> refuse_call res w
        | Some mode \<Rightarrow> return_bool True (drive (set_pin_mode P (ucast (integer (args ! 0))) mode) w))"

definition gpio_write :: "'u drivers \<Rightarrow> 'u handler" where
  "gpio_write P args res w =
     (if \<not> is_int (args ! 0) \<or> tag (args ! 1) \<noteq> tag_byte Tag_Bool \<or> \<not> valid_pin P (args ! 0) then refuse_call res w
      else return_bool True (drive (digital_write P (ucast (integer (args ! 0))) (boolean (args ! 1) \<noteq> 0)) w))"

definition gpio_read :: "'u drivers \<Rightarrow> 'u handler" where
  "gpio_read P args res w =
     (if \<not> is_int (args ! 0) \<or> \<not> valid_pin P (args ! 0) then refuse_call res w
      else ask (digital_read P (ucast (integer (args ! 0)))) w return_bool)"

definition gpio_analog_read :: "'u drivers \<Rightarrow> 'u handler" where
  "gpio_analog_read P args res w =
     (if \<not> is_int (args ! 0) \<or> \<not> valid_pin P (args ! 0) then refuse_call res w
      else ask (analog_read P (ucast (integer (args ! 0)))) w (\<lambda>v. return_int (ucast v)))"

text \<open>The first channel with a pin that passes a test.\<close>

fun first_channel :: "(8 word \<Rightarrow> bool) \<Rightarrow> nat \<Rightarrow> 8 word list \<Rightarrow> nat option" where
  "first_channel test channel [] = None"
| "first_channel test channel (p # ps) = (if test p then Some channel else first_channel test (channel + 1) ps)"

definition pwm_channel_for_pin :: "int \<Rightarrow> 8 word list \<Rightarrow> int \<times> 8 word list" where
  "pwm_channel_for_pin pin pins = (case first_channel (\<lambda>p. sint p = pin) 0 pins of
       Some channel \<Rightarrow> (int channel, pins)
     | None \<Rightarrow> (case first_channel (\<lambda>p. sint p < 0) 0 pins of
           Some channel \<Rightarrow> (int channel, pins[channel := of_int pin])
         | None \<Rightarrow> (- 1, pins)))"

definition gpio_pwm :: "'u drivers \<Rightarrow> 'u handler" where
  "gpio_pwm P args res w =
     (if \<not> is_int (args ! 0) \<or> \<not> is_int (args ! 1) \<or> \<not> is_int (args ! 2) \<or> \<not> is_int (args ! 3)
        \<or> \<not> valid_pin P (args ! 0) \<or> sint (integer (args ! 1)) < 0 \<or> \<not> int_in 1 40000000 (args ! 2)
        \<or> \<not> int_in 1 16 (args ! 3) then refuse_call res w
      else
        (let maximum = push_bit (unat (integer (args ! 3))) 1 - 1 :: u64 in
         if maximum < integer (args ! 1) then refuse_call res w
         else
           (let f = framework_of P (user w) in
            case pwm_channel_for_pin (sint (integer (args ! 0))) (pwm_pins f) of (channel, pins) \<Rightarrow>
              (let w = drive (with_framework P (f\<lparr>pwm_pins := pins\<rparr>)) w in
               if channel < 0 then return_bool False w
               else ask (ledc_setup P channel (integer (args ! 2)) (integer (args ! 3))) w (\<lambda>ok w.
                 if ok = 0 then return_bool False w
                 else return_bool True (drive (ledc_write P channel (ucast (integer (args ! 1))))
                   (drive (ledc_attach_pin P (ucast (integer (args ! 0))) channel) w)))))))"

section \<open>I2C\<close>

definition i2c_begin :: "'u drivers \<Rightarrow> 'u handler" where
  "i2c_begin P args res w =
     (if \<not> is_int (args ! 0) \<or> \<not> is_int (args ! 1) \<or> \<not> is_int (args ! 2) \<or> \<not> valid_pin P (args ! 0)
        \<or> \<not> valid_pin P (args ! 1) \<or> \<not> int_in 1000 5000000 (args ! 2) then refuse_call res w
      else ask (wire_begin P (ucast (integer (args ! 0))) (ucast (integer (args ! 1))) (ucast (integer (args ! 2)))) w
        return_bool)"

definition i2c_end :: "'u drivers \<Rightarrow> 'u handler" where
  "i2c_end P args res w = Done (0, res, drive (wire_end P) w)"

definition i2c_write_common :: "'u drivers \<Rightarrow> bool \<Rightarrow> 'u handler" where
  "i2c_write_common P include_register args res w =
     (let payload = args ! (if include_register then 2 else 1) in
      if \<not> is_int (args ! 0) \<or> \<not> valid_i2c_address (args ! 0)
        \<or> include_register \<and> (\<not> is_int (args ! 1) \<or> \<not> int_in 0 255 (args ! 1))
        \<or> \<not> is_bytes payload \<or> MAX_IO_BYTES < len payload then refuse_call res w
      else
        (let w = drive (wire_begin_transmission P (ucast (integer (args ! 0)))) w;
             w = (if include_register then drive (wire_write P [ucast (integer (args ! 1))]) w else w)
         in c_then (if len payload \<noteq> 0 then c_then (bytes_at (mem w) (data payload) (len payload)) (\<lambda>bs.
              Done (drive (wire_write P bs) w)) else Done w) (\<lambda>w.
            ask (wire_end_transmission P True) w (\<lambda>status. return_int (ucast status)))))"

definition i2c_write :: "'u drivers \<Rightarrow> 'u handler" where
  "i2c_write P = i2c_write_common P False"

definition i2c_write_register :: "'u drivers \<Rightarrow> 'u handler" where
  "i2c_write_register P = i2c_write_common P True"

text \<open>The loop of \<open>i2c_read_payload\<close>, from the byte \<open>count\<close> on.\<close>

function i2c_fill :: "'u drivers \<Rightarrow> nat \<Rightarrow> nat \<Rightarrow> 'u world \<Rightarrow> (nat \<times> 'u world) c_outcome" where
  "i2c_fill P received count w =
     ask (wire_available P) w (\<lambda>waiting w.
       if waiting \<noteq> 0 \<and> count < received \<and> count < MAX_IO_BYTES then
         ask (wire_read P) w (\<lambda>b w. c_then (io_put P count b w) (i2c_fill P received (count + 1)))
       else Done (count, w))"
  by pat_completeness auto
termination by (relation "measure (\<lambda>(P, received, count, w). MAX_IO_BYTES - count)") auto

declare i2c_fill.simps [simp del]

definition i2c_read_payload :: "'u drivers \<Rightarrow> u8 \<Rightarrow> u8 \<Rightarrow> 'u world \<Rightarrow> (i32 \<times> ffi_value \<times> 'u world) c_outcome" where
  "i2c_read_payload P address requested w =
     ask (wire_request_from P address requested) w (\<lambda>received w.
       c_then (i2c_fill P received 0 w) (\<lambda>(count, w). return_bytes (io_buffer_at P) count w))"

definition i2c_read :: "'u drivers \<Rightarrow> 'u handler" where
  "i2c_read P args res w =
     (if \<not> is_int (args ! 0) \<or> \<not> valid_i2c_address (args ! 0) \<or> \<not> is_int (args ! 1)
        \<or> \<not> int_in 0 (int MAX_IO_BYTES) (args ! 1) then refuse_call res w
      else i2c_read_payload P (ucast (integer (args ! 0))) (ucast (integer (args ! 1))) w)"

definition i2c_read_register :: "'u drivers \<Rightarrow> 'u handler" where
  "i2c_read_register P args res w =
     (if \<not> is_int (args ! 0) \<or> \<not> valid_i2c_address (args ! 0) \<or> \<not> is_int (args ! 1) \<or> \<not> int_in 0 255 (args ! 1)
        \<or> \<not> is_int (args ! 2) \<or> \<not> int_in 0 (int MAX_IO_BYTES) (args ! 2) then refuse_call res w
      else
        (let w = drive (wire_write P [ucast (integer (args ! 1))])
               (drive (wire_begin_transmission P (ucast (integer (args ! 0)))) w)
         in ask (wire_end_transmission P False) w (\<lambda>status w.
              if status \<noteq> 0 then return_bytes (io_buffer_at P) 0 w
              else i2c_read_payload P (ucast (integer (args ! 0))) (ucast (integer (args ! 2))) w)))"

section \<open>The chip\<close>

definition mcu_delay_ms :: "'u serial \<Rightarrow> 'u handler" where
  "mcu_delay_ms S args res w =
     (if \<not> is_int (args ! 0) \<or> \<not> int_in 0 60000 (args ! 0) then refuse_call res w
      else Done (0, res, drive (board_delay S (ucast (integer (args ! 0)))) w))"

definition mcu_delay_us :: "'u drivers \<Rightarrow> 'u handler" where
  "mcu_delay_us P args res w =
     (if \<not> is_int (args ! 0) \<or> \<not> int_in 0 1000000 (args ! 0) then refuse_call res w
      else Done (0, res, drive (delay_microseconds P (ucast (integer (args ! 0)))) w))"

text \<open>The functions that return a number of the chip: \<open>millis\<close>, \<open>micros\<close>, \<open>getCpuFreqMHz\<close>,
  \<open>getFreeHeap\<close>, \<open>getFlashChipSize\<close> and \<open>esp_random\<close>.\<close>

definition mcu_number :: "('u \<Rightarrow> u32 \<times> 'u) \<Rightarrow> 'u handler" where
  "mcu_number f args res w = ask f w (\<lambda>n. return_int (ucast n))"

definition no_return :: "'u option \<Rightarrow> ffi_value \<Rightarrow> 'u world \<Rightarrow> (i32 \<times> ffi_value \<times> 'u world) c_outcome" where
  "no_return r res w = (case r of None \<Rightarrow> Diverges | Some u \<Rightarrow> Done (0, res, w\<lparr>user := u\<rparr>))"

definition mcu_restart :: "'u serial \<Rightarrow> 'u drivers \<Rightarrow> 'u handler" where
  "mcu_restart S P args res w = no_return (chip_restart P (serial_flush S (user w))) res w"

definition mcu_deep_sleep :: "'u drivers \<Rightarrow> 'u handler" where
  "mcu_deep_sleep P args res w =
     (if \<not> is_int (args ! 0) \<or> \<not> int_in 1 86400000000 (args ! 0) then refuse_call res w
      else no_return (deep_sleep P (integer (args ! 0)) (user w)) res w)"

section \<open>Network\<close>

text \<open>\<open>copy_string\<close>: the bytes in front of the zero that it appends, \<open>None\<close> when they do not fit.\<close>

definition copy_string :: "memory \<Rightarrow> ffi_value \<Rightarrow> nat \<Rightarrow> u8 list option c_outcome" where
  "copy_string m v capacity =
     (if \<not> is_string v \<or> capacity \<le> len v then Done None
      else c_then (if len v \<noteq> 0 then bytes_at m (data v) (len v) else Done []) (\<lambda>bs. Done (Some bs)))"

definition initialize_wifi :: "'u drivers \<Rightarrow> 'u \<Rightarrow> esp_err \<times> 'u" where
  "initialize_wifi P u =
     (if wifi_initialized (framework_of P u) then (ESP_OK, u)
      else case netif_init P u of (status, u) \<Rightarrow>
        if status \<noteq> ESP_OK \<and> status \<noteq> ESP_ERR_INVALID_STATE then (status, u)
        else case event_loop_create P u of (status, u) \<Rightarrow>
          if status \<noteq> ESP_OK \<and> status \<noteq> ESP_ERR_INVALID_STATE then (status, u)
          else case create_station P u of (created, u) \<Rightarrow>
            let u = with_framework P ((framework_of P u)\<lparr>wifi_station := created\<rparr>) u in
            if \<not> created then (ESP_FAIL, u)
            else case wifi_init P u of (status, u) \<Rightarrow>
              if status \<noteq> ESP_OK then (status, u)
              else (ESP_OK, with_framework P ((framework_of P u)\<lparr>wifi_initialized := True\<rparr>) u))"

definition esp_then :: "esp_err \<times> 'u \<Rightarrow> ('u \<Rightarrow> esp_err \<times> 'u) \<Rightarrow> esp_err \<times> 'u" where
  "esp_then r f = (case r of (status, u) \<Rightarrow> if status = ESP_OK then f u else (status, u))"

definition connect_steps :: "'u drivers \<Rightarrow> u8 list \<Rightarrow> u8 list \<Rightarrow> 'u \<Rightarrow> esp_err \<times> 'u" where
  "connect_steps P ssid password u =
     esp_then (esp_then (esp_then (esp_then (wifi_set_storage_ram P u) (wifi_set_mode_station P))
       (wifi_set_config P ssid password (password = []))) (wifi_start P)) (wifi_connect_station P)"

text \<open>A zero byte inside of a name ends it. The fields of the configuration have 32 and 64 bytes.\<close>

definition wifi_connect :: "'u drivers \<Rightarrow> 'u handler" where
  "wifi_connect P args res w =
     c_then (copy_string (mem w) (args ! 0) 33) (\<lambda>r. case r of None \<Rightarrow> refuse_call res w | Some ssid \<Rightarrow>
     c_then (copy_string (mem w) (args ! 1) 65) (\<lambda>r. case r of None \<Rightarrow> refuse_call res w | Some password \<Rightarrow>
     let ssid = takeWhile (\<lambda>b. b \<noteq> 0) ssid;
         password = takeWhile (\<lambda>b. b \<noteq> 0) password
     in if ssid = [] then refuse_call res w
        else ask (initialize_wifi P) w (\<lambda>status w.
          if status \<noteq> ESP_OK then return_bool False w
          else if 32 < length ssid \<or> 64 < length password then Undefined
          else ask (connect_steps P ssid password) w (\<lambda>status. return_bool (status = ESP_OK)))))"

definition wifi_disconnect :: "'u drivers \<Rightarrow> 'u handler" where
  "wifi_disconnect P args res w =
     (if \<not> wifi_initialized (framework_of P (user w)) then return_bool False w
      else ask (wifi_disconnect_station P) w (\<lambda>status. return_bool (status = ESP_OK)))"

definition wifi_is_connected :: "'u drivers \<Rightarrow> 'u handler" where
  "wifi_is_connected P args res w =
     (if \<not> wifi_initialized (framework_of P (user w)) then return_bool False w
      else ask (wifi_access_point P) w (\<lambda>(status, rssi). return_bool (status = ESP_OK)))"

definition wifi_rssi :: "'u drivers \<Rightarrow> 'u handler" where
  "wifi_rssi P args res w =
     (if \<not> wifi_initialized (framework_of P (user w)) then return_int (- 127) w
      else ask (wifi_access_point P) w (\<lambda>(status, rssi).
        return_int (if status \<noteq> ESP_OK then - 127 else scast rssi)))"

text \<open>\<open>IPSTR\<close> of the four bytes; \<open>snprintf\<close> cuts what does not fit.\<close>

definition ip_text :: "u32 \<Rightarrow> string" where
  "ip_text ip = concat (map (\<lambda>b. show_int (uint b) @ ''.'') (butlast (u32_bytes ip))) @ show_int (uint (last (u32_bytes ip)))"

definition return_network_text :: "'u drivers \<Rightarrow> string \<Rightarrow> 'u world \<Rightarrow> (i32 \<times> ffi_value \<times> 'u world) c_outcome" where
  "return_network_text P s w =
     (let s = take (NETWORK_TEXT_CAPACITY - 1) s in
      return_string (network_text_at P) (length s)
        (w\<lparr>mem := (mem w)\<lparr>cells := store (network_text_at P) (as_bytes s @ [0]) (cells (mem w))\<rparr>\<rparr>))"

definition wifi_local_ip :: "'u drivers \<Rightarrow> 'u handler" where
  "wifi_local_ip P args res w =
     (if \<not> wifi_station (framework_of P (user w)) then return_network_text P '''' w
      else ask (station_ip P) w (\<lambda>(status, ip).
        return_network_text P (if status \<noteq> ESP_OK \<or> ip = 0 then '''' else ip_text ip)))"

section \<open>Bluetooth\<close>

definition bluetooth_is_active :: "'u drivers \<Rightarrow> 'u \<Rightarrow> bool \<times> 'u" where
  "bluetooth_is_active P u = (case bt_get_status P u of (status, u) \<Rightarrow> (status = BT_Enabled, u))"

definition enable_inited :: "'u drivers \<Rightarrow> 'u \<Rightarrow> bool \<times> 'u" where
  "enable_inited P u = (case bt_enable_ble P u of (err, u) \<Rightarrow>
     if err \<noteq> ESP_OK then (False, u) else bluetooth_is_active P u)"

definition bluetooth_enable :: "'u drivers \<Rightarrow> 'u handler" where
  "bluetooth_enable P args res w =
     ask (\<lambda>u. case bt_get_status P u of (controller_status, u) \<Rightarrow>
       if controller_status = BT_Idle then
         (case bt_init P u of (err, u) \<Rightarrow> if err \<noteq> ESP_OK then (False, u) else enable_inited P u)
       else if controller_status = BT_Inited then enable_inited P u
       else bluetooth_is_active P u) w return_bool"

definition bluetooth_disable :: "'u drivers \<Rightarrow> 'u handler" where
  "bluetooth_disable P args res w =
     ask (\<lambda>u. case bt_get_status P u of (status, u) \<Rightarrow>
       case (if status = BT_Enabled then bt_disable P u else (ESP_OK, u)) of (err, u) \<Rightarrow>
       case bt_get_status P u of (status, u) \<Rightarrow>
       case (if status = BT_Inited then bt_deinit P u else (ESP_OK, u)) of (err', u) \<Rightarrow>
       (err' = ESP_OK \<and> err = ESP_OK, u)) w return_bool"

definition bluetooth_is_enabled :: "'u drivers \<Rightarrow> 'u handler" where
  "bluetooth_is_enabled P args res w = ask (bluetooth_is_active P) w return_bool"

section \<open>Serial port\<close>

definition host_serial_write :: "'u serial \<Rightarrow> 'u handler" where
  "host_serial_write S args res w =
     (if \<not> is_string (args ! 0) then refuse_call res w
      else c_then (bytes_at (mem w) (data (args ! 0)) (len (args ! 0))) (\<lambda>bs.
        Done (0, res, drive (serial_println S '''') (drive (serial_write S bs) w))))"

definition host_serial_available :: "'u serial \<Rightarrow> 'u handler" where
  "host_serial_available S args res w = ask (serial_available S) w (\<lambda>n. return_int (scast n))"

function serial_fill :: "'u serial \<Rightarrow> 'u drivers \<Rightarrow> nat \<Rightarrow> nat \<Rightarrow> 'u world \<Rightarrow> (nat \<times> 'u world) c_outcome" where
  "serial_fill S P maximum count w =
     (if count < maximum then
        ask (serial_available S) w (\<lambda>waiting w.
          if waiting \<noteq> 0 then
            ask (serial_read S) w (\<lambda>b w. c_then (io_put P count b w) (serial_fill S P maximum (count + 1)))
          else Done (count, w))
      else Done (count, w))"
  by pat_completeness auto
termination by (relation "measure (\<lambda>(S, P, maximum, count, w). maximum - count)") auto

declare serial_fill.simps [simp del]

definition host_serial_read :: "'u serial \<Rightarrow> 'u drivers \<Rightarrow> 'u handler" where
  "host_serial_read S P args res w =
     (if \<not> is_int (args ! 0) \<or> \<not> int_in 0 (int MAX_IO_BYTES) (args ! 0) then refuse_call res w
      else c_then (serial_fill S P (unat (integer (args ! 0))) 0 w) (\<lambda>(count, w).
        return_bytes (io_buffer_at P) count w))"

section \<open>The table of host functions\<close>

definition HOST_EXPORTS :: "'u serial \<Rightarrow> 'u drivers \<Rightarrow> (string \<times> nat \<times> 'u handler) list" where
  "HOST_EXPORTS S P =
     [(''gpio::configure'', 2, gpio_configure P),
      (''gpio::digital_write'', 2, gpio_write P),
      (''gpio::digital_read'', 1, gpio_read P),
      (''gpio::analog_read'', 1, gpio_analog_read P),
      (''gpio::pwm_write'', 4, gpio_pwm P),
      (''i2c::open'', 3, i2c_begin P),
      (''i2c::close'', 0, i2c_end P),
      (''i2c::transmit'', 2, i2c_write P),
      (''i2c::transmit_register'', 3, i2c_write_register P),
      (''i2c::receive'', 2, i2c_read P),
      (''i2c::receive_register'', 3, i2c_read_register P),
      (''mcu::delay_ms'', 1, mcu_delay_ms S),
      (''mcu::delay_us'', 1, mcu_delay_us P),
      (''mcu::millis'', 0, mcu_number (board_millis S)),
      (''mcu::micros'', 0, mcu_number (board_micros P)),
      (''mcu::cpu_frequency_mhz'', 0, mcu_number (cpu_freq_mhz P)),
      (''mcu::free_heap'', 0, mcu_number (free_heap P)),
      (''mcu::flash_size'', 0, mcu_number (flash_chip_size P)),
      (''mcu::random'', 0, mcu_number (random_word P)),
      (''mcu::restart'', 0, mcu_restart S P),
      (''mcu::deep_sleep_us'', 1, mcu_deep_sleep P)]
     @ (if feature_wifi P then
       [(''wifi::connect'', 2, wifi_connect P),
        (''wifi::disconnect'', 0, wifi_disconnect P),
        (''wifi::is_connected'', 0, wifi_is_connected P),
        (''wifi::rssi'', 0, wifi_rssi P),
        (''wifi::local_ip'', 0, wifi_local_ip P)] else [])
     @ (if feature_bluetooth P then
       [(''bluetooth::enable'', 0, bluetooth_enable P),
        (''bluetooth::disable'', 0, bluetooth_disable P),
        (''bluetooth::is_enabled'', 0, bluetooth_is_enabled P)] else [])
     @ [(''serial::write_line'', 1, host_serial_write S),
      (''serial::available'', 0, host_serial_available S),
      (''serial::read_bytes'', 1, host_serial_read S P)]"

definition rustscript_dispatch_host :: "'u serial \<Rightarrow> 'u drivers \<Rightarrow> 'u callback" where
  "rustscript_dispatch_host S P name args res w =
     (case find (\<lambda>(entry, arity, handler). arity = length args \<and> entry = name) (HOST_EXPORTS S P) of
        None \<Rightarrow> refuse_call res w
      | Some (entry, arity, handler) \<Rightarrow> handler args res w)"

end
