(* ===== verification/Host_Functions_Safety.thy ===== *)
theory Host_Functions_Safety
  imports Host_Functions
begin

text \<open>
  Properties of the host functions: a call of any of them, or of none, has a defined behaviour
  within its contract, refuses bad arguments before it touches anything, and returns only values
  that the virtual machine accepts; no driver is called on a pin that the chip does not have; and
  PWM channels are handed out first come, first served.
\<close>

section \<open>What a handler may do\<close>

text \<open>A result that \<open>to_embedded\<close> accepts.\<close>

definition value_ok :: "memory \<Rightarrow> ffi_value \<Rightarrow> bool" where
  "value_ok m f \<longleftrightarrow> tag f = tag_byte Tag_Int \<or> tag f = tag_byte Tag_Bool \<and> boolean f \<in> {0, 1}
     \<or> tag f = tag_byte Tag_Bytes \<and> (\<exists>bs. borrowed_bytes m (data f) (len f) = Done (Inr bs))
     \<or> tag f = tag_byte Tag_String \<and> (\<exists>s. borrowed_bytes m (data f) (len f) = Done (Inr (as_bytes s)) \<and> str_ok s)"

definition answer_ok :: "ffi_value \<Rightarrow> 'u world \<Rightarrow> i32 \<times> ffi_value \<times> 'u world \<Rightarrow> bool" where
  "answer_ok res w = (\<lambda>(status, res', w'). kept (mem w) (mem w') \<and>
     (status = - 1 \<and> res' = res \<and> w' = w \<or> status = 0 \<or> status = 1 \<and> value_ok (mem w') res'))"

definition behaves :: "'u handler \<Rightarrow> nat \<Rightarrow> bool" where
  "behaves h n \<longleftrightarrow> (\<forall>args res w. length args = n \<longrightarrow> list_all (data_readable (mem w)) args \<longrightarrow>
     ensures (h args res w) (answer_ok res w))"

lemma tag_bytes [simp]:
  "tag_byte Tag_Null = 0" "tag_byte Tag_Int = 1" "tag_byte Tag_Float = 2" "tag_byte Tag_Bool = 3"
  "tag_byte Tag_String = 4" "tag_byte Tag_Bytes = 5"
  by (simp_all add: tag_byte_def)

lemma value_to_embedded: "value_ok m f \<Longrightarrow> \<exists>v. to_embedded m f = Done (Inr v)"
  by (auto simp: value_ok_def to_embedded_def from_utf8_as_bytes)

lemma value_readable: "value_ok m f \<Longrightarrow> data_readable m f"
  by (auto simp: value_ok_def data_readable_def readable_def borrowed_bytes_def split: if_splits option.splits)

named_theorems handler_rules

lemma answers [handler_rules]:
  "ensures (refuse_call res w) (answer_ok res w)"
  "ensures (return_bool b w') (answer_ok res w) \<longleftrightarrow> kept (mem w) (mem w')"
  "ensures (return_int i w') (answer_ok res w) \<longleftrightarrow> kept (mem w) (mem w')"
  "answer_ok res w (0, res', w') \<longleftrightarrow> kept (mem w) (mem w')"
  "ensures (return_bytes p n w') (answer_ok res w) \<longleftrightarrow>
     kept (mem w) (mem w') \<and> (\<exists>bs. borrowed_bytes (mem w') p n = Done (Inr bs))"
  by (simp_all add: refuse_call_def return_bool_def return_int_def return_bytes_def answer_ok_def value_ok_def null_value_def)

lemma ensures_ask [handler_rules]:
  "ensures (ask f w k) Q \<longleftrightarrow> (\<forall>a u. f (user w) = (a, u) \<longrightarrow> ensures (k a (w\<lparr>user := u\<rparr>)) Q)"
  by (simp add: ask_def split: prod.split)

lemma drive_mem [handler_rules]: "mem (drive f w) = mem w"
  by (simp add: drive_def)

lemma readable_bytes:
  "data_readable m v \<Longrightarrow> is_bytes v \<or> is_string v \<Longrightarrow> ensures (bytes_at m (data v) (len v)) (\<lambda>bs. length bs = len v)"
  by (auto simp: data_readable_def is_bytes_def is_string_def readable_def bytes_at_def dest: load_length)

text \<open>The two loops that fill the buffer write inside of it, and what they report can be read.\<close>

lemma io_put_ensures [handler_rules]:
  "i < MAX_IO_BYTES \<Longrightarrow> ensures (io_put P i b w) Q \<longleftrightarrow>
     Q (w\<lparr>mem := (mem w)\<lparr>cells := (cells (mem w))(io_buffer_at P + i \<mapsto> ucast b)\<rparr>\<rparr>)"
  by (simp add: io_put_def)

definition filled :: "'u drivers \<Rightarrow> 'u world \<Rightarrow> nat \<times> 'u world \<Rightarrow> bool" where
  "filled P w = (\<lambda>(count, w'). kept (mem w) (mem w') \<and> {io_buffer_at P..<io_buffer_at P + count} \<subseteq> dom (cells (mem w')))"

lemma filled_put:
  assumes "filled P w (count, w1)" and "mem w2 = mem w1"
  shows "filled P w (Suc count, w2\<lparr>mem := (mem w2)\<lparr>cells := (cells (mem w2))(io_buffer_at P + count \<mapsto> b)\<rparr>\<rparr>)"
proof -
  have "{a..<a + Suc n} = insert (a + n) {a..<a + n}" for a n :: nat by auto
  then show ?thesis using assms by (auto simp: filled_def kept_def same_heap_def)
qed

lemma filled_same: "filled P w (count, w1) \<Longrightarrow> mem w2 = mem w1 \<Longrightarrow> filled P w (count, w2)"
  by (simp add: filled_def)

lemma i2c_fill_ensures:
  "filled P w (count, w1) \<Longrightarrow> ensures (i2c_fill P received count w1) (filled P w)"
proof (induction P received count w1 rule: i2c_fill.induct)
  case (1 P received count w1)
  obtain waiting u where a: "wire_available P (user w1) = (waiting, u)" by fastforce
  obtain b u' where r: "wire_read P u = (b, u')" by fastforce
  show ?case
  proof (cases "waiting \<noteq> 0 \<and> count < received \<and> count < MAX_IO_BYTES")
    case True
    let ?w = "w1\<lparr>user := u'\<rparr>"
    have "filled P w (count + 1, ?w\<lparr>mem := (mem ?w)\<lparr>cells := (cells (mem ?w))(io_buffer_at P + count \<mapsto> ucast b)\<rparr>\<rparr>)"
      using filled_put [OF "1.prems", of ?w] by simp
    from "1.IH" [OF True this] show ?thesis
      using True a r by (simp add: i2c_fill.simps [of P received count w1] ask_def io_put_def)
  next
    case False
    then show ?thesis
      using a filled_same [OF "1.prems"] by (auto simp: i2c_fill.simps [of P received count w1] ask_def)
  qed
qed

lemma serial_fill_ensures:
  "filled P w (count, w1) \<Longrightarrow> maximum \<le> MAX_IO_BYTES \<Longrightarrow> ensures (serial_fill S P maximum count w1) (filled P w)"
proof (induction S P maximum count w1 rule: serial_fill.induct)
  case (1 S P maximum count w1)
  obtain waiting u where a: "serial_available S (user w1) = (waiting, u)" by fastforce
  obtain b u' where r: "serial_read S u = (b, u')" by fastforce
  show ?case
  proof (cases "count < maximum \<and> waiting \<noteq> 0")
    case True
    let ?w = "w1\<lparr>user := u'\<rparr>"
    have "filled P w (count + 1, ?w\<lparr>mem := (mem ?w)\<lparr>cells := (cells (mem ?w))(io_buffer_at P + count \<mapsto> ucast b)\<rparr>\<rparr>)"
      using filled_put [OF "1.prems"(1), of ?w] by simp
    from "1.IH" [OF conjunct1 [OF True] conjunct2 [OF True] this "1.prems"(2)] show ?thesis
      using True a r "1.prems"(2) by (simp add: serial_fill.simps [of S P maximum count w1] ask_def io_put_def)
  next
    case False
    then show ?thesis
      using a filled_same [OF "1.prems"(1)] "1.prems"(1) by (auto simp: serial_fill.simps [of S P maximum count w1] ask_def)
  qed
qed

section \<open>Every handler\<close>

text \<open>The two static arrays are somewhere.\<close>

definition statics_placed :: "'u drivers \<Rightarrow> bool" where
  "statics_placed P \<longleftrightarrow> io_buffer_at P \<noteq> 0 \<and> network_text_at P \<noteq> 0"

lemma filled_answer:
  assumes "statics_placed P" and "filled P w (count, w')"
  shows "ensures (return_bytes (io_buffer_at P) count w') (answer_ok res w)"
proof -
  have "load (cells (mem w')) (io_buffer_at P) count \<noteq> None"
    using assms(2) unfolding load_iff_dom by (simp add: filled_def)
  then show ?thesis using assms by (auto simp: handler_rules filled_def borrowed_bytes_def statics_placed_def)
qed

lemma filled_none: "kept (mem w) (mem w') \<Longrightarrow> filled P w (0, w')"
  by (simp add: filled_def)

lemma text_answer:
  assumes "statics_placed P" and "kept (mem w) (mem w')" and "list_all (\<lambda>c. of_char c < (0x80 :: nat)) s"
  shows "ensures (return_network_text P s w') (answer_ok res w)"
proof -
  let ?s = "take (NETWORK_TEXT_CAPACITY - 1) s"
  have "of_char c < (0x80 :: u8)" if "c \<in> set ?s" for c
    using assms(3) in_set_takeD [OF that] by (simp add: list_all_iff word_less_nat_alt unat_of_char)
  then have ok: "str_ok ?s" unfolding str_ok_def by (intro utf8_valid_ascii) (auto simp: as_bytes_def)
  let ?c = "store (network_text_at P) (as_bytes ?s @ [0]) (cells (mem w'))"
  have "{network_text_at P..<network_text_at P + length ?s} \<subseteq> dom ?c" by (simp add: dom_store) auto
  then have "load ?c (network_text_at P) (length ?s) \<noteq> None" unfolding load_iff_dom .
  moreover have "load ?c (network_text_at P) (length ?s) = Some (as_bytes ?s)"
    using load_prefix [of "network_text_at P" "as_bytes ?s" "[0]"] by simp
  ultimately show ?thesis
    using assms(1,2) ok by (auto simp: return_network_text_def return_string_def answer_ok_def value_ok_def Let_def
        null_value_def borrowed_bytes_def statics_placed_def kept_def same_heap_def dom_store)
qed

lemma gpio_behaves:
  "behaves (gpio_configure P) 2" "behaves (gpio_write P) 2" "behaves (gpio_read P) 1" "behaves (gpio_analog_read P) 1"
  "behaves (gpio_pwm P) 4"
  by (auto simp: behaves_def gpio_configure_def gpio_write_def gpio_read_def gpio_analog_read_def gpio_pwm_def
      handler_rules Let_def split: option.split prod.split)

lemma mcu_behaves:
  "behaves (mcu_delay_ms S) 1" "behaves (mcu_delay_us P) 1" "behaves (mcu_number f) 0" "behaves (mcu_restart S P) 0"
  "behaves (mcu_deep_sleep P) 1"
  by (auto simp: behaves_def mcu_delay_ms_def mcu_delay_us_def mcu_number_def mcu_restart_def mcu_deep_sleep_def
      no_return_def handler_rules split: option.split)

lemma bluetooth_behaves:
  "behaves (bluetooth_enable P) 0" "behaves (bluetooth_disable P) 0" "behaves (bluetooth_is_enabled P) 0"
  by (auto simp: behaves_def bluetooth_enable_def bluetooth_disable_def bluetooth_is_enabled_def
      handler_rules split: option.split prod.split)

lemma bytes_ensures:
  assumes "data_readable m v" and "is_bytes v \<or> is_string v" and "\<And>bs. length bs = len v \<Longrightarrow> Q bs"
  shows "ensures (bytes_at m (data v) (len v)) Q"
  by (rule ensures_mono [OF readable_bytes [OF assms(1,2)]]) (rule assms(3))

lemma unat_nonneg: "0 \<le> sint i \<Longrightarrow> int (unat i) = sint i" for i :: i64
  using sint_less [of i] by (simp add: uint_sint take_bit_int_eq_self)

lemma nth_readable: "list_all (data_readable m) args \<Longrightarrow> i < length args \<Longrightarrow> data_readable m (args ! i)"
  by (simp add: list_all_length)

lemma i2c_write_behaves: "behaves (i2c_write P) 2" "behaves (i2c_write_register P) 3"
  by (auto simp: behaves_def i2c_write_def i2c_write_register_def i2c_write_common_def handler_rules Let_def
      intro!: bytes_ensures nth_readable)

lemma i2c_payload_ensures:
  "statics_placed P \<Longrightarrow> kept (mem w) (mem w') \<Longrightarrow> ensures (i2c_read_payload P a n w') (answer_ok res w)"
  by (auto simp: i2c_read_payload_def handler_rules intro!: ensures_mono [OF i2c_fill_ensures] filled_none
      intro: filled_answer)

lemma i2c_behaves:
  assumes "statics_placed P"
  shows "behaves (i2c_begin P) 3" "behaves (i2c_end P) 0" "behaves (i2c_read P) 2" "behaves (i2c_read_register P) 3"
proof -
  have "ensures (return_bytes (io_buffer_at P) 0 w') (answer_ok res w)" if "kept (mem w) (mem w')" for res and w w' :: "'a world"
    by (rule filled_answer [OF assms filled_none [OF that]])
  then show "behaves (i2c_begin P) 3" "behaves (i2c_end P) 0" "behaves (i2c_read P) 2" "behaves (i2c_read_register P) 3"
    using i2c_payload_ensures [OF assms]
    by (auto simp: behaves_def i2c_begin_def i2c_end_def i2c_read_def i2c_read_register_def Let_def
        answers(1,2,4) ensures_ask drive_mem)
qed

lemma serial_behaves:
  assumes "statics_placed P"
  shows "behaves (host_serial_write S) 1" "behaves (host_serial_available S) 0" "behaves (host_serial_read S P) 1"
proof -
  show "behaves (host_serial_write S) 1" "behaves (host_serial_available S) 0"
    by (auto simp: behaves_def host_serial_write_def host_serial_available_def handler_rules
        intro!: bytes_ensures nth_readable)
  have "unat (integer v) \<le> MAX_IO_BYTES" if "int_in 0 (int MAX_IO_BYTES) v" for v
  proof -
    have "int (unat (integer v)) \<le> int MAX_IO_BYTES" using that unat_nonneg [of "integer v"] by (simp only: int_in_def)
    then show ?thesis by (simp only: of_nat_le_iff)
  qed
  then show "behaves (host_serial_read S P) 1"
    using assms by (auto simp: behaves_def host_serial_read_def handler_rules
        intro!: ensures_mono [OF serial_fill_ensures] filled_none intro: filled_answer)
qed

lemma show_nat_ascii: "list_all (\<lambda>c. of_char c < (0x80 :: nat)) (show_nat n)"
proof (induction n rule: show_nat.induct)
  case (1 n)
  have "of_char (digit (n mod 10)) < (0x80 :: nat)" by (simp add: digit_def take_bit_eq_mod)
  with 1 show ?case by (subst show_nat.simps) (auto simp: digit_def take_bit_eq_mod)
qed

lemma ip_text_ascii: "list_all (\<lambda>c. of_char c < (0x80 :: nat)) (ip_text ip)"
  by (auto simp: ip_text_def list_all_iff show_int_def dest!: show_nat_ascii [unfolded list_all_iff, rule_format])

lemma copy_ensures:
  assumes "data_readable m v" and "Q None" and "\<And>bs. length bs < capacity \<Longrightarrow> Q (Some bs)"
  shows "ensures (copy_string m v capacity) Q"
  using assms by (auto simp: copy_string_def not_le intro!: bytes_ensures)

lemma wifi_connect_behaves: "behaves (wifi_connect P) 2"
proof -
  have short: "\<not> 32 < length (takeWhile p ssid)" "\<not> 64 < length (takeWhile q password)"
    if "length ssid < 33" "length password < 65" for p q and ssid password :: "u8 list"
    using that length_takeWhile_le [of p ssid] length_takeWhile_le [of q password] by linarith+
  show ?thesis
    by (auto simp: behaves_def wifi_connect_def handler_rules Let_def short
        intro!: copy_ensures nth_readable)
qed

lemma wifi_behaves:
  assumes "statics_placed P"
  shows "behaves (wifi_disconnect P) 0" "behaves (wifi_is_connected P) 0" "behaves (wifi_rssi P) 0" "behaves (wifi_local_ip P) 0"
  using text_answer [OF assms] ip_text_ascii
  by (auto simp: behaves_def wifi_disconnect_def wifi_is_connected_def wifi_rssi_def wifi_local_ip_def handler_rules)

text \<open>So does the function behind any name.\<close>

lemma exports_behave:
  assumes "statics_placed P" and "(name, arity, h) \<in> set (HOST_EXPORTS S P)"
  shows "behaves h arity"
  using assms(2) gpio_behaves mcu_behaves bluetooth_behaves i2c_write_behaves i2c_behaves [OF assms(1)]
    serial_behaves [OF assms(1)] wifi_connect_behaves wifi_behaves [OF assms(1)]
  by (auto simp: HOST_EXPORTS_def split: if_splits)

lemma dispatch_ensures:
  assumes "statics_placed P" and "list_all (data_readable (mem w)) args"
  shows "ensures (rustscript_dispatch_host S P name args res w) (answer_ok res w)"
proof (cases "find (\<lambda>(entry, arity, handler). arity = length args \<and> entry = name) (HOST_EXPORTS S P)")
  case None
  then show ?thesis by (simp add: rustscript_dispatch_host_def answers(1))
next
  case (Some e)
  obtain entry arity h where e: "e = (entry, arity, h)" by (cases e)
  from Some have "(entry, arity, h) \<in> set (HOST_EXPORTS S P)" "arity = length args"
    by (auto simp: find_Some_iff e) (metis nth_mem)
  with exports_behave [OF assms(1)] assms(2) have "ensures (h args res w) (answer_ok res w)"
    by (auto simp: behaves_def)
  then show ?thesis by (simp add: rustscript_dispatch_host_def Some e)
qed

lemma dispatch_callback_ok: "statics_placed P \<Longrightarrow> callback_ok (rustscript_dispatch_host S P)"
  unfolding callback_ok_def
  by (auto intro!: ensures_mono [OF dispatch_ensures] simp: answer_ok_def value_readable)

text \<open>C20. A host call of a script, from the virtual machine through the C interface to the drivers and back,
  happens all or not at all: it has a defined behaviour whatever its name and arguments are, it keeps the
  heap, and when it fails then nothing has been touched. It never fails for its result, which the interface
  always accepts.\<close>

theorem host_call_all_or_nothing:
  fixes args :: "('c vm_value \<times> addr) list"
  assumes "statics_placed P" and "args_readable (mem w) args"
  shows "ensures (dispatch_host reserve (Some (rustscript_dispatch_host S P)) name args w) (\<lambda>(r, w').
    kept (mem w) (mem w') \<and> (case r of
      Inr v \<Rightarrow> True | Inl e \<Rightarrow> w' = w \<and> e \<noteq> Host_Error ''invalid host return value''))"
proof (cases "collect (map (\<lambda>(v, p). from_embedded p v) args)")
  case (Inr vs)
  let ?Q = "\<lambda>(r :: host_error + 'c vm_value option, w'). kept (mem w) (mem w') \<and> (case r of
      Inr v \<Rightarrow> True | Inl e \<Rightarrow> w' = w \<and> e \<noteq> Host_Error ''invalid host return value'')"
  have "ensures (if status = 0 then Done (Inr None, w') else if status = 1 then
        c_then (to_embedded (mem w') res') (\<lambda>r. Done (case r of Inr v \<Rightarrow> Inr (Some v)
          | Inl _ \<Rightarrow> Inl (Host_Error ''invalid host return value''), w'))
      else Done (Inl (Host_Error ''host callback failed''), w')) ?Q"
    if "answer_ok null_value w (status, res', w')" for status res' w'
  proof -
    have "\<exists>v :: 'c vm_value. to_embedded (mem w') res' = Done (Inr v)" if "value_ok (mem w') res'"
      by (rule value_to_embedded [OF that])
    with that show ?thesis by (auto simp: answer_ok_def)
  qed
  then show ?thesis
    using dispatch_ensures [OF assms(1) data_readable_args [OF assms(2) Inr], of S name null_value]
    by (auto simp: dispatch_host_def Inr elim!: ensures_mono)
qed (simp add: dispatch_host_def)

section \<open>Pins\<close>

text \<open>A driver that is one thing on the pins of the chip, and another one on all other numbers. The drivers
  of Arduino take a pin as a byte; \<open>Wire.begin\<close> takes its two pins, SDA and SCL, as words of 32 bits, and keeps
  its own meaning only when both are on the chip.\<close>

definition on_chip :: "int \<Rightarrow> ('w::len word \<Rightarrow> 'a) \<Rightarrow> ('w word \<Rightarrow> 'a) \<Rightarrow> 'w word \<Rightarrow> 'a" where
  "on_chip n f g pin = (if int (unat pin) < n then f pin else g pin)"

lemma valid_on_chip:
  assumes "valid_pin P v"
  shows "on_chip (gpio_pins P) f g (ucast (integer v) :: 'w::len word) = f (ucast (integer v))"
proof -
  have "unat (ucast (integer v) :: 'w word) \<le> unat (integer v)"
    by (simp add: unsigned_ucast_eq take_bit_nat_less_eq_self)
  then have "int (unat (ucast (integer v) :: 'w word)) \<le> int (unat (integer v))" by (simp only: of_nat_le_iff)
  then show ?thesis using assms unat_nonneg [of "integer v"] by (simp add: valid_pin_def on_chip_def)
qed

definition with_guards :: "'u drivers \<Rightarrow> (u8 \<Rightarrow> pin_mode \<Rightarrow> 'u \<Rightarrow> 'u) \<Rightarrow> (u8 \<Rightarrow> bool \<Rightarrow> 'u \<Rightarrow> 'u)
    \<Rightarrow> (u8 \<Rightarrow> 'u \<Rightarrow> bool \<times> 'u) \<Rightarrow> (u8 \<Rightarrow> 'u \<Rightarrow> u16 \<times> 'u) \<Rightarrow> (u8 \<Rightarrow> int \<Rightarrow> 'u \<Rightarrow> 'u)
    \<Rightarrow> (i32 \<Rightarrow> i32 \<Rightarrow> u32 \<Rightarrow> 'u \<Rightarrow> bool \<times> 'u) \<Rightarrow> 'u drivers" where
  "with_guards P a b c d e f = (let n = gpio_pins P in P\<lparr>
     set_pin_mode := on_chip n (set_pin_mode P) a, digital_write := on_chip n (digital_write P) b,
     digital_read := on_chip n (digital_read P) c, analog_read := on_chip n (analog_read P) d,
     ledc_attach_pin := on_chip n (ledc_attach_pin P) e,
     wire_begin := on_chip n (\<lambda>sda. on_chip n (wire_begin P sda) (f sda)) f\<rparr>)"

lemma guards_rest [simp]:
  "framework_of (with_guards P a b c d e f) = framework_of P" "with_framework (with_guards P a b c d e f) = with_framework P"
  "io_buffer_at (with_guards P a b c d e f) = io_buffer_at P" "network_text_at (with_guards P a b c d e f) = network_text_at P"
  "feature_wifi (with_guards P a b c d e f) = feature_wifi P"
  "feature_bluetooth (with_guards P a b c d e f) = feature_bluetooth P" "gpio_pins (with_guards P a b c d e f) = gpio_pins P"
  "ledc_setup (with_guards P a b c d e f) = ledc_setup P" "ledc_write (with_guards P a b c d e f) = ledc_write P"
  "wire_end (with_guards P a b c d e f) = wire_end P"
  "wire_begin_transmission (with_guards P a b c d e f) = wire_begin_transmission P"
  "wire_write (with_guards P a b c d e f) = wire_write P"
  "wire_end_transmission (with_guards P a b c d e f) = wire_end_transmission P"
  "wire_request_from (with_guards P a b c d e f) = wire_request_from P"
  "wire_available (with_guards P a b c d e f) = wire_available P" "wire_read (with_guards P a b c d e f) = wire_read P"
  "delay_microseconds (with_guards P a b c d e f) = delay_microseconds P"
  "board_micros (with_guards P a b c d e f) = board_micros P" "cpu_freq_mhz (with_guards P a b c d e f) = cpu_freq_mhz P"
  "free_heap (with_guards P a b c d e f) = free_heap P" "flash_chip_size (with_guards P a b c d e f) = flash_chip_size P"
  "random_word (with_guards P a b c d e f) = random_word P" "chip_restart (with_guards P a b c d e f) = chip_restart P"
  "deep_sleep (with_guards P a b c d e f) = deep_sleep P" "netif_init (with_guards P a b c d e f) = netif_init P"
  "event_loop_create (with_guards P a b c d e f) = event_loop_create P"
  "create_station (with_guards P a b c d e f) = create_station P" "wifi_init (with_guards P a b c d e f) = wifi_init P"
  "wifi_set_storage_ram (with_guards P a b c d e f) = wifi_set_storage_ram P"
  "wifi_set_mode_station (with_guards P a b c d e f) = wifi_set_mode_station P"
  "wifi_set_config (with_guards P a b c d e f) = wifi_set_config P" "wifi_start (with_guards P a b c d e f) = wifi_start P"
  "wifi_connect_station (with_guards P a b c d e f) = wifi_connect_station P"
  "wifi_disconnect_station (with_guards P a b c d e f) = wifi_disconnect_station P"
  "wifi_access_point (with_guards P a b c d e f) = wifi_access_point P" "station_ip (with_guards P a b c d e f) = station_ip P"
  "bt_get_status (with_guards P a b c d e f) = bt_get_status P" "bt_init (with_guards P a b c d e f) = bt_init P"
  "bt_enable_ble (with_guards P a b c d e f) = bt_enable_ble P" "bt_disable (with_guards P a b c d e f) = bt_disable P"
  "bt_deinit (with_guards P a b c d e f) = bt_deinit P"
  by (simp_all add: with_guards_def Let_def)

lemma guards_pins [simp]:
  "set_pin_mode (with_guards P a b c d e f) = on_chip (gpio_pins P) (set_pin_mode P) a"
  "digital_write (with_guards P a b c d e f) = on_chip (gpio_pins P) (digital_write P) b"
  "digital_read (with_guards P a b c d e f) = on_chip (gpio_pins P) (digital_read P) c"
  "analog_read (with_guards P a b c d e f) = on_chip (gpio_pins P) (analog_read P) d"
  "ledc_attach_pin (with_guards P a b c d e f) = on_chip (gpio_pins P) (ledc_attach_pin P) e"
  "wire_begin (with_guards P a b c d e f) =
     on_chip (gpio_pins P) (\<lambda>sda. on_chip (gpio_pins P) (wire_begin P sda) (f sda)) f"
  "valid_pin (with_guards P a b c d e f) = valid_pin P"
  by (simp_all add: with_guards_def Let_def) (simp add: fun_eq_iff valid_pin_def)

lemma gpio_guarded:
  "gpio_configure (with_guards P a b c d e f) = gpio_configure P" "gpio_write (with_guards P a b c d e f) = gpio_write P"
  "gpio_read (with_guards P a b c d e f) = gpio_read P" "gpio_analog_read (with_guards P a b c d e f) = gpio_analog_read P"
  "gpio_pwm (with_guards P a b c d e f) = gpio_pwm P" "i2c_begin (with_guards P a b c d e f) = i2c_begin P"
  by (auto simp: fun_eq_iff i2c_begin_def gpio_configure_def gpio_write_def gpio_read_def gpio_analog_read_def gpio_pwm_def
      Let_def valid_on_chip ask_def split: option.split prod.split)

lemma io_put_guarded [simp]: "io_put (with_guards P a b c d e f) = io_put P"
  by (simp add: fun_eq_iff io_put_def)

lemma i2c_fill_guarded [simp]:
  "i2c_fill (with_guards P a b c d e f) received count w = i2c_fill P received count w"
proof (induction P received count w rule: i2c_fill.induct)
  case (1 P received count w)
  obtain waiting u where w: "wire_available P (user w) = (waiting, u)" by fastforce
  have "i2c_fill (with_guards P a b c d e f) received (count + 1) = i2c_fill P received (count + 1)"
    if "waiting \<noteq> 0 \<and> count < received \<and> count < MAX_IO_BYTES"
    by (rule ext) (rule "1.IH" [OF that])
  then show ?case
    by (simp add: i2c_fill.simps [of "with_guards P a b c d e f" received count] i2c_fill.simps [of P received count] ask_def w)
qed

lemma serial_fill_guarded [simp]:
  "serial_fill S (with_guards P a b c d e f) maximum count w = serial_fill S P maximum count w"
proof (induction S P maximum count w rule: serial_fill.induct)
  case (1 S P maximum count w)
  obtain waiting u where w: "serial_available S (user w) = (waiting, u)" by fastforce
  have "serial_fill S (with_guards P a b c d e f) maximum (count + 1) = serial_fill S P maximum (count + 1)"
    if "count < maximum" "waiting \<noteq> 0"
    by (rule ext) (rule "1.IH" [OF that])
  then show ?case
    by (simp add: serial_fill.simps [of S "with_guards P a b c d e f" maximum count] serial_fill.simps [of S P maximum count] ask_def w)
qed

lemma others_guarded:
  "i2c_end (with_guards P a b c d e f) = i2c_end P"
  "i2c_write (with_guards P a b c d e f) = i2c_write P" "i2c_write_register (with_guards P a b c d e f) = i2c_write_register P"
  "i2c_read (with_guards P a b c d e f) = i2c_read P" "i2c_read_register (with_guards P a b c d e f) = i2c_read_register P"
  "mcu_delay_us (with_guards P a b c d e f) = mcu_delay_us P" "mcu_restart S (with_guards P a b c d e f) = mcu_restart S P"
  "mcu_deep_sleep (with_guards P a b c d e f) = mcu_deep_sleep P"
  "host_serial_read S (with_guards P a b c d e f) = host_serial_read S P"
  unfolding fun_eq_iff i2c_end_def i2c_write_def i2c_write_register_def i2c_write_common_def
    i2c_read_def i2c_read_register_def i2c_read_payload_def mcu_delay_us_def mcu_restart_def mcu_deep_sleep_def
    host_serial_read_def guards_rest guards_pins i2c_fill_guarded serial_fill_guarded
  by (rule allI refl)+

lemma radio_guarded:
  "wifi_connect (with_guards P a b c d e f) = wifi_connect P" "wifi_disconnect (with_guards P a b c d e f) = wifi_disconnect P"
  "wifi_is_connected (with_guards P a b c d e f) = wifi_is_connected P" "wifi_rssi (with_guards P a b c d e f) = wifi_rssi P"
  "wifi_local_ip (with_guards P a b c d e f) = wifi_local_ip P" "bluetooth_enable (with_guards P a b c d e f) = bluetooth_enable P"
  "bluetooth_disable (with_guards P a b c d e f) = bluetooth_disable P"
  "bluetooth_is_enabled (with_guards P a b c d e f) = bluetooth_is_enabled P"
  unfolding fun_eq_iff wifi_connect_def initialize_wifi_def [abs_def] connect_steps_def [abs_def] wifi_disconnect_def
    wifi_is_connected_def wifi_rssi_def wifi_local_ip_def return_network_text_def bluetooth_enable_def bluetooth_disable_def
    bluetooth_is_enabled_def enable_inited_def bluetooth_is_active_def [abs_def] guards_rest
  by (rule allI refl)+

text \<open>C21. No host call, whatever its arguments, reaches a driver with a pin that the chip does not have: the
  six drivers that get a pin, the one that starts I2C with its two pins among them, can be replaced by anything on
  all other numbers, and every call does the same as before.\<close>

theorem pins_stay_on_chip:
  "rustscript_dispatch_host S (with_guards P a b c d e f) = rustscript_dispatch_host S P"
proof -
  have "HOST_EXPORTS S (with_guards P a b c d e f) = HOST_EXPORTS S P"
    unfolding HOST_EXPORTS_def gpio_guarded others_guarded radio_guarded by simp
  then show ?thesis by (simp add: fun_eq_iff rustscript_dispatch_host_def)
qed

section \<open>PWM channels\<close>

text \<open>The channels that a sequence of calls gets, and the table it leaves.\<close>

fun pwm_channels :: "int list \<Rightarrow> 8 word list \<Rightarrow> int list" where
  "pwm_channels [] table = []"
| "pwm_channels (pin # pins) table =
     (case pwm_channel_for_pin pin table of (channel, table) \<Rightarrow> channel # pwm_channels pins table)"

text \<open>The pins in the order of their first call, and the place of a pin among them.\<close>

fun first_calls :: "int list \<Rightarrow> int list" where
  "first_calls [] = []"
| "first_calls (p # ps) = p # filter (\<lambda>q. q \<noteq> p) (first_calls ps)"

fun place_of :: "int \<Rightarrow> int list \<Rightarrow> nat option" where
  "place_of p [] = None"
| "place_of p (q # qs) = (if p = q then Some 0 else map_option Suc (place_of p qs))"

definition channel_in :: "int list \<Rightarrow> int \<Rightarrow> int" where
  "channel_in served p = (case place_of p served of None \<Rightarrow> - 1 | Some c \<Rightarrow> int c)"

text \<open>The table in which these pins have a channel.\<close>

definition table_of :: "int list \<Rightarrow> 8 word list" where
  "table_of served = map of_int served @ replicate (PWM_CHANNEL_COUNT - length served) (- 1)"

definition pin_range :: "int list \<Rightarrow> bool" where
  "pin_range ps \<longleftrightarrow> list_all (\<lambda>p. 0 \<le> p \<and> p < 128) ps"

lemma sint_pin: "0 \<le> p \<Longrightarrow> p < 128 \<Longrightarrow> sint (of_int p :: 8 word) = p"
  by (simp add: sint_sbintrunc' signed_take_bit_int_eq_self)

lemma first_channel_append:
  "first_channel t c (xs @ ys) = (case first_channel t c xs of None \<Rightarrow> first_channel t (c + length xs) ys | r \<Rightarrow> r)"
  by (induction xs arbitrary: c) (simp_all split: option.split)

lemma first_channel_served:
  "pin_range served \<Longrightarrow> 0 \<le> p \<Longrightarrow>
     first_channel (\<lambda>w. sint w = p) c (map of_int served) = map_option ((+) c) (place_of p served)"
proof (induction served arbitrary: c)
  case (Cons q qs)
  then show ?case by (cases "place_of p qs") (auto simp: pin_range_def sint_pin)
qed simp

lemma first_channel_free:
  "pin_range served \<Longrightarrow> first_channel (\<lambda>w. sint w < 0) c (map of_int served) = None"
  by (induction served arbitrary: c) (auto simp: pin_range_def sint_pin)

lemma first_channel_unused:
  "first_channel t c (replicate n x) = (if t x \<and> 0 < n then Some c else None)"
  by (induction n arbitrary: c) auto

lemma place_of_None: "place_of p ps = None \<longleftrightarrow> p \<notin> set ps"
  by (induction ps) auto

lemma place_of_append: "p \<in> set ps \<Longrightarrow> place_of p (ps @ qs) = place_of p ps"
  by (induction ps) auto

lemma place_of_end: "p \<notin> set ps \<Longrightarrow> place_of p (ps @ p # qs) = Some (length ps)"
  by (induction ps) auto

text \<open>One call: a pin that has a channel keeps it, another one gets the next, as long as there is one.\<close>

lemma channel_for_pin:
  assumes "pin_range served" and "0 \<le> p" and "p < 128" and "length served \<le> PWM_CHANNEL_COUNT"
  shows "pwm_channel_for_pin p (table_of served) =
    (if p \<in> set served then (channel_in served p, table_of served)
     else if length served < PWM_CHANNEL_COUNT then (int (length served), table_of (served @ [p]))
     else (- 1, table_of served))"
proof -
  let ?n = "PWM_CHANNEL_COUNT - length served"
  have taken: "first_channel (\<lambda>w. sint w = p) 0 (table_of served) = place_of p served"
    using assms(1,2) by (simp add: table_of_def first_channel_append first_channel_served first_channel_unused
        option.map_ident split: option.split)
  have free: "first_channel (\<lambda>w. sint w < 0) 0 (table_of served) = (if 0 < ?n then Some (length served) else None)"
    using assms(1) by (simp add: table_of_def first_channel_append first_channel_free first_channel_unused)
  have "(table_of served)[length served := of_int p] = table_of (served @ [p])" if "0 < ?n"
  proof -
    have "replicate ?n (- 1 :: 8 word) = - 1 # replicate (?n - 1) (- 1)" using that by (cases ?n) simp_all
    then show ?thesis by (simp add: table_of_def list_update_append)
  qed
  then show ?thesis
    using taken free assms(4) place_of_None [of p served]
    by (cases "place_of p served") (auto simp: pwm_channel_for_pin_def channel_in_def)
qed

lemma take_served:
  assumes "length served \<le> n" and "q \<in> set served"
  shows "place_of q (take n (served @ ps)) = place_of q served"
  using assms by (simp add: place_of_append)

lemma channels_from:
  assumes "pin_range served" and "pin_range ps" and "length served \<le> PWM_CHANNEL_COUNT"
  shows "pwm_channels ps (table_of served)
    = map (channel_in (take PWM_CHANNEL_COUNT (served @ filter (\<lambda>q. q \<notin> set served) (first_calls ps)))) ps"
  using assms
proof (induction ps arbitrary: served)
  case (Cons p ps)
  let ?N = PWM_CHANNEL_COUNT
  have p: "0 \<le> p" "p < 128" "pin_range ps" using Cons.prems(2) by (simp_all add: pin_range_def)
  note one = channel_for_pin [OF Cons.prems(1) p(1,2) Cons.prems(3)]
  have filters: "filter (\<lambda>q. q \<notin> set served) (filter (\<lambda>q. q \<noteq> p) qs) = filter (\<lambda>q. q \<notin> set (served @ [p])) qs" for qs
    by (simp add: conj_commute)
  consider "p \<in> set served" | "p \<notin> set served" "length served < ?N" | "p \<notin> set served" "length served = ?N"
    using Cons.prems(3) by linarith
  then show ?case
  proof cases
    case 1
    then have "filter (\<lambda>q. q \<notin> set served) (first_calls (p # ps)) = filter (\<lambda>q. q \<notin> set served) (first_calls ps)"
      by (auto intro: filter_cong)
    moreover have "channel_in (take ?N (served @ qs)) p = channel_in served p" for qs
      unfolding channel_in_def take_served [OF Cons.prems(3) 1] ..
    ultimately show ?thesis using 1 one Cons.IH [OF Cons.prems(1) p(3) Cons.prems(3)] by simp
  next
    case 2
    let ?S = "served @ [p]"
    have S: "pin_range ?S" "length ?S \<le> ?N" using Cons.prems(1) p(1,2) 2(2) by (simp_all add: pin_range_def)
    have "channel_in (take ?N (?S @ qs)) p = int (length served)" for qs
    proof -
      have "place_of p (take ?N (?S @ qs)) = place_of p ?S" by (rule take_served [OF S(2)]) simp
      also have "\<dots> = Some (length served)" by (rule place_of_end [OF 2(1)])
      finally show ?thesis by (simp only: channel_in_def option.case)
    qed
    moreover have "served @ filter (\<lambda>q. q \<notin> set served) (first_calls (p # ps))
        = ?S @ filter (\<lambda>q. q \<notin> set ?S) (first_calls ps)"
      using 2(1) filters by simp
    ultimately show ?thesis
      using 2 one Cons.IH [OF S(1) p(3) S(2)] by (simp del: append_assoc take_append filter.simps first_calls.simps)
  next
    case 3
    then show ?thesis using one Cons.IH [OF Cons.prems(1) p(3) Cons.prems(3)]
      using place_of_None [of p served] by (simp add: channel_in_def)
  qed
qed simp

text \<open>C33. Channels are handed out first come, first served: over any sequence of PWM calls, the six pins that were
  called first have the channels 0 to 5 in that order, and keep them; every call for another pin gets none.\<close>

theorem pwm_first_come:
  assumes "pin_range ps"
  shows "pwm_channels ps (replicate PWM_CHANNEL_COUNT (- 1))
    = map (channel_in (take PWM_CHANNEL_COUNT (first_calls ps))) ps"
proof -
  have "table_of [] = replicate PWM_CHANNEL_COUNT (- 1)" by (simp add: table_of_def)
  then show ?thesis using channels_from [of "[]" ps] assms by (simp add: pin_range_def)
qed

theorem pwm_first_come_witness:
  "pwm_channels [8, 3, 8] (replicate PWM_CHANNEL_COUNT (- 1))
    = map (channel_in (take PWM_CHANNEL_COUNT (first_calls [8, 3, 8]))) [8, 3, 8]"
  by (rule pwm_first_come) (simp add: pin_range_def)

section \<open>Names of networks\<close>

lemma copied_short:
  assumes "copy_string m v capacity = Done (Some bs)"
  shows "length bs < capacity"
  using assms by (auto simp: copy_string_def bytes_at_def c_then_Done split: if_splits option.splits dest: load_length)

text \<open>C39. The password that reaches the radio ends at its first zero byte, although the interface passes strings
  with their length: with a password of up to 64 bytes that starts with a zero byte, the radio, once it is up, is
  told to join the network with an empty key and without requiring any protection.\<close>

theorem zero_password_opens_network:
  assumes "copy_string (mem w) ssid 33 = Done (Some s)" and "takeWhile (\<lambda>b. b \<noteq> 0) s = name" and "name \<noteq> []"
    and "copy_string (mem w) password 65 = Done (Some (0 # bs))"
    and "initialize_wifi P (user w) = (ESP_OK, u0)"
    and "wifi_set_storage_ram P u0 = (ESP_OK, u1)" and "wifi_set_mode_station P u1 = (ESP_OK, u2)"
  shows "wifi_connect P [ssid, password] res w =
    (case esp_then (esp_then (wifi_set_config P name [] True u2) (wifi_start P)) (wifi_connect_station P) of
       (status, u) \<Rightarrow> return_bool (status = ESP_OK) (w\<lparr>user := u\<rparr>))"
proof -
  have "length name \<le> 32"
    using copied_short [OF assms(1)] length_takeWhile_le [of "\<lambda>b. b \<noteq> 0" s] assms(2) by simp
  moreover have "copy_string (mem w) ([ssid, password] ! 0) 33 = Done (Some s)"
    "copy_string (mem w) ([ssid, password] ! 1) 65 = Done (Some (0 # bs))"
    using assms(1,4) by simp_all
  moreover have "connect_steps P name [] u0 =
      esp_then (esp_then (wifi_set_config P name [] True u2) (wifi_start P)) (wifi_connect_station P)"
    using assms(6,7) by (simp add: connect_steps_def esp_then_def)
  ultimately show ?thesis
    using assms(2,3,5) unfolding wifi_connect_def by (simp only: c_then_simps option.case) (simp add: ask_def Let_def)
qed

end
