(* ===== verification/Sim_Board.thy ===== *)
theory Sim_Board
  imports Flash_Safety Host_Functions_Safety
begin

text \<open>
  A board in memory, in the spirit of the repository's \<open>firmware/simulator\<close>: two queues of bytes for the
  serial port, a clock, the flash of \<open>partitions.csv\<close>, a card with at most one file, and pins that
  read what was written to them. With the host functions of the firmware, and a machine whose programs
  are host calls, it keeps every contract the properties of the firmware assume, and they are applied to it.
\<close>

section \<open>The board\<close>

record sim =
  sim_rx :: "u8 list"
  sim_tx :: "u8 list"
  sim_clock :: nat
  sim_timeout :: u32
  sim_flash :: "u8 list"
  sim_card :: "u8 list option"
  sim_framework :: framework
  sim_levels :: "u8 \<Rightarrow> bool"
  sim_joined :: "(u8 list \<times> u8 list \<times> bool) option"

definition sim_send :: "u8 list \<Rightarrow> 'a sim_scheme \<Rightarrow> 'a sim_scheme" where
  "sim_send bs u = u\<lparr>sim_tx := sim_tx u @ bs\<rparr>"

definition sim_serial :: "'a sim_scheme serial" where
  "sim_serial = \<lparr>
     serial_available = (\<lambda>u. (if sim_rx u = [] then 0 else 1, u)),
     serial_peek = (\<lambda>u. if sim_rx u = [] then None else Some (hd (sim_rx u))),
     serial_read = (\<lambda>u. (if sim_rx u = [] then - 1 else ucast (hd (sim_rx u)), u\<lparr>sim_rx := tl (sim_rx u)\<rparr>)),
     serial_read_bytes = (\<lambda>n u. (take n (sim_rx u), u\<lparr>sim_rx := drop n (sim_rx u)\<rparr>)),
     serial_read_until = (\<lambda>c u. let line = takeWhile (\<lambda>b. b \<noteq> of_char c) (sim_rx u)
        in (string_of_bytes line, u\<lparr>sim_rx := drop (length line + 1) (sim_rx u)\<rparr>)),
     serial_write = sim_send,
     serial_print = (\<lambda>s. sim_send (as_bytes s)),
     serial_println = (\<lambda>s. sim_send (as_bytes s @ [13, 10])),
     serial_flush = (\<lambda>u. u),
     serial_timeout = sim_timeout,
     serial_set_timeout = (\<lambda>ms u. u\<lparr>sim_timeout := ms\<rparr>),
     board_millis = (\<lambda>u. (of_nat (sim_clock u), u)),
     board_delay = (\<lambda>ms u. u\<lparr>sim_clock := sim_clock u + unat ms\<rparr>)\<rparr>"

definition script_part :: esp_partition where
  "script_part = \<lparr>partition_address = 0x110000, partition_size = 0x10000\<rparr>"

text \<open>The partition holds 64 KiB; what was never written is erased.\<close>

definition sim_content :: "'a sim_scheme \<Rightarrow> u8 list" where
  "sim_content u = take 0x10000 (sim_flash u @ replicate 0x10000 0xff)"

definition sim_flash_ops :: "'a sim_scheme flash" where
  "sim_flash_ops = \<lparr>
     find_partition = (\<lambda>u. Some script_part),
     partition_read = (\<lambda>i n u. (if i + n \<le> 0x10000 then Some (take n (drop i (sim_content u))) else None, u)),
     partition_erase = (\<lambda>i n u. if i + n \<le> 0x10000 then
        (True, u\<lparr>sim_flash := take i (sim_content u) @ replicate n 0xff @ drop (i + n) (sim_content u)\<rparr>) else (False, u)),
     partition_write = (\<lambda>i bs u. if i + length bs \<le> 0x10000 then
        (True, u\<lparr>sim_flash := take i (sim_content u) @ cleared_bits (take (length bs) (drop i (sim_content u))) bs
           @ drop (i + length bs) (sim_content u)\<rparr>) else (False, u))\<rparr>"

definition sim_sd :: "'a sim_scheme sd_card" where
  "sim_sd = \<lparr>
     sd_begin = (\<lambda>u. (sim_card u \<noteq> None, u)),
     sd_open = (\<lambda>path u. (if path = RUSTSCRIPT_SD_PATH then
        map_option (\<lambda>bs. \<lparr>file_size = length bs, file_is_directory = False\<rparr>) (sim_card u) else None, u)),
     sd_read = (\<lambda>n u. (case sim_card u of None \<Rightarrow> [] | Some bs \<Rightarrow> take n bs, u)),
     sd_close = (\<lambda>u. u),
     sd_end = (\<lambda>u. u)\<rparr>"

text \<open>A heap with three places.\<close>

definition first_fit :: "nat \<Rightarrow> memory \<Rightarrow> addr" where
  "first_fit n m = (if fresh_block 0x1000 n m then 0x1000
     else if fresh_block 0x40000 n m then 0x40000 else 0)"

text \<open>No I2C device answers. The radio joins every network, and remembers the last one, with the key and whether it
  may be open.\<close>

definition sim_drivers :: "'a sim_scheme drivers" where
  "sim_drivers = \<lparr>framework_of = sim_framework, with_framework = (\<lambda>f u. u\<lparr>sim_framework := f\<rparr>),
     io_buffer_at = 0x800, network_text_at = 0x900, feature_wifi = True, feature_bluetooth = False, gpio_pins = 22,
     set_pin_mode = (\<lambda>pin mode u. u), digital_write = (\<lambda>pin b u. u\<lparr>sim_levels := (sim_levels u)(pin := b)\<rparr>),
     digital_read = (\<lambda>pin u. (sim_levels u pin, u)), analog_read = (\<lambda>pin u. (if sim_levels u pin then 4095 else 0, u)),
     ledc_setup = (\<lambda>channel frequency resolution u. (ucast frequency, u)), ledc_attach_pin = (\<lambda>pin channel u. u),
     ledc_write = (\<lambda>channel duty u. u), wire_begin = (\<lambda>sda scl frequency u. (True, u)), wire_end = (\<lambda>u. u),
     wire_begin_transmission = (\<lambda>address u. u), wire_write = (\<lambda>bs u. u), wire_end_transmission = (\<lambda>stop u. (2, u)),
     wire_request_from = (\<lambda>address n u. (0, u)), wire_available = (\<lambda>u. (0, u)), wire_read = (\<lambda>u. (- 1, u)),
     delay_microseconds = (\<lambda>n u. u), board_micros = (\<lambda>u. (of_nat (1000 * sim_clock u), u)),
     cpu_freq_mhz = (\<lambda>u. (160, u)), free_heap = (\<lambda>u. (200000, u)), flash_chip_size = (\<lambda>u. (0x400000, u)),
     random_word = (\<lambda>u. (4, u)), chip_restart = (\<lambda>u. None), deep_sleep = (\<lambda>n u. None),
     netif_init = (\<lambda>u. (ESP_OK, u)), event_loop_create = (\<lambda>u. (ESP_OK, u)), create_station = (\<lambda>u. (True, u)),
     wifi_init = (\<lambda>u. (ESP_OK, u)), wifi_set_storage_ram = (\<lambda>u. (ESP_OK, u)), wifi_set_mode_station = (\<lambda>u. (ESP_OK, u)),
     wifi_set_config = (\<lambda>ssid password open u. (ESP_OK, u\<lparr>sim_joined := Some (ssid, password, open)\<rparr>)),
     wifi_start = (\<lambda>u. (ESP_OK, u)), wifi_connect_station = (\<lambda>u. (ESP_OK, u)),
     wifi_disconnect_station = (\<lambda>u. (ESP_FAIL, u)),
     wifi_access_point = (\<lambda>u. ((ESP_FAIL, 0), u)), station_ip = (\<lambda>u. ((ESP_FAIL, 0), u)),
     bt_get_status = (\<lambda>u. (BT_Other, u)), bt_init = (\<lambda>u. (ESP_FAIL, u)), bt_enable_ble = (\<lambda>u. (ESP_FAIL, u)),
     bt_disable = (\<lambda>u. (ESP_FAIL, u)), bt_deinit = (\<lambda>u. (ESP_FAIL, u))\<rparr>"

text \<open>The program of this machine is the name of a host function, which it calls without arguments; what the
  function returns is its local and its result.\<close>

definition calling_machine :: "(string, string \<times> unit vm_value list, unit, unit, unit, 'u) device" where
  "calling_machine = \<lparr>
     decode_program = (\<lambda>bs. if bs = [] then Inl () else Inr (string_of_bytes bs)),
     program_local_count = (\<lambda>name. 1),
     with_host_dispatcher = (\<lambda>name. (name, [VNull])),
     set_local = (\<lambda>i e (name, v). if unat i < length v then Inr (name, v[unat i := e]) else Inl (OtherVmError ())),
     set_fuel = (\<lambda>_ v. v),
     run = (\<lambda>d (name, v) w. c_then (d name [] w) (\<lambda>(r, w). Done (case r of
        Inl e \<Rightarrow> (Inl (HostError e), (name, v), w)
      | Inr x \<Rightarrow> (Inr (), (name, case x of None \<Rightarrow> v | Some x \<Rightarrow> [x]), w)))),
     vm_locals = snd,
     vm_stack = snd,
     make_map = first_entries,
     machine = esp_target,
     args_reserve = (\<lambda>_. True),
     vec_block = (\<lambda>m bs. if fresh_block 100 (length bs) m then Some (100, length bs) else None)\<rparr>"

definition sim_firmware :: "(string, string \<times> unit vm_value list, unit, unit, unit, 'a sim_scheme) firmware" where
  "sim_firmware = \<lparr>fw_device = calling_machine, fw_dispatch = rustscript_dispatch_host sim_serial sim_drivers,
     fw_serial = sim_serial, fw_flash = sim_flash_ops, fw_sd = sim_sd, fw_place = first_fit, fw_output = 8\<rparr>"

section \<open>It keeps the contracts\<close>

lemma sim_firmware_sel [simp]:
  "fw_device sim_firmware = calling_machine" "fw_dispatch sim_firmware = rustscript_dispatch_host sim_serial sim_drivers" "fw_serial sim_firmware = sim_serial" "fw_flash sim_firmware = sim_flash_ops"
  "fw_sd sim_firmware = sim_sd" "fw_place sim_firmware = first_fit" "fw_output sim_firmware = 8"
  by (simp_all add: sim_firmware_def)

lemma first_fit_ok: "heap_ok first_fit"
  by (auto simp: heap_ok_def first_fit_def)

lemma calling_sound: "machine_sound calling_machine"
proof -
  have called: "ensures (d name [] w) (\<lambda>(r, w'). kept (mem w) (mem w'))"
    if "dispatcher_ok d" for d :: "(unit, 'a) dispatcher" and name w
    using that by (simp add: dispatcher_ok_def args_readable_def)
  show ?thesis
    by (auto simp: machine_sound_def calling_machine_def intro!: ensures_mono [OF called] split: sum.split)
qed

lemma calling_allocator: "allocator_ok calling_machine"
  by (auto simp: allocator_ok_def calling_machine_def split: if_splits)

lemma sim_statics [simp]: "statics_placed sim_drivers"
  by (simp add: statics_placed_def sim_drivers_def)

interpretation sim_port: serial_port sim_serial sim_rx sim_tx
  by unfold_locales (auto simp: sim_serial_def sim_send_def)

interpretation sim: storage_board sim_firmware sim_rx sim_tx
proof (intro storage_board.intro trusted_board.intro firmware_board.intro)
  show "serial_port (fw_serial sim_firmware) sim_rx sim_tx" by (simp add: sim_port.serial_port_axioms)
  show "firmware_board_axioms sim_firmware" by unfold_locales (simp add: first_fit_ok)
  show "trusted_board_axioms sim_firmware" by unfold_locales (simp_all add: calling_sound calling_allocator dispatch_callback_ok)
  show "storage_board_axioms sim_firmware"
    by unfold_locales (auto simp: sim_flash_ops_def sim_sd_def sim_content_def split: if_splits option.splits)
qed

interpretation sim_time: clocked_board sim_firmware sim_rx sim_tx sim_clock
  by unfold_locales (auto simp: sim_serial_def)

lemma sim_content_full: "length (sim_flash u) = 0x10000 \<Longrightarrow> sim_content u = sim_flash u"
  by (simp add: sim_content_def)

interpretation sim_flash: flash_board sim_firmware script_part sim_content
proof (intro flash_board.intro)
  have n: "unat (0x10000 :: u32) = 0x10000" by simp
  have len: "length (sim_content u) = 0x10000" for u :: "'a sim_scheme" by (simp add: sim_content_def)
  show "nor_flash (fw_flash sim_firmware) script_part (sim_content :: 'a sim_scheme \<Rightarrow> _)"
  proof
    show "find_partition (fw_flash sim_firmware) u = Some script_part" for u :: "'a sim_scheme"
      by (simp add: sim_flash_ops_def)
    show "of_nat IMAGE_HEADER_SIZE < partition_size script_part"
      by (simp add: script_part_def IMAGE_HEADER_SIZE_def)
    show "length (sim_content u) = unat (partition_size script_part)" for u :: "'a sim_scheme"
      by (simp add: script_part_def len)
    show "\<exists>u'. partition_read (fw_flash sim_firmware) i n u = (Some (take n (drop i (sim_content u))), u')
        \<and> sim_content u' = sim_content u"
      if "i + n \<le> unat (partition_size script_part)" for i n and u :: "'a sim_scheme"
      using that by (simp add: sim_flash_ops_def script_part_def)
    show "sim_content u' = replicate (unat (partition_size script_part)) 0xff"
      if "partition_erase (fw_flash sim_firmware) 0 (unat (partition_size script_part)) u = (True, u')"
      for u u' :: "'a sim_scheme"
      using that by (auto simp: sim_flash_ops_def script_part_def sim_content_def)
    show "sim_content u' = take i (sim_content u) @ cleared_bits (take (length bs) (drop i (sim_content u))) bs
          @ drop (i + length bs) (sim_content u)"
      if "partition_write (fw_flash sim_firmware) i bs u = (True, u')"
        "i + length bs \<le> unat (partition_size script_part)" for i bs and u u' :: "'a sim_scheme"
    proof -
      let ?c = "take i (sim_content u) @ cleared_bits (take (length bs) (drop i (sim_content u))) bs
          @ drop (i + length bs) (sim_content u)"
      have "length ?c = 0x10000" using that(2) len [of u] by (simp add: cleared_bits_def script_part_def)
      moreover have "sim_flash u' = ?c" using that by (auto simp: sim_flash_ops_def split: if_splits)
      ultimately show ?thesis by (metis sim_content_full)
    qed
  qed
  show "flash_board_axioms sim_firmware" by unfold_locales (simp add: first_fit_ok)
qed

section \<open>The board when it is idle\<close>

definition empty_memory :: memory where
  "empty_memory = \<lparr>cells = (\<lambda>_. None), blocks = (\<lambda>_. None), slots = (\<lambda>_. None)\<rparr>"

text \<open>Nothing on the line but these bytes.\<close>

definition sim_idle :: "u8 list \<Rightarrow> sim world" where
  "sim_idle bs = \<lparr>mem = empty_memory, user = \<lparr>sim_rx = bs, sim_tx = [], sim_clock = 0, sim_timeout = 1000,
     sim_flash = [], sim_card = None, sim_framework = \<lparr>pwm_pins = replicate PWM_CHANNEL_COUNT (- 1),
     wifi_station = False, wifi_initialized = False\<rparr>, sim_levels = (\<lambda>_. False), sim_joined = None\<rparr>\<rparr>"

lemma sim_idle_sel [simp]:
  "mem (sim_idle bs) = empty_memory" "sim_rx (user (sim_idle bs)) = bs" "sim_tx (user (sim_idle bs)) = []"
  "slots empty_memory p = None" "blocks empty_memory p = None" "cells empty_memory p = None"
  by (simp_all add: sim_idle_def empty_memory_def)

lemma sim_places:
  assumes "mem w = empty_memory"
  shows "program_at sim_firmware prog w = 0x1000"
    and "length prog \<le> 0x30000 \<Longrightarrow> prog \<noteq> [] \<Longrightarrow> state_at sim_firmware prog state w = 0x40000"
proof -
  show at: "program_at sim_firmware prog w = 0x1000"
    by (simp add: program_at_def assms first_fit_def fresh_block_def)
  show "state_at sim_firmware prog state w = 0x40000" if "length prog \<le> 0x30000" "prog \<noteq> []"
    using that by (simp add: state_at_def with_program_def at assms first_fit_def fresh_block_def new_vec_def store_outside)
qed

lemma sim_fits:
  assumes "mem w = empty_memory" and "prog \<noteq> []" and "state \<noteq> []" and "length prog + length state \<le> MAX_FRAME_BYTES"
  shows "request_fits sim_firmware prog state w"
  using assms sim_places [OF assms(1)] by (simp add: request_fits_def MAX_FRAME_BYTES_def)

lemma sim_call_memory:
  assumes "mem w = empty_memory" and "length prog \<le> 0x30000" and "prog \<noteq> []"
  shows "mem (emptied 8 (request_world sim_firmware prog state w)) = \<lparr>cells = store 0x40000 state (store 0x1000 prog (\<lambda>_. None)),
    blocks = [0x1000 \<mapsto> length prog, 0x40000 \<mapsto> length state], slots = [8 \<mapsto> empty_buffer]\<rparr>"
  using assms sim_places [OF assms(1)]
  by (simp add: emptied_def request_world_def with_program_def new_vec_def empty_memory_def)

lemma sim_output_block:
  assumes "mem w = empty_memory" and "length prog \<le> 0x30000" and "prog \<noteq> []" and "length enc \<le> 1000"
  shows "vec_block calling_machine (mem (emptied 8 (request_world sim_firmware prog state w))) enc \<noteq> None"
  using assms(4) by (auto simp: sim_call_memory [OF assms(1-3)] calling_machine_def fresh_block_def store_outside)

text \<open>A program that asks for the time, on this machine and board.\<close>

abbreviation clock_program :: "u8 list" where
  "clock_program \<equiv> as_bytes ''mcu::millis''"

lemma clock_call:
  "rustscript_dispatch_host sim_serial sim_drivers ''mcu::millis'' [] res w
    = return_int (ucast (of_nat (sim_clock (user w)) :: u32)) w"
  by (simp add: rustscript_dispatch_host_def HOST_EXPORTS_def mcu_number_def ask_def sim_serial_def)

definition clock_response :: "'a sim_scheme world \<Rightarrow> repl_response" where
  "clock_response w = (let v = ReplInt (ucast (of_nat (sim_clock (user w)) :: u32)) in \<lparr>locals = [v], result = Some v\<rparr>)"

lemma clock_evaluates:
  assumes "repl_to_embedded first_entries x = Inr (e :: unit vm_value)"
  shows "evaluates calling_machine (Some (rustscript_dispatch_host sim_serial sim_drivers)) fuel ''mcu::millis'' [x] w 0
    (clock_response w) w"
proof -
  let ?v = "[VInt (ucast (of_nat (sim_clock (user w)) :: u32))] :: unit vm_value list"
  have "load_locals calling_machine 0 [x] (with_host_dispatcher calling_machine ''mcu::millis'') = Inr (''mcu::millis'', [e])"
    by (simp add: calling_machine_def assms)
  moreover have "run_with calling_machine (Some (rustscript_dispatch_host sim_serial sim_drivers))
      (with_fuel calling_machine fuel (''mcu::millis'', [e])) w = Done (Inr (), (''mcu::millis'', ?v), w)"
    by (simp add: calling_machine_def with_fuel_def dispatch_host_def clock_call return_int_def to_embedded_def)
  moreover have "read_back calling_machine 0 (''mcu::millis'', ?v) = Inr (clock_response w)"
    by (simp add: read_back_def calling_machine_def clock_response_def Let_def status_defs)
  ultimately show ?thesis
    using evaluates_by_code [of "[x]" calling_machine "''mcu::millis''" "(''mcu::millis'', [e])"
      "Some (rustscript_dispatch_host sim_serial sim_drivers)" fuel w "Inr ()" "(''mcu::millis'', ?v)" w "clock_response w"]
    by (simp add: status_defs vm_status_def calling_machine_def)
qed

section \<open>The properties of the firmware on this board\<close>

lemma sim_boots: "\<exists>u. boot sim_firmware (sim_idle bs) = Done (sim_idle bs\<lparr>user := u\<rparr>)"
proof -
  have "hd SCRIPT_IMAGE_MAGIC = 0x52" "SCRIPT_IMAGE_MAGIC \<noteq> []" by (simp_all add: SCRIPT_IMAGE_MAGIC_def as_bytes_def)
  then have "hd (replicate 8 (0xff :: u8)) \<noteq> hd SCRIPT_IMAGE_MAGIC" by (simp add: hd_replicate)
  then have "replicate 8 0xff \<noteq> SCRIPT_IMAGE_MAGIC" by metis
  then show ?thesis
    by (simp add: boot_def boot_image_def boot_run_def rustscript_load_sd_def sim_sd_def rustscript_load_partition_def
        sim_flash_ops_def script_part_def IMAGE_HEADER_SIZE_def header_valid_def header_of_bytes_def Let_def sim_content_def
        sim_serial_def sim_send_def sim_idle_def say_def repl_start_def min_def)
qed

lemma sim_reaches: "reaches sim_firmware (sim_idle []) (sim_idle bs)"
proof -
  obtain u where "boot sim_firmware (sim_idle []) = Done (sim_idle []\<lparr>user := u\<rparr>)" using sim_boots by blast
  from reaches.elsewhere [OF reaches.booted [OF this], of "user (sim_idle bs)"] show ?thesis by (simp add: sim_idle_def)
qed

theorem firmware_safe_witness:
  "boot sim_firmware (sim_idle []) \<noteq> Undefined \<and>
   same_heap (mem (sim_idle [])) (mem (sim_idle [0x52, 0x53, 7])) \<and> repl_round sim_firmware (sim_idle [0x52, 0x53, 7]) \<noteq> Undefined"
  using firmware_safe [OF sim.storage_board_axioms, of "sim_idle []"] sim_reaches by simp

lemma polled_sim [simp]: "polled sim_firmware w = w"
  by (simp add: polled_def sim_serial_def)

text \<open>A request to call \<open>mcu::millis\<close>, and a byte behind it.\<close>

definition sim_request :: "sim world" where
  "sim_request = sim_idle (request_frame 5 clock_program demo_state @ [7])"

lemma sim_request_sel [simp]:
  "mem sim_request = empty_memory" "sim_rx (user sim_request) = request_frame 5 clock_program demo_state @ [7]"
  by (simp_all add: sim_request_def)

lemma clock_program_sizes [simp]: "length clock_program = 11" "clock_program \<noteq> []"
  by (simp_all add: as_bytes_def)

lemma sim_request_fits: "request_fits sim_firmware clock_program demo_state sim_request"
  by (rule sim_fits) (simp_all add: MAX_FRAME_BYTES_def)

definition zero_response :: repl_response where
  "zero_response = \<lparr>locals = [ReplInt 0], result = Some (ReplInt 0)\<rparr>"

lemma zero_codecs:
  "encode_repl_state [ReplInt 0] = Inr (state_bytes [ReplInt 0])" "wire_values [ReplInt 0]"
  "encode_repl_response zero_response = Inr (response_bytes zero_response)" "wire_response zero_response"
  by (simp_all add: encode_repl_state_iff encode_repl_response_iff state_bytes_def response_bytes_def
      response_values_def zero_response_def MAX_NESTING_def MAX_WIRE_BYTES_def wire_values_def
      wire_response_def total_nodes_def MAX_VALUE_NODES_def)

text \<open>The world in which the machine runs: nothing has waited, so the time is still 0.\<close>

definition sim_called :: "sim world" where
  "sim_called = emptied 8 (request_world sim_firmware clock_program demo_state sim_request)"

lemma fill_clock: "sim_clock (snd (snd (fill_payload sim_serial n u))) = sim_clock u"
proof (induction n arbitrary: u rule: less_induct)
  case (less n)
  let ?u = "u\<lparr>sim_rx := drop n (sim_rx u)\<rparr>" and ?bs = "take n (sim_rx u)"
  have "sim_clock (snd (snd (fill_payload sim_serial (n - length ?bs) ?u))) = sim_clock u" if "n \<noteq> 0" "?bs \<noteq> []"
    using less.IH [of "n - length ?bs" ?u] that by simp
  then show ?case
    by (subst fill_payload.simps) (auto simp: sim_serial_def [THEN arg_cong [where f = serial_read_bytes]] split: prod.split)
qed

lemma payload_clock: "sim_clock (snd (snd (read_serial_payload sim_serial n u))) = sim_clock u"
proof -
  have set: "sim_clock (serial_set_timeout sim_serial t v) = sim_clock v" for t and v :: "'a sim_scheme"
    by (simp add: sim_serial_def)
  show ?thesis by (simp add: read_serial_payload_def Let_def split_def set fill_clock)
qed

lemma request_clock: "sim_clock (user (request_world sim_firmware prog state w)) = sim_clock (user w)"
  by (simp add: request_world_def request_read_def split_def payload_clock)

theorem firmware_evaluates_request_witness:
  "\<exists>w'. repl_round sim_firmware sim_request = Done w' \<and> sim_rx (user w') = sim_rx (user sim_called)
    \<and> sim_tx (user w') = sim_tx (user sim_called) @ response_frame 5 [0, 0] 0 (response_bytes zero_response)
    \<and> same_heap (mem sim_request) (mem w')"
proof (rule firmware_evaluates_request [OF sim.trusted_board_axioms, where p = "''mcu::millis''" and vals = "[ReplInt 7]"
      and response = zero_response])
  show "request_fits sim_firmware clock_program demo_state (polled sim_firmware sim_request)" using sim_request_fits by simp
  have "clock_response sim_called = zero_response"
    by (simp add: clock_response_def zero_response_def sim_called_def request_clock Let_def emptied_def) (simp add: sim_request_def sim_idle_def)
  then show "evaluates (fw_device sim_firmware) (Some (fw_dispatch sim_firmware)) REPL_FUEL ''mcu::millis'' [ReplInt 7]
      (emptied (fw_output sim_firmware) (request_world sim_firmware clock_program demo_state (polled sim_firmware sim_request))) 0
      zero_response sim_called"
    using clock_evaluates [of "ReplInt 7" _ REPL_FUEL sim_called] by (simp add: sim_called_def)
  show "vec_block (fw_device sim_firmware) (mem sim_called) (response_bytes zero_response) \<noteq> None"
    using sim_output_block [of sim_request clock_program "response_bytes zero_response" demo_state]
    by (simp add: sim_called_def) (simp add: response_bytes_def zero_response_def)
qed (use zero_codecs demo_codecs in \<open>simp_all add: calling_machine_def\<close>)

theorem damaged_request_refused_witness:
  "\<exists>w'. repl_round sim_firmware (sim_idle (request_header 5 ([] @ [1] @ []) ([82] @ [83] @ [82]) @ [1, 82, 99, 82, 7])) = Done w'
    \<and> sim_rx (user w') = [7] \<and> mem w' = mem (sim_idle (request_header 5 ([] @ [1] @ []) ([82] @ [83] @ [82]) @ [1, 82, 99, 82, 7]))
    \<and> sim_tx (user w') = sim_tx (user (sim_idle (request_header 5 ([] @ [1] @ []) ([82] @ [83] @ [82]) @ [1, 82, 99, 82, 7])))
        @ response_frame 5 [0, 0] RUSTSCRIPT_STATUS_INVALID_REPL_STATE []"
  by (rule damaged_request_refused [OF sim.firmware_board_axioms, where a = "[]" and sent = "[1]" and got = "[1]" and b = "[]"
        and c = "[82]" and sent' = "[83]" and got' = "[99]" and d = "[82]"])
    (simp_all add: sim_fits MAX_FRAME_BYTES_def)

theorem refused_frame_answered_witness:
  "\<exists>w'. repl_round sim_firmware (sim_idle (replicate 24 0x52 @ [1, 2])) = Done w' \<and> mem w' = mem (sim_idle (replicate 24 0x52 @ [1, 2]))
    \<and> sim_rx (user w') = []
    \<and> sim_tx (user w') = sim_tx (user (sim_idle (replicate 24 0x52 @ [1, 2])))
        @ response_frame (from_le (slice 8 12 (replicate 24 0x52))) [0, 0] RUSTSCRIPT_STATUS_INVALID_ARGUMENT []"
proof (rule refused_frame_answered [OF sim_time.clocked_board_axioms, where rest_bytes = "[1, 2]"])
  have "REPL_REQUEST_MAGIC \<noteq> replicate 4 0x52" by (simp add: REPL_REQUEST_MAGIC_def as_bytes_def eval_nat_numeral)
  then show "frame_header_bad (replicate 24 0x52) \<or> frame_sizes_bad (from_le (slice 12 16 (replicate 24 0x52))) (from_le (slice 16 20 (replicate 24 0x52)))"
    by (simp add: frame_header_bad_def)
qed simp_all

text \<open>Pin 8 of this board is written, and pin 22, which it does not have.\<close>

theorem host_call_all_or_nothing_witness:
  "ensures (dispatch_host (\<lambda>_. True) (Some (rustscript_dispatch_host sim_serial sim_drivers)) ''gpio::digital_write''
      [(VInt 8 :: unit vm_value, 0), (VBool True, 0)] (sim_idle [])) (\<lambda>(r, w').
      kept (mem (sim_idle [])) (mem w') \<and> (case r of
        Inr v \<Rightarrow> True | Inl e \<Rightarrow> w' = sim_idle [] \<and> e \<noteq> Host_Error ''invalid host return value''))
   \<and> dispatch_host (\<lambda>_. True) (Some (rustscript_dispatch_host sim_serial sim_drivers)) ''gpio::digital_write''
      [(VInt 22 :: unit vm_value, 0), (VBool True, 0)] (sim_idle []) = Done (Inl (Host_Error ''host callback failed''), sim_idle [])"
proof
  show "ensures (dispatch_host (\<lambda>_. True) (Some (rustscript_dispatch_host sim_serial sim_drivers)) ''gpio::digital_write''
      [(VInt 8 :: unit vm_value, 0), (VBool True, 0)] (sim_idle [])) (\<lambda>(r, w').
      kept (mem (sim_idle [])) (mem w') \<and> (case r of
        Inr v \<Rightarrow> True | Inl e \<Rightarrow> w' = sim_idle [] \<and> e \<noteq> Host_Error ''invalid host return value''))"
    by (rule host_call_all_or_nothing [OF sim_statics]) (simp add: args_readable_def)
qed (simp add: dispatch_host_def rustscript_dispatch_host_def HOST_EXPORTS_def gpio_write_def from_embedded_def
    is_int_def valid_pin_def sim_drivers_def refuse_call_def null_value_def)

text \<open>A network \<open>N\<close>, and a password of a zero byte and an \<open>x\<close>.\<close>

definition sim_network :: ffi_value where
  "sim_network = null_value\<lparr>tag := tag_byte Tag_String, data := 96, len := 1\<rparr>"

definition sim_password :: ffi_value where
  "sim_password = null_value\<lparr>tag := tag_byte Tag_String, data := 64, len := length [0, 120 :: u8]\<rparr>"

definition sim_naming :: "sim world" where
  "sim_naming = sim_idle []\<lparr>mem := empty_memory\<lparr>cells := store 64 [0, 120] (store 96 [78] (\<lambda>_. None))\<rparr>\<rparr>"

lemma sim_radio:
  "framework_of sim_drivers = sim_framework" "netif_init sim_drivers = (\<lambda>u. (ESP_OK, u))"
  "event_loop_create sim_drivers = (\<lambda>u. (ESP_OK, u))" "create_station sim_drivers = (\<lambda>u. (True, u))"
  "wifi_init sim_drivers = (\<lambda>u. (ESP_OK, u))" "wifi_set_storage_ram sim_drivers = (\<lambda>u. (ESP_OK, u))"
  "wifi_set_mode_station sim_drivers = (\<lambda>u. (ESP_OK, u))"
  "wifi_set_config sim_drivers = (\<lambda>ssid password open u. (ESP_OK, u\<lparr>sim_joined := Some (ssid, password, open)\<rparr>))"
  "wifi_start sim_drivers = (\<lambda>u. (ESP_OK, u))" "wifi_connect_station sim_drivers = (\<lambda>u. (ESP_OK, u))"
  by (simp_all add: sim_drivers_def)

theorem zero_password_opens_network_witness:
  "\<exists>u. wifi_connect sim_drivers [sim_network, sim_password] null_value sim_naming = return_bool True (sim_naming\<lparr>user := u\<rparr>)
    \<and> sim_joined u = Some ([78], [], True)"
proof -
  obtain u where u: "initialize_wifi sim_drivers (user sim_naming) = (ESP_OK, u)"
    by (cases "wifi_initialized (sim_framework (user sim_naming))") (simp_all add: initialize_wifi_def sim_radio Let_def)
  have "copy_string (mem sim_naming) sim_network 33 = Done (Some [78])"
    "copy_string (mem sim_naming) sim_password 65 = Done (Some [0, 120])"
    by (simp_all add: copy_string_def is_string_def bytes_at_def sim_naming_def sim_network_def sim_password_def load_store
        del: store.simps list.size) simp_all
  from zero_password_opens_network [OF this(1) _ _ this(2) u, of "[78]" u u null_value]
  show ?thesis by (intro exI [of _ "u\<lparr>sim_joined := Some ([78], [], True)\<rparr>"]) (simp add: sim_radio esp_then_def)
qed

lemma sim_installs: "\<exists>u'. rustscript_install_partition (fw_flash sim_firmware) [9, 8] (user (sim_idle [])) = (True, u')"
  by (simp add: rustscript_install_partition_def sim_flash_ops_def script_part_def IMAGE_HEADER_SIZE_def Let_def
      length_header_to_bytes [unfolded IMAGE_HEADER_SIZE_def])

theorem installed_program_loads_witness:
  "\<exists>u2. rustscript_load_partition sim_firmware (sim_idle []\<lparr>user := snd (rustscript_install_partition (fw_flash sim_firmware) [9, 8] (user (sim_idle [])))\<rparr>) =
    Done (Some \<lparr>image_data = first_fit 2 empty_memory, image_len = 2, image_source = ''flash:rustscript''\<rparr>,
      sim_idle []\<lparr>mem := new_vec (first_fit 2 empty_memory) 2 [9, 8] empty_memory, user := u2\<rparr>)"
proof -
  obtain u' where u': "rustscript_install_partition (fw_flash sim_firmware) [9, 8] (user (sim_idle [])) = (True, u')"
    using sim_installs by blast
  have "first_fit 2 empty_memory \<noteq> 0" by (simp add: first_fit_def fresh_block_def empty_memory_def)
  then show ?thesis using installed_program_loads [OF sim_flash.flash_board_axioms u'] u' by (simp add: numeral_2_eq_2)
qed

theorem only_intact_images_load_witness:
  "\<exists>u img w'. rustscript_load_partition sim_firmware (sim_idle []\<lparr>user := u\<rparr>) = Done (Some img, w') \<and>
    (\<exists>bs rest_bytes. sim_content u = SCRIPT_IMAGE_MAGIC @ u32_bytes SCRIPT_IMAGE_VERSION
      @ u32_bytes (of_nat (length bs)) @ u32_bytes (crc32 bs) @ bs @ rest_bytes \<and> bs \<noteq> [] \<and>
    image_len img = length bs \<and> load (cells (mem w')) (image_data img) (length bs) = Some bs)"
proof -
  obtain u' where u': "rustscript_install_partition (fw_flash sim_firmware) [9, 8] (user (sim_idle [])) = (True, u')"
    using sim_installs by blast
  obtain u2 where "rustscript_load_partition sim_firmware (sim_idle []\<lparr>user := u'\<rparr>) =
      (if crc32 [9, 8] = crc32 [9, 8 :: u8] then
         Done (Some \<lparr>image_data = first_fit 2 empty_memory, image_len = 2, image_source = ''flash:rustscript''\<rparr>,
           sim_idle []\<lparr>mem := new_vec (first_fit 2 empty_memory) 2 [9, 8] empty_memory, user := u2\<rparr>)
       else Done (None, sim_idle []\<lparr>user := u2\<rparr>))"
    using sim_flash.load_written [of "sim_idle []\<lparr>user := u'\<rparr>" "[9, 8]" "[9, 8]"] sim_flash.installed_content [OF u']
    by (auto simp: first_fit_def fresh_block_def empty_memory_def numeral_2_eq_2)
  then have loads: "rustscript_load_partition sim_firmware (sim_idle []\<lparr>user := u'\<rparr>) =
      Done (Some \<lparr>image_data = first_fit 2 empty_memory, image_len = 2, image_source = ''flash:rustscript''\<rparr>,
           sim_idle []\<lparr>mem := new_vec (first_fit 2 empty_memory) 2 [9, 8] empty_memory, user := u2\<rparr>)"
    by simp
  show ?thesis
    by (rule exI [of _ u'], rule exI, rule exI, rule conjI [OF loads])
      (use only_intact_images_load [OF sim_flash.flash_board_axioms loads] in simp)
qed

text \<open>Flash in which one bit of an installed program has flipped.\<close>

definition sim_worn :: "sim world" where
  "sim_worn = (let bs = header_to_bytes (written_header [9, 8]) @ [9, 0] in
     sim_idle []\<lparr>user := (user (sim_idle []))\<lparr>sim_flash := bs @ replicate (0x10000 - length bs) 0xff\<rparr>\<rparr>)"

theorem damaged_image_not_loaded_witness:
  "\<exists>u'. rustscript_load_partition sim_firmware sim_worn = Done (None, sim_worn\<lparr>user := u'\<rparr>)"
proof (rule damaged_image_not_loaded [OF sim_flash.flash_board_axioms, where xs = "[9]" and v = "[8]" and v' = "[0]" and ys = "[]"])
  show "sim_content (user sim_worn) = header_to_bytes (written_header ([9] @ [8] @ [])) @ [9] @ [0] @ []
      @ replicate (0x10000 - length (header_to_bytes (written_header [9, 8]) @ [9, 0])) 0xff"
    by (simp add: sim_worn_def Let_def sim_content_def length_header_to_bytes written_header_def IMAGE_HEADER_SIZE_def)
  show "fw_place sim_firmware (length ([9] @ [8] @ [] :: u8 list)) (mem sim_worn) \<noteq> 0"
    by (simp add: first_fit_def fresh_block_def sim_worn_def Let_def empty_memory_def)
qed (simp_all add: script_part_def IMAGE_HEADER_SIZE_def)

end
