(* ===== verification/Line.thy ===== *)
theory Line
  imports Sim_Board Session_Safety
begin

text \<open>
  The serial line between a host and a board: what the host writes arrives at the firmware, which
  serves it round by round until no input is left, and what the firmware sends arrives at the
  host. The line is one more byte stream under the transport, and the session on the host and the
  virtual machine on the board meet over it.
\<close>

section \<open>The line\<close>

record ('a) line =
  line_world :: "'a sim_scheme world"
  line_sent :: "u8 list"
  line_incoming :: "u8 list"

text \<open>The firmware at work: rounds of the REPL while there is input. \<open>None\<close> is a round that does not
  return, or has no defined behaviour.\<close>

partial_function (option) serve_pending :: "('p, 'v, 'c, 'x, 'st, 'a sim_scheme) firmware
    \<Rightarrow> 'a sim_scheme world \<Rightarrow> 'a sim_scheme world option" where
  "serve_pending F w =
     (if sim_rx (user w) = [] then Some w
      else case repl_round F w of Done w' \<Rightarrow> serve_pending F w' | Undefined \<Rightarrow> None | Diverges \<Rightarrow> None)"

definition delivered :: "u8 list \<Rightarrow> 'a sim_scheme world \<Rightarrow> 'a sim_scheme world" where
  "delivered bs w = w\<lparr>user := (user w)\<lparr>sim_rx := sim_rx (user w) @ bs\<rparr>\<rparr>"

definition collected :: "'a sim_scheme world \<Rightarrow> 'a sim_scheme world" where
  "collected w = w\<lparr>user := (user w)\<lparr>sim_tx := []\<rparr>\<rparr>"

definition line_read_exact :: "nat \<Rightarrow> 'a line \<Rightarrow> (io_error + u8 list) \<times> 'a line" where
  "line_read_exact n s =
     (if n \<le> length (line_incoming s) then
        (Inr (take n (line_incoming s)), s\<lparr>line_incoming := drop n (line_incoming s)\<rparr>)
      else (Inl (Io_Error (OtherKind ''TimedOut'') ''Operation timed out''), s\<lparr>line_incoming := []\<rparr>))"

definition line_write_all :: "u8 list \<Rightarrow> 'a line \<Rightarrow> (io_error + unit) \<times> 'a line" where
  "line_write_all bs s =
     (Inr (), s\<lparr>line_world := delivered bs (line_world s), line_sent := line_sent s @ bs\<rparr>)"

definition line_flush :: "('p, 'v, 'c, 'x, 'st, 'a sim_scheme) firmware \<Rightarrow> 'a line \<Rightarrow> (io_error + unit) \<times> 'a line" where
  "line_flush F s = (Inr (), case serve_pending F (line_world s) of
       None \<Rightarrow> s
     | Some w \<Rightarrow> s\<lparr>line_world := collected w, line_incoming := line_incoming s @ sim_tx (user w)\<rparr>)"

definition line_ops :: "('p, 'v, 'c, 'x, 'st, 'a sim_scheme) firmware \<Rightarrow> 'a line io_ops" where
  "line_ops F = \<lparr>read_exact_op = line_read_exact, write_all_op = line_write_all, flush_op = line_flush F\<rparr>"

definition line_reply :: "('p, 'v, 'c, 'x, 'st, 'a sim_scheme) firmware \<Rightarrow> 'a line \<Rightarrow> u8 list" where
  "line_reply F s = (case serve_pending F (line_world s) of None \<Rightarrow> [] | Some w \<Rightarrow> sim_tx (user w))"

interpretation wired: byte_stream "line_ops F" line_incoming line_sent "line_reply F"
  by unfold_locales
    (auto simp: line_ops_def line_read_exact_def line_write_all_def line_flush_def line_reply_def split: option.split)

section \<open>Reading leaves the board alone\<close>

text \<open>What no read changes, the search for a response does not change.\<close>

lemma read_byte_keeps:
  assumes "\<And>n s. f (snd (read_exact_op ops n s)) = f s" and "read_stream_byte ops st = (r, st')"
  shows "f (fst st') = f (fst st)"
  using assms(2) assms(1) [of 1 "fst st"]
  by (auto simp: read_stream_byte_def split: prod.splits list.splits sum.splits)

lemma read_bytes_keeps:
  assumes "\<And>n s. f (snd (read_exact_op ops n s)) = f s"
  shows "read_stream_bytes ops n st = (r, st') \<Longrightarrow> f (fst st') = f (fst st)"
proof (induction n arbitrary: st r)
  case (Suc n)
  from Suc.prems show ?case
    by (auto simp: io_then_def split: prod.splits sum.splits dest!: read_byte_keeps [OF assms] Suc.IH)
qed simp

lemma scan_magic_keeps:
  assumes "\<And>n s. f (snd (read_exact_op ops n s)) = f s"
  shows "scan_magic ops window out st = (r, out', st') \<Longrightarrow> f (fst st') = f (fst st)"
  using assms
proof (induction ops window out st rule: scan_magic.induct)
  case (1 ops window out st)
  obtain q st1 where q: "read_stream_byte ops st = (q, st1)" by (metis prod.exhaust)
  note byte = read_byte_keeps [OF "1.prems"(2) q]
  show ?case
  proof (cases "window = REPL_RESPONSE_MAGIC \<or> 64 * 1024 \<le> length out \<or> (\<exists>e. q = Inl e)")
    case True
    then show ?thesis using "1.prems"(1) q byte by (subst (asm) scan_magic.simps) (auto split: if_splits)
  next
    case False
    then obtain b where b: "q = Inr b" "window \<noteq> REPL_RESPONSE_MAGIC" "\<not> 64 * 1024 \<le> length out"
      by (cases q) auto
    then have "scan_magic ops (tl window @ [b]) (out @ [window ! 0]) st1 = (r, out', st')"
      using "1.prems"(1) q by (subst (asm) scan_magic.simps) simp
    from "1.IH" [OF b(2,3) q [symmetric] b(1) this "1.prems"(2)] byte show ?thesis by simp
  qed
qed

lemma find_response_keeps:
  assumes "\<And>n s. f (snd (read_exact_op ops n s)) = f s"
  shows "find_response ops rid out st = (r, out', st') \<Longrightarrow> f (fst st') = f (fst st)"
  using assms
proof (induction ops rid out st rule: find_response.induct)
  case (1 ops rid out st)
  note eq = "1.prems"(1) [unfolded find_response.simps [of ops rid out st]]
  obtain w st2 where w: "read_stream_bytes ops 4 st = (w, st2)" by (metis prod.exhaust)
  note kw = read_bytes_keeps [OF "1.prems"(2) w]
  show ?case
  proof (cases w)
    case (Inl e)
    then show ?thesis using eq w kw by auto
  next
    case (Inr window)
    obtain q out2 st3 where q: "scan_magic ops window out st2 = (q, out2, st3)" by (metis prod_cases3)
    note kq = scan_magic_keeps [OF "1.prems"(2) q]
    obtain v st4 where v: "read_stream_bytes ops (FRAME_HEADER_LEN - 4) st3 = (v, st4)" by (metis prod.exhaust)
    note kv = read_bytes_keeps [OF "1.prems"(2) v]
    show ?thesis
    proof (cases "\<exists>u rest. q = Inr u \<and> v = Inr rest")
      case False
      then show ?thesis using eq w Inr q v kw kq kv by (cases q; cases v) auto
    next
      case True
      then obtain rest s pending where ok: "q = Inr ()" "v = Inr rest" "st4 = (s, pending)" by (cases st4) auto
      let ?c = "REPL_RESPONSE_MAGIC @ rest"
      show ?thesis
      proof (cases "header_version ?c \<noteq> FRAME_VERSION \<or> header_id ?c \<noteq> rid")
        case bad: True
        have "find_response ops rid (out2 @ [?c ! 0]) (s, tl ?c @ pending) = (r, out', st')"
          using eq bad by (simp add: w Inr q v ok Let_def)
        from "1.IH" [OF w [symmetric] Inr q [symmetric] ok(1) refl v [symmetric] ok(2)
            ok(3) [symmetric] refl bad this "1.prems"(2)] show ?thesis using kw kq kv ok by simp
      next
        case good: False
        then show ?thesis using eq kw kq kv by (auto simp: w Inr q v ok Let_def)
      qed
    qed
  qed
qed

lemma execute_keeps:
  assumes "\<And>n s. f (snd (read_exact_op ops n s)) = f s" and "length prog + length state \<le> MAX_FRAME_BYTES"
  shows "f (io (snd (execute ops prog state t)))
    = f (snd (send_request ops (request_header (next_request_id t) prog state) prog state (io t)))"
proof -
  obtain q s where q: "send_request ops (request_header (next_request_id t) prog state) prog state (io t) = (q, s)"
    by (metis prod.exhaust)
  obtain r out s1 pending where r: "find_response ops (next_request_id t) [] (s, []) = (r, out, s1, pending)"
    by (metis prod_cases4)
  have "f s1 = f s" using find_response_keeps [OF assms(1) r] by simp
  moreover have "f (snd (read_payload ops c s1)) = f s1" for c
    using assms(1) [of "unat (header_len c)" s1] by (auto simp: read_payload_def Let_def io_then_def split: prod.split sum.split)
  ultimately show ?thesis
    using size_ok [OF assms(2)] assms(2) q r
    by (auto simp: execute_def Let_def not_less split: prod.splits sum.splits) (metis snd_conv)+
qed

end
