(* ===== verification/Scripts.thy ===== *)
theory Scripts
  imports Sim_Board
begin

text \<open>
  The two functions of the Python tools that speak to the firmware: \<open>pack_vmbc\<close> of
  \<open>scripts/vmbc_image.py\<close>, which packs a program for the script partition, and the command with which
  \<open>scripts/repl_vmbc.py\<close> announces a program on the serial line. The firmware has its own code for both
  formats, in C++; they agree. \<open>binascii.crc32\<close> is the usual CRC-32, as \<open>crc32\<close> is.
\<close>

section \<open>Code\<close>

definition VMBC_MAGIC :: "u8 list" where
  "VMBC_MAGIC = as_bytes ''RSSVMBC'' @ [0]"

definition VMBC_VERSION :: nat where
  "VMBC_VERSION = 1"

datatype pack_error = Empty_Payload | Struct_Error | Image_Too_Large nat nat

text \<open>\<open>HEADER.pack\<close> raises when a number has more than 32 bits.\<close>

definition pack_header :: "u8 list \<Rightarrow> nat \<Rightarrow> nat \<Rightarrow> nat \<Rightarrow> pack_error + u8 list" where
  "pack_header magic version n crc =
     (if 2 ^ 32 \<le> version \<or> 2 ^ 32 \<le> n \<or> 2 ^ 32 \<le> crc then Inl Struct_Error
      else Inr (take 8 (magic @ replicate 8 0) @ u32_bytes (of_nat version) @ u32_bytes (of_nat n) @ u32_bytes (of_nat crc)))"

definition pack_vmbc :: "u8 list \<Rightarrow> nat option \<Rightarrow> pack_error + u8 list" where
  "pack_vmbc payload partition_len =
     (if payload = [] then Inl Empty_Payload
      else and_then (pack_header VMBC_MAGIC VMBC_VERSION (length payload) (unat (crc32 payload))) (\<lambda>header.
        let img = header @ payload in
        case partition_len of
          None \<Rightarrow> Inr img
        | Some n \<Rightarrow> if n < length img then Inl (Image_Too_Large (length img) n) else Inr img))"

text \<open>\<open>{crc:08x}\<close>.\<close>

definition hex8 :: "u32 \<Rightarrow> string" where
  "hex8 n = (let s = radix_text 16 (unat n) in replicate (8 - length s) (digit 0) @ s)"

abbreviation line_feed :: char where
  "line_feed \<equiv> char_of (10 :: nat)"

definition transfer_command :: "bool \<Rightarrow> u8 list \<Rightarrow> string" where
  "transfer_command install payload = (if install then ''install'' else ''load'') @ '' '' @ show_nat (length payload)
     @ '' '' @ hex8 (crc32 payload) @ [line_feed]"

section \<open>Images\<close>

lemma packed_image:
  assumes "pack_vmbc payload (Some n) = Inr img"
  shows "img = header_to_bytes (written_header payload) @ payload" and "payload \<noteq> []"
    and "IMAGE_HEADER_SIZE + length payload \<le> n"
proof -
  from assms show ne: "payload \<noteq> []" by (auto simp: pack_vmbc_def)
  with assms show img: "img = header_to_bytes (written_header payload) @ payload"
    by (auto simp: pack_vmbc_def pack_header_def Let_def header_to_bytes_def written_header_def VMBC_MAGIC_def
        VMBC_VERSION_def SCRIPT_IMAGE_MAGIC_def SCRIPT_IMAGE_VERSION_def as_bytes_def split: if_splits)
  have "length img \<le> n" using assms ne by (auto simp: pack_vmbc_def Let_def and_then_def split: if_splits sum.splits)
  then show "IMAGE_HEADER_SIZE + length payload \<le> n"
    by (simp add: img length_header_to_bytes written_header_def)
qed

text \<open>C35. An image that the tool packs for the partition of a board, written to its start, is a program that the
  firmware of this board loads, byte for byte.\<close>

theorem packed_image_loads:
  assumes "flash_board F part content" and "pack_vmbc payload (Some (unat (partition_size part))) = Inr img"
    and "content (user w) = img @ rest_bytes" and "fw_place F (length payload) (mem w) \<noteq> 0"
  shows "\<exists>u'. rustscript_load_partition F w =
    Done (Some \<lparr>image_data = fw_place F (length payload) (mem w), image_len = length payload, image_source = ''flash:rustscript''\<rparr>,
      w\<lparr>mem := new_vec (fw_place F (length payload) (mem w)) (length payload) payload (mem w), user := u'\<rparr>)"
  using flash_board.load_written [OF assms(1) _ refl packed_image(2) [OF assms(2)] _ assms(4)] packed_image(1,3) [OF assms(2)] assms(3)
  by simp

section \<open>Numbers\<close>

text \<open>What the firmware's parser sees of a digit.\<close>

lemma char_of_digit: "k < 16 \<Longrightarrow> (of_char (digit k) :: nat) = (if k < 10 then 48 else 87) + k"
  by (simp add: digit_def)

lemma digit_seen:
  assumes "k < 16"
  shows "c_digit (digit k) = k" and "\<not> c_isspace (digit k)"
    and "digit k \<notin> {CHR ''-'', CHR ''+'', CHR ''x'', CHR ''X'', CHR '' '', char_of (0 :: nat), line_feed}"
proof -
  show "c_digit (digit k) = k" using assms by (auto simp: c_digit_def char_of_digit Let_def)
  have ne: "digit k \<noteq> c" if "(of_char c :: nat) < 48 \<or> 103 \<le> (of_char c :: nat) \<or> (of_char c :: nat) = 88" for c
    using that char_of_digit [OF assms] assms by (auto split: if_splits)
  show other: "digit k \<notin> {CHR ''-'', CHR ''+'', CHR ''x'', CHR ''X'', CHR '' '', char_of (0 :: nat), line_feed}"
    by (auto dest: ne [THEN notE, rotated])
  show "\<not> c_isspace (digit k)" using other assms by (auto simp: c_isspace_def char_of_digit)
qed

definition digits :: "nat \<Rightarrow> string \<Rightarrow> bool" where
  "digits base s \<longleftrightarrow> s \<noteq> [] \<and> (\<forall>c\<in>set s. \<exists>k<base. c = digit k)"

lemma digits_hex: "digits base s \<Longrightarrow> base \<le> 16 \<Longrightarrow> c \<in> set s \<Longrightarrow> \<exists>k<16. c = digit k"
  by (meson digits_def less_le_trans)

lemma digits_value_append: "digits_value base (s @ [c]) = base * digits_value base s + c_digit c"
  by (simp add: digits_value_def)

lemma radix_digits:
  assumes "2 \<le> base" and "base \<le> 16"
  shows "digits base (radix_text base n) \<and> digits_value base (radix_text base n) = n"
proof (induction n rule: less_induct)
  case (less n)
  show ?case
  proof (cases "n < base")
    case True
    then have "radix_text base n = [digit n]" by (subst radix_text.simps) simp
    then show ?thesis using True assms digit_seen(1) [of n] by (auto simp: digits_def digits_value_def)
  next
    case False
    then have step: "radix_text base n = radix_text base (n div base) @ [digit (n mod base)]"
      using assms(1) by (subst radix_text.simps) simp
    have "n mod base < base" using assms(1) by simp
    then have "c_digit (digit (n mod base)) = n mod base" using digit_seen(1) assms(2) by simp
    moreover have "n div base < n" using False assms(1) by simp
    ultimately show ?thesis
      using less.IH [of "n div base"] \<open>n mod base < base\<close> unfolding step digits_value_append by (auto simp: digits_def)
  qed
qed

lemma show_nat_radix: "show_nat n = radix_text 10 n"
proof (induction n rule: less_induct)
  case (less n)
  then show ?case by (subst show_nat.simps, subst radix_text.simps) simp
qed

lemma digits_value_zeros: "digits_value base (replicate k (digit 0) @ s) = digits_value base s"
proof -
  have "foldl (\<lambda>v c. base * v + c_digit c) 0 (replicate k (digit 0)) = 0"
    using digit_seen(1) [of 0] by (induction k) simp_all
  then show ?thesis by (simp add: digits_value_def)
qed

lemma hex8_digits: "digits 16 (hex8 n)" and hex8_value: "digits_value 16 (hex8 n) = unat n"
  using radix_digits [of 16 "unat n"] by (auto simp: hex8_def Let_def digits_value_zeros digits_def intro: exI [of _ 0])

text \<open>A number, up to the end of the text or a character that is no digit.\<close>

lemma strtoul_digits:
  assumes "digits base s" and "base \<le> 16" and "digits_value base s < 2 ^ 32"
    and "more_text = [] \<or> base \<noteq> 16 \<and> base \<le> c_digit (hd more_text)"
  shows "strtoul base (s @ more_text) = (digits_value base s, more_text)"
proof -
  obtain c cs where s: "s = c # cs" using assms(1) by (cases s) (auto simp: digits_def)
  have seen: "c_digit d < base \<and> \<not> c_isspace d \<and> d \<notin> {CHR ''-'', CHR ''+'', CHR ''x'', CHR ''X''}" if d: "d \<in> set s" for d
  proof -
    obtain k where k: "k < base" "d = digit k" using assms(1) d unfolding digits_def by blast
    then have "k < 16" using assms(2) by linarith
    note seen = digit_seen [OF this]
    show ?thesis unfolding k(2) seen(1) using k(1) seen(2,3) by blast
  qed
  have prefix: "c_prefix base (s @ more_text) = s @ more_text"
  proof (cases "base = 16")
    case True
    then have "more_text = []" using assms(4) by simp
    then show ?thesis using seen s by (cases cs) (auto simp: c_prefix_def split: list.split)
  next
    case False
    then show ?thesis by (simp add: c_prefix_def split: list.split)
  qed
  have "takeWhile (\<lambda>c. c_digit c < base) (s @ more_text) = s"
    using seen assms(4) by (cases more_text) (auto simp: takeWhile_append)
  moreover have "c_sign (dropWhile c_isspace (s @ more_text)) = (False, s @ more_text)"
    using seen [of c] s by (simp add: c_sign_def)
  moreover have "s \<noteq> []" using s by simp
  ultimately show ?thesis
    using assms(3) by (simp add: strtoul_def prefix Let_def)
qed

section \<open>Commands\<close>

text \<open>The line, without its end.\<close>

definition command_line :: "bool \<Rightarrow> u8 list \<Rightarrow> string" where
  "command_line install payload = (if install then ''install'' else ''load'') @ CHR '' '' # show_nat (length payload)
     @ CHR '' '' # hex8 (crc32 payload)"

lemma length_digits: "digits 10 (show_nat n)"
  using radix_digits [of 10 n] by (simp add: show_nat_radix)

lemma command_chars:
  assumes "c \<in> set (command_line install payload)"
  shows "c \<noteq> line_feed" and "c \<noteq> char_of (0 :: nat)"
proof -
  have "c = CHR '' '' \<or> c \<in> set ''install'' \<or> c \<in> set ''load'' \<or> (\<exists>k < 16. c = digit k)"
    using assms digits_hex [OF length_digits, of c "length payload"] digits_hex [OF hex8_digits, of c "crc32 payload"]
    by (auto simp: command_line_def split: if_splits)
  then have "(of_char c :: nat) \<noteq> 10 \<and> (of_char c :: nat) \<noteq> 0" by (auto simp: char_of_digit split: if_splits)
  then show "c \<noteq> line_feed" "c \<noteq> char_of (0 :: nat)" by auto
qed

lemma command_sent: "takeWhile (\<lambda>c. c \<noteq> line_feed) (transfer_command install payload) = command_line install payload"
proof -
  have "transfer_command install payload = command_line install payload @ [line_feed]"
    by (simp add: transfer_command_def command_line_def)
  then show ?thesis using command_chars(1) by (simp add: takeWhile_append)
qed

lemma command_trimmed: "c_trim (command_line install payload) = command_line install payload"
proof -
  obtain hs h where "hex8 (crc32 payload) = hs @ [h]" "h \<in> set (hex8 (crc32 payload))"
    using hex8_digits [of "crc32 payload"] by (cases "hex8 (crc32 payload)" rule: rev_cases) (auto simp: digits_def)
  moreover from this(2) have "\<not> c_isspace h" using digits_hex [OF hex8_digits, of h "crc32 payload"] digit_seen(2) by auto
  moreover have "\<not> c_isspace (CHR ''i'')" "\<not> c_isspace (CHR ''l'')" by (simp_all add: c_isspace_def)
  ultimately show ?thesis by (simp add: c_trim_def command_line_def)
qed

lemma command_parsed:
  assumes "payload \<noteq> []" and "length payload < 2 ^ 32"
  shows "parse_transfer_command (command_line install payload) (if install then ''install'' else ''load'')
    = Some (length payload, crc32 payload)"
proof -
  let ?n = "show_nat (length payload)" and ?crc = "hex8 (crc32 payload)" and ?cmd = "if install then ''install'' else ''load''"
  let ?input = "?n @ CHR '' '' # ?crc"
  have line: "command_line install payload = ?cmd @ CHR '' '' # ?input" by (simp add: command_line_def)
  have "c_str ?input = ?input"
    using command_chars(2) [of _ install payload] unfolding c_str_def takeWhile_eq_all_conv line by simp
  moreover have "strtoul 10 ?input = (length payload, CHR '' '' # ?crc)"
    using strtoul_digits [OF length_digits [of "length payload"], of "CHR '' '' # ?crc"] radix_digits [of 10 "length payload"] assms(2)
    by (simp add: show_nat_radix c_digit_def)
  moreover have "strtoul 16 ?crc = (unat (crc32 payload), [])"
    using strtoul_digits [OF hex8_digits [of "crc32 payload"], of "[]"] unsigned_less [of "crc32 payload", where ?'a = nat]
    by (simp add: hex8_value)
  moreover have "?n \<noteq> []" "?crc \<noteq> []" using length_digits [of "length payload"] hex8_digits [of "crc32 payload"] by (auto simp: digits_def)
  ultimately show ?thesis
    using assms(1) unfolding parse_transfer_command_def line by (simp add: Let_def starts_with_def nth_append)
qed

text \<open>C34. The command that the tool sends makes the firmware receive the announced program: with its length, its
  checksum, and the order to install it or not.\<close>

theorem sent_command_served:
  assumes "payload \<noteq> []" and "length payload < 2 ^ 32"
  shows "serve_line F (c_trim (takeWhile (\<lambda>c. c \<noteq> line_feed) (transfer_command install payload))) w
    = receive_repl_payload F (length payload) (crc32 payload) install w"
proof -
  have "parse_transfer_command (command_line True payload) ''load'' = None"
    by (simp add: parse_transfer_command_def command_line_def starts_with_def)
  moreover have "command_line install payload \<noteq> ''''" by (simp add: command_line_def)
  ultimately show ?thesis
    using command_parsed [OF assms, of install] unfolding command_sent command_trimmed
    by (cases install) (simp_all add: serve_line_def)
qed

section \<open>Instances\<close>

text \<open>A program of two bytes, and flash that holds its image.\<close>

definition flashed :: "sim world" where
  "flashed = sim_idle []\<lparr>user := (user (sim_idle []))\<lparr>sim_flash := header_to_bytes (written_header [9, 8]) @ [9, 8]\<rparr>\<rparr>"

theorem packed_image_loads_witness:
  "\<exists>u'. rustscript_load_partition sim_firmware flashed =
    Done (Some \<lparr>image_data = first_fit 2 empty_memory, image_len = 2, image_source = ''flash:rustscript''\<rparr>,
      flashed\<lparr>mem := new_vec (first_fit 2 empty_memory) 2 [9, 8] empty_memory, user := u'\<rparr>)"
proof -
  let ?img = "header_to_bytes (written_header [9, 8]) @ [9, 8]"
  have "unat (crc32 [9, 8]) < 2 ^ 32" using unsigned_less [of "crc32 [9, 8]", where ?'a = nat] by simp
  then have img: "pack_vmbc [9, 8] (Some (unat (partition_size script_part))) = Inr ?img"
    by (simp add: pack_vmbc_def pack_header_def Let_def header_to_bytes_def written_header_def VMBC_MAGIC_def
        VMBC_VERSION_def SCRIPT_IMAGE_MAGIC_def SCRIPT_IMAGE_VERSION_def as_bytes_def script_part_def)
  have content: "sim_content (user flashed) = ?img @ replicate (0x10000 - length ?img) 0xff"
    by (simp add: flashed_def sim_content_def length_header_to_bytes written_header_def IMAGE_HEADER_SIZE_def)
  have "mem flashed = empty_memory" by (simp add: flashed_def)
  moreover have "first_fit 2 empty_memory \<noteq> 0" by (simp add: first_fit_def fresh_block_def)
  ultimately show ?thesis
    using packed_image_loads [OF sim_flash.flash_board_axioms img content] by (simp add: numeral_2_eq_2)
qed

theorem sent_command_served_witness:
  "serve_line sim_firmware (c_trim (takeWhile (\<lambda>c. c \<noteq> line_feed) (transfer_command True [9, 8]))) (sim_idle [])
    = receive_repl_payload sim_firmware (length [9, 8 :: u8]) (crc32 [9, 8]) True (sim_idle [])"
  by (rule sent_command_served) simp_all

end
