(* ===== verification/Allocator.thy ===== *)
theory Allocator
  imports Memory
begin

text \<open>
  The firmware's global allocator and panic handler, \<open>src/allocator.rs\<close>. The platform's
  \<open>rustscript_platform_alloc\<close> and \<open>rustscript_platform_dealloc\<close> are external symbols and
  stay parameters; their contract is that of \<open>malloc\<close> and \<open>free\<close> for blocks that are not
  empty.
\<close>

section \<open>Code\<close>

record layout =
  lay_size :: nat
  lay_align :: nat

record 'h platform =
  platform_alloc :: "nat \<Rightarrow> nat \<Rightarrow> 'h \<Rightarrow> addr \<times> 'h"
  platform_dealloc :: "addr \<Rightarrow> nat \<Rightarrow> nat \<Rightarrow> 'h \<Rightarrow> 'h"

text \<open>\<open>NonNull::<u8>::dangling()\<close> is the alignment of a byte.\<close>

definition alloc :: "'h platform \<Rightarrow> layout \<Rightarrow> 'h \<Rightarrow> addr \<times> 'h" where
  "alloc P l h = (if lay_size l = 0 then (1, h) else platform_alloc P (lay_size l) (lay_align l) h)"

definition dealloc :: "'h platform \<Rightarrow> addr \<Rightarrow> layout \<Rightarrow> 'h \<Rightarrow> 'h" where
  "dealloc P p l h = (if lay_size l \<noteq> 0 then platform_dealloc P p (lay_size l) (lay_align l) h else h)"

text \<open>The panic handler spins; \<open>None\<close> is not returning.\<close>

partial_function (option) panic :: "'i \<Rightarrow> unit option" where
  "panic info = panic info"

section \<open>Properties\<close>

text \<open>The panic handler never returns, as its type \<open>!\<close> says.\<close>

theorem panic_never_returns: "panic info = None"
proof -
  have "False" if "panic info = Some u" for u
    using panic.raw_induct [of "\<lambda>_ _. False" info u] that by blast
  then show ?thesis by (cases "panic info") auto
qed

text \<open>The contract of the platform, over the blocks it counts as live. It says nothing of empty
  blocks.\<close>

definition platform_ok :: "'h platform \<Rightarrow> ('h \<Rightarrow> (addr \<times> layout) set) \<Rightarrow> bool" where
  "platform_ok P live \<longleftrightarrow>
     (\<forall>l h a h'. 0 < lay_size l \<longrightarrow> platform_alloc P (lay_size l) (lay_align l) h = (a, h') \<longrightarrow>
        (if a = 0 then live h' = live h
         else (\<forall>k. (a, k) \<notin> live h) \<and> live h' = insert (a, l) (live h))) \<and>
     (\<forall>l h a. (a, l) \<in> live h \<longrightarrow>
        live (platform_dealloc P a (lay_size l) (lay_align l) h) = live h - {(a, l)})"

text \<open>What a program can do: it starts with nothing, keeps what it is given, and gives back only
  what it has.\<close>

inductive holds :: "'h platform \<Rightarrow> ('h \<Rightarrow> (addr \<times> layout) set) \<Rightarrow> 'h \<Rightarrow> (addr \<times> layout) list \<Rightarrow> bool"
  for P live where
  start: "live h = {} \<Longrightarrow> holds P live h []"
| granted: "holds P live h bs \<Longrightarrow> alloc P l h = (a, h') \<Longrightarrow> a \<noteq> 0 \<Longrightarrow> holds P live h' ((a, l) # bs)"
| refused: "holds P live h bs \<Longrightarrow> alloc P l h = (0, h') \<Longrightarrow> holds P live h' bs"
| given_back: "holds P live h bs \<Longrightarrow> (a, l) \<in> set bs \<Longrightarrow> holds P live (dealloc P a l h) (remove1 (a, l) bs)"

definition sized :: "(addr \<times> layout) list \<Rightarrow> (addr \<times> layout) list" where
  "sized bs = [b \<leftarrow> bs. lay_size (snd b) \<noteq> 0]"

lemma sized_simps [simp]:
  "sized [] = []"
  "sized (b # bs) = (if lay_size (snd b) \<noteq> 0 then b # sized bs else sized bs)"
  "set (sized bs) = {b \<in> set bs. lay_size (snd b) \<noteq> 0}"
  by (auto simp: sized_def)

lemma sized_remove1:
  "sized (remove1 b bs) = (if lay_size (snd b) \<noteq> 0 then remove1 b (sized bs) else sized bs)"
  by (induction bs) (auto simp: remove1_idem)

lemma platform_alloc_live:
  assumes "platform_ok P live" and "alloc P l h = (a, h')" and "lay_size l \<noteq> 0"
  shows "if a = 0 then live h' = live h
    else (\<forall>k. (a, k) \<notin> live h) \<and> live h' = insert (a, l) (live h)"
  using assms by (simp add: platform_ok_def alloc_def)

lemma platform_dealloc_live:
  assumes "platform_ok P live" and "(a, l) \<in> live h" and "lay_size l \<noteq> 0"
  shows "live (dealloc P a l h) = live h - {(a, l)}"
  using assms by (simp add: platform_ok_def dealloc_def)

text \<open>Whatever a program allocates and frees, the blocks that are live on
  the platform are exactly the nonempty ones the program holds, each of them once: requests of
  size zero never reach the platform, and nothing leaks or is freed twice.\<close>

theorem platform_blocks_balanced:
  assumes "holds P live h bs" and "platform_ok P live"
  shows "live h = set (sized bs) \<and> distinct (sized bs)"
  using assms(1)
proof (induction rule: holds.induct)
  case (granted h bs l a h')
  show ?case
  proof (cases "lay_size l = 0")
    case True
    then show ?thesis using granted by (auto simp: alloc_def)
  next
    case False
    then show ?thesis
      using granted platform_alloc_live [OF assms(2) granted(2)] by auto
  qed
next
  case (refused h bs l h')
  then have "lay_size l \<noteq> 0" by (cases "lay_size l = 0") (simp_all add: alloc_def)
  then show ?case using refused platform_alloc_live [OF assms(2) refused(2)] by simp
next
  case (given_back h bs a l)
  show ?case
  proof (cases "lay_size l = 0")
    case True
    then show ?thesis using given_back by (simp add: dealloc_def sized_remove1 del: sized_simps)
  next
    case False
    then have "(a, l) \<in> live h" using given_back by auto
    from platform_dealloc_live [OF assms(2) this False] show ?thesis
      using given_back False by (simp add: sized_remove1 set_remove1_eq del: sized_simps)
  qed
qed simp

text \<open>A platform with room for one block.\<close>

definition one_block :: "(addr \<times> layout) option platform" where
  "one_block = \<lparr>
     platform_alloc = (\<lambda>n k h. case h of
         None \<Rightarrow> (16, Some (16, \<lparr>lay_size = n, lay_align = k\<rparr>))
       | Some b \<Rightarrow> (0, Some b)),
     platform_dealloc = (\<lambda>a n k h. if h = Some (a, \<lparr>lay_size = n, lay_align = k\<rparr>) then None else h)\<rparr>"

lemma one_block_ok: "platform_ok one_block set_option"
  by (auto simp: platform_ok_def one_block_def split: option.splits)

theorem platform_blocks_balanced_witness:
  "set_option (Some (16, \<lparr>lay_size = 4, lay_align = 1\<rparr>))
     = set (sized [(1, \<lparr>lay_size = 0, lay_align = 8\<rparr>), (16, \<lparr>lay_size = 4, lay_align = 1\<rparr>)])
   \<and> distinct (sized [(1, \<lparr>lay_size = 0, lay_align = 8\<rparr>), (16, \<lparr>lay_size = 4, lay_align = 1\<rparr>)])"
proof (rule platform_blocks_balanced [OF _ one_block_ok])
  have "holds one_block set_option None []"
    by (rule holds.start) simp
  then have "holds one_block set_option (Some (16, \<lparr>lay_size = 4, lay_align = 1\<rparr>)) [(16, \<lparr>lay_size = 4, lay_align = 1\<rparr>)]"
    by (rule holds.granted) (simp_all add: alloc_def one_block_def)
  then show "holds one_block set_option (Some (16, \<lparr>lay_size = 4, lay_align = 1\<rparr>))
      [(1, \<lparr>lay_size = 0, lay_align = 8\<rparr>), (16, \<lparr>lay_size = 4, lay_align = 1\<rparr>)]"
    by (rule holds.granted) (simp_all add: alloc_def)
qed

end
