(* ===== verification/Platform.thy ===== *)
theory Platform
  imports Allocator
begin

text \<open>
  The two functions behind the global allocator, as the firmware implements them in
  \<open>firmware/main.cpp\<close>: aligned blocks out of \<open>malloc\<close>. A block with a large alignment is cut out
  of a larger one, whose address is kept in the word in front of it.
\<close>

section \<open>Code\<close>

text \<open>Of the target the code uses \<open>sizeof(void *)\<close> and \<open>alignof(std::max_align_t)\<close>; \<open>size_t\<close> and
  \<open>uintptr_t\<close> have 32 bits.\<close>

record abi =
  pointer_size :: nat
  max_align :: nat

definition SIZE_T_MAX :: u32 where
  "SIZE_T_MAX = - 1"

text \<open>The blocks of \<open>malloc\<close>, the pointers that the code stores, and whether something was freed that
  \<open>malloc\<close> had not returned.\<close>

record raw_heap =
  raw_blocks :: "addr \<Rightarrow> nat option"
  raw_words :: "addr \<Rightarrow> addr option"
  bad_free :: bool

definition raw_malloc :: "(nat \<Rightarrow> raw_heap \<Rightarrow> addr) \<Rightarrow> nat \<Rightarrow> raw_heap \<Rightarrow> addr \<times> raw_heap" where
  "raw_malloc place n h = (let a = place n h in
     if a = 0 then (0, h) else (a, h\<lparr>raw_blocks := (raw_blocks h)(a \<mapsto> n)\<rparr>))"

definition raw_free :: "addr option \<Rightarrow> raw_heap \<Rightarrow> raw_heap" where
  "raw_free p h = (case p of
       None \<Rightarrow> h\<lparr>bad_free := True\<rparr>
     | Some a \<Rightarrow> if raw_blocks h a = None then h\<lparr>bad_free := True\<rparr>
                 else h\<lparr>raw_blocks := (raw_blocks h)(a := None)\<rparr>)"

text \<open>\<open>(start + align - 1) & ~(align - 1)\<close>. All arithmetic on sizes and addresses is that of 32-bit
  words, and may wrap.\<close>

definition align_up :: "u32 \<Rightarrow> u32 \<Rightarrow> u32" where
  "align_up start align = (start + align - 1) AND NOT (align - 1)"

definition rustscript_platform_alloc :: "abi \<Rightarrow> (nat \<Rightarrow> raw_heap \<Rightarrow> addr) \<Rightarrow> u32 \<Rightarrow> u32 \<Rightarrow> raw_heap
    \<Rightarrow> addr \<times> raw_heap" where
  "rustscript_platform_alloc B place n align h =
     (let sizeof_ptr = of_nat (pointer_size B) in
      if n = 0 \<or> align = 0 \<or> align AND (align - 1) \<noteq> 0 then (0, h)
      else if unat align \<le> max_align B then raw_malloc place (unat n) h
      else if SIZE_T_MAX - align - sizeof_ptr < n then (0, h)
      else case raw_malloc place (unat (n + align - 1 + sizeof_ptr)) h of (raw, h) \<Rightarrow>
        if raw = 0 then (0, h)
        else
          (let start = of_nat raw + sizeof_ptr;
               aligned = unat (align_up start align)
           in (aligned, h\<lparr>raw_words := (raw_words h)(aligned - pointer_size B \<mapsto> raw)\<rparr>)))"

definition rustscript_platform_dealloc :: "abi \<Rightarrow> addr \<Rightarrow> nat \<Rightarrow> raw_heap \<Rightarrow> raw_heap" where
  "rustscript_platform_dealloc B p align h =
     (if p = 0 then h
      else if align \<le> max_align B then raw_free (Some p) h
      else raw_free (raw_words h (p - pointer_size B)) h)"

section \<open>Properties\<close>

text \<open>A block of \<open>malloc\<close> is not live yet, ends before the end of memory, and is aligned as every type
  needs.\<close>

definition raw_ok :: "abi \<Rightarrow> (nat \<Rightarrow> raw_heap \<Rightarrow> addr) \<Rightarrow> bool" where
  "raw_ok B place \<longleftrightarrow> (\<forall>n h. place n h \<noteq> 0 \<longrightarrow> raw_blocks h (place n h) = None
     \<and> place n h + n \<le> 2 ^ 32 \<and> (\<forall>k. 2 ^ k \<le> max_align B \<longrightarrow> 2 ^ k dvd place n h))"

text \<open>The test for a power of two.\<close>

lemma power_of_two_test:
  fixes n :: nat
  assumes "n \<noteq> 0" and "n AND (n - 1) = 0"
  shows "\<exists>k. n = 2 ^ k"
  using assms
proof (induction n rule: less_induct)
  case (less n)
  have "n AND (n - 1) = of_bool (odd n \<and> odd (n - 1)) + 2 * ((n div 2) AND ((n - 1) div 2))"
    by (rule and_rec)
  then have half: "(n div 2) AND ((n - 1) div 2) = 0" using less.prems(2) by simp
  show ?case
  proof (cases "even n")
    case True
    then obtain m where m: "n = 2 * m" by blast
    with less.prems(1) have "(n - 1) div 2 = m - 1" "m \<noteq> 0" "m < n" by auto
    with half m have "m AND (m - 1) = 0" by simp
    from less.IH [OF \<open>m < n\<close> \<open>m \<noteq> 0\<close> this] obtain k where "m = 2 ^ k" ..
    with m show ?thesis by (intro exI [of _ "Suc k"]) simp
  next
    case False
    then have "(n - 1) div 2 = n div 2" by presburger
    with half have "n div 2 = 0" by simp
    with False have "n = 2 ^ 0" by (simp, presburger)
    then show ?thesis ..
  qed
qed

lemma and_not_mask: "x AND NOT (mask k) = push_bit k (drop_bit k x)" for x :: u32
  by (rule bit_word_eqI) (auto simp: bit_simps)

lemma align_up_eq:
  assumes "start + 2 ^ k \<le> 2 ^ 32" and "k < 32"
  shows "unat (align_up (of_nat start) (of_nat (2 ^ k))) = (start + 2 ^ k - 1) div 2 ^ k * 2 ^ k"
proof -
  let ?N = "start + 2 ^ k - 1"
  let ?x = "of_nat ?N :: u32"
  have x: "of_nat start + of_nat (2 ^ k) - 1 = ?x" by (subst of_nat_diff) (simp_all add: Suc_le_eq)
  have m: "of_nat (2 ^ k) - 1 = (mask k :: u32)" by (simp add: mask_eq_exp_minus_1)
  have ux: "unat ?x = ?N" using assms(1) by (simp add: unat_of_nat take_bit_nat_eq_self)
  have "?N div 2 ^ k * 2 ^ k \<le> ?N" by simp
  moreover have "0 < (2 :: nat) ^ k" by simp
  ultimately have lt: "?N div 2 ^ k * 2 ^ k < 2 ^ 32" using assms(1) by linarith
  have "unat (align_up (of_nat start) (of_nat (2 ^ k))) = unat (push_bit k (drop_bit k ?x))"
    unfolding align_up_def x m and_not_mask ..
  also have "\<dots> = take_bit 32 (push_bit k (unat (drop_bit k ?x)))" by (simp add: unsigned_push_bit_eq)
  also have "unat (drop_bit k ?x) = ?N div 2 ^ k" by (simp only: unat_drop_bit_eq ux) (simp only: drop_bit_eq_div)
  also have "take_bit 32 (push_bit k (?N div 2 ^ k)) = ?N div 2 ^ k * 2 ^ k"
    using lt by (simp add: push_bit_eq_mult take_bit_nat_eq_self)
  finally show ?thesis .
qed

text \<open>The same function in exact arithmetic. The guard keeps the words from wrapping: a pointer is not larger
  than the largest alignment of a type, and so smaller than the alignment that it is added to.\<close>

definition alloc_exact :: "abi \<Rightarrow> (nat \<Rightarrow> raw_heap \<Rightarrow> addr) \<Rightarrow> nat \<Rightarrow> nat \<Rightarrow> raw_heap \<Rightarrow> addr \<times> raw_heap" where
  "alloc_exact B place n align h =
     (if n = 0 \<or> align = 0 \<or> align AND (align - 1) \<noteq> 0 then (0, h)
      else if align \<le> max_align B then raw_malloc place n h
      else if 2 ^ 32 \<le> n + align + pointer_size B then (0, h)
      else case raw_malloc place (n + align - 1 + pointer_size B) h of (raw, h) \<Rightarrow>
        if raw = 0 then (0, h)
        else
          (let aligned = unat (align_up (of_nat (raw + pointer_size B)) (of_nat align))
           in (aligned, h\<lparr>raw_words := (raw_words h)(aligned - pointer_size B \<mapsto> raw)\<rparr>)))"

lemma word_size [simp]: "n < 2 ^ 32 \<Longrightarrow> unat (of_nat n :: u32) = n"
  by (simp add: unat_of_nat take_bit_nat_eq_self)

lemma power_below:
  assumes "(2 :: nat) ^ e < 2 ^ 32"
  shows "(2 :: nat) ^ e \<le> 2 ^ 31" and "e < 32"
proof -
  show "e < 32" by (rule power_less_imp_less_exp [of "2 :: nat"]) (use assms in simp_all)
  then show "(2 :: nat) ^ e \<le> 2 ^ 31" by (intro power_increasing) simp_all
qed

lemma guard_exact:
  assumes "align + ptr < 2 ^ 32" and "n < 2 ^ 32"
  shows "SIZE_T_MAX - of_nat align - of_nat ptr < (of_nat n :: u32) \<longleftrightarrow> 2 ^ 32 \<le> n + align + ptr"
proof -
  have "SIZE_T_MAX - of_nat align - of_nat ptr = (of_nat (2 ^ 32 - 1 - align - ptr) :: u32)"
    using assms(1) by (simp add: SIZE_T_MAX_def of_nat_diff)
  then have "unat (SIZE_T_MAX - of_nat align - of_nat ptr) = 2 ^ 32 - 1 - align - ptr" by simp
  then show ?thesis using assms by (auto simp: word_less_nat_alt)
qed

lemma platform_alloc_exact:
  assumes "n < 2 ^ 32" and "align < 2 ^ 32" and "pointer_size B \<le> max_align B"
  shows "rustscript_platform_alloc B place (of_nat n) (of_nat align) h = alloc_exact B place n align h"
proof -
  let ?n = "of_nat n :: u32" and ?align = "of_nat align :: u32" and ?ptr = "of_nat (pointer_size B) :: u32"
  have zero: "?n = 0 \<longleftrightarrow> n = 0" "?align = 0 \<longleftrightarrow> align = 0"
    by (simp_all only: unat_eq_zero [symmetric] word_size [OF assms(1)] word_size [OF assms(2)])
  have test: "?align AND (?align - 1) = 0 \<longleftrightarrow> align AND (align - 1) = 0" if "align \<noteq> 0"
  proof -
    have "?align - 1 = of_nat (align - 1)" using that by simp
    moreover have "unat (?align AND of_nat (align - 1)) = align AND (align - 1)"
      using assms(2) by (simp add: unsigned_and_eq)
    ultimately show ?thesis by (simp only: unat_eq_zero [symmetric])
  qed
  show ?thesis
  proof (cases "n = 0 \<or> align = 0 \<or> align AND (align - 1) \<noteq> 0 \<or> align \<le> max_align B")
    case True
    then show ?thesis using assms(1,2) zero test by (auto simp: rustscript_platform_alloc_def alloc_exact_def Let_def)
  next
    case False
    then obtain e where e: "align = 2 ^ e" using power_of_two_test by blast
    have "align + pointer_size B < 2 ^ 32"
      using power_below(1) [of e] e assms(2,3) False by simp
    note guard = guard_exact [OF this assms(1)]
    have sum: "unat (?n + ?align - 1 + ?ptr) = n + align - 1 + pointer_size B" if "n + align + pointer_size B < 2 ^ 32"
    proof -
      have "?n + ?align - 1 + ?ptr = of_nat (n + align - 1 + pointer_size B)" using False by (simp add: of_nat_diff)
      then show ?thesis using that by (simp only:) (rule word_size, simp)
    qed
    show ?thesis
      using False zero test guard sum assms(2)
      by (simp add: rustscript_platform_alloc_def alloc_exact_def Let_def not_le split: prod.split)
  qed
qed

text \<open>The block that is cut out of one of \<open>malloc\<close>.\<close>

lemma platform_block_cut:
  assumes "raw_ok B place" and "place (n + align - 1 + pointer_size B) h = raw" and "raw \<noteq> 0"
    and "a = unat (align_up (of_nat (raw + pointer_size B)) (of_nat align))" and "n \<noteq> 0" and "align = 2 ^ e"
    and "align < 2 ^ 32"
  shows "align dvd a" and "raw + pointer_size B \<le> a" and "a + n \<le> raw + (n + align - 1 + pointer_size B)"
    and "raw_blocks h raw = None"
proof -
  let ?k = "n + align - 1 + pointer_size B" and ?N = "raw + pointer_size B + 2 ^ e - 1"
  have block: "raw_blocks h raw = None" "raw + ?k \<le> 2 ^ 32" using assms(1-3) by (auto simp: raw_ok_def)
  have "raw + pointer_size B + 2 ^ e \<le> 2 ^ 32" using block(2) assms(5,6) by simp
  moreover have "e < 32" by (rule power_below) (use assms(6,7) in simp)
  ultimately have a: "a = ?N div 2 ^ e * 2 ^ e" using assms(4,6) by (simp only: align_up_eq)
  have "?N div 2 ^ e * 2 ^ e + ?N mod 2 ^ e = ?N" by (rule div_mult_mod_eq)
  moreover have "?N mod 2 ^ e < 2 ^ e" by simp
  ultimately have le: "raw + pointer_size B \<le> a" "a \<le> ?N" using a by linarith+
  then show "raw + pointer_size B \<le> a" "a + n \<le> raw + ?k"
    using assms(5,6) zero_less_power [of "2 :: nat" e] by linarith+
  show "align dvd a" using a assms(6) by simp
  show "raw_blocks h raw = None" by (rule block(1))
qed

text \<open>Giving a block back, at any later time when it is still live and the word in front of it is
  untouched, frees exactly one block of \<open>malloc\<close>.\<close>

definition gives_back :: "abi \<Rightarrow> nat \<Rightarrow> addr \<Rightarrow> raw_heap \<Rightarrow> addr \<Rightarrow> bool" where
  "gives_back B align a h raw \<longleftrightarrow> (\<forall>later. raw_blocks later raw \<noteq> None \<longrightarrow>
     raw_words later (a - pointer_size B) = raw_words h (a - pointer_size B) \<longrightarrow>
     rustscript_platform_dealloc B a align later = later\<lparr>raw_blocks := (raw_blocks later)(raw := None)\<rparr>)"

text \<open>What the allocator asks of the platform: a block that is granted is aligned, and its bytes lie
  inside of a fresh block of \<open>malloc\<close>, the only one that is new; giving it back frees that block.\<close>

theorem platform_block_aligned:
  assumes "raw_ok B place" and "rustscript_platform_alloc B place (of_nat n) (of_nat align) h = (a, h')" and "a \<noteq> 0"
    and "n < 2 ^ 32" and "align < 2 ^ 32" and "pointer_size B \<le> max_align B"
  shows "\<exists>raw k. align dvd a \<and> raw \<le> a \<and> a + n \<le> raw + k \<and> raw_blocks h raw = None
    \<and> raw_blocks h' = (raw_blocks h)(raw \<mapsto> k) \<and> bad_free h' = bad_free h \<and> gives_back B align a h' raw"
proof -
  have exact: "alloc_exact B place n align h = (a, h')" using assms(2) platform_alloc_exact [OF assms(4-6)] by simp
  then have ok: "n \<noteq> 0" "align \<noteq> 0" "align AND (align - 1) = 0"
    using assms(3) by (auto simp: alloc_exact_def split: if_splits)
  obtain e where e: "align = 2 ^ e" using power_of_two_test [OF ok(2,3)] by blast
  show ?thesis
  proof (cases "align \<le> max_align B")
    case True
    then have a: "place n h = a" "h' = h\<lparr>raw_blocks := (raw_blocks h)(a \<mapsto> n)\<rparr>"
      using exact assms(3) ok by (auto simp: alloc_exact_def raw_malloc_def Let_def split: if_splits)
    then have "align dvd a" "raw_blocks h a = None" using assms(1,3) True e by (auto simp: raw_ok_def)
    then show ?thesis
      using a assms(3) True
      by - (rule exI [of _ a], rule exI [of _ n], auto simp: gives_back_def rustscript_platform_dealloc_def raw_free_def)
  next
    case False
    let ?k = "n + align - 1 + pointer_size B"
    obtain raw where raw: "place ?k h = raw" "raw \<noteq> 0" "a = unat (align_up (of_nat (raw + pointer_size B)) (of_nat align))"
        "h' = h\<lparr>raw_blocks := (raw_blocks h)(raw \<mapsto> ?k), raw_words := (raw_words h)(a - pointer_size B \<mapsto> raw)\<rparr>"
      using exact assms(3) ok False
      by (auto simp: alloc_exact_def raw_malloc_def Let_def split: if_splits)
    note cut = platform_block_cut [OF assms(1) raw(1,2,3) ok(1) e assms(5)]
    have "gives_back B align a h' raw"
      using raw(4) False assms(3) by (simp add: gives_back_def rustscript_platform_dealloc_def raw_free_def)
    then show ?thesis
      using cut raw(4) by - (rule exI [of _ raw], rule exI [of _ ?k], simp)
  qed
qed

text \<open>A heap with room for one block, on a 32-bit target.\<close>

definition one_place :: "nat \<Rightarrow> raw_heap \<Rightarrow> addr" where
  "one_place n h = (if raw_blocks h 32 = None \<and> n \<le> 4096 then 32 else 0)"

definition small_abi :: abi where
  "small_abi = \<lparr>pointer_size = 4, max_align = 8\<rparr>"

definition empty_heap :: raw_heap where
  "empty_heap = \<lparr>raw_blocks = Map.empty, raw_words = Map.empty, bad_free = False\<rparr>"

lemma one_place_ok: "raw_ok small_abi one_place"
proof -
  have "2 ^ k dvd (32 :: nat)" if "(2 :: nat) ^ k \<le> 8" for k
  proof -
    have "(2 :: nat) ^ k \<le> 2 ^ 3" using that by simp
    then have "k \<le> 3" by (simp only: power_increasing_iff one_less_numeral_iff semiring_norm)
    then have "(2 :: nat) ^ k dvd 2 ^ 5" by (intro le_imp_power_dvd) simp
    then show ?thesis by simp
  qed
  then show ?thesis by (auto simp: raw_ok_def one_place_def small_abi_def)
qed

theorem platform_block_aligned_witness:
  "\<exists>raw k. 64 dvd (64 :: nat) \<and> raw \<le> 64 \<and> 64 + 10 \<le> raw + k \<and> raw_blocks empty_heap raw = None
    \<and> raw_blocks (snd (rustscript_platform_alloc small_abi one_place 10 64 empty_heap)) = (raw_blocks empty_heap)(raw \<mapsto> k)
    \<and> bad_free (snd (rustscript_platform_alloc small_abi one_place 10 64 empty_heap)) = bad_free empty_heap
    \<and> gives_back small_abi 64 64 (snd (rustscript_platform_alloc small_abi one_place 10 64 empty_heap)) raw"
proof (rule platform_block_aligned [OF one_place_ok, where n = 10 and align = 64])
  show "rustscript_platform_alloc small_abi one_place (of_nat 10) (of_nat 64) empty_heap
      = (64, snd (rustscript_platform_alloc small_abi one_place 10 64 empty_heap))"
    by (simp add: rustscript_platform_alloc_def raw_malloc_def one_place_def small_abi_def empty_heap_def SIZE_T_MAX_def
        align_up_def Let_def)
qed (simp_all add: small_abi_def)

end
