(* ===== verification/Global_Heap.thy ===== *)
theory Global_Heap
  imports Platform
begin

text \<open>
  The heap of the firmware: the global allocator of \<open>src/allocator.rs\<close> over the two functions of
  \<open>firmware/main.cpp\<close> over \<open>malloc\<close>, which C++ code uses as well. Whatever Rust and C++ allocate,
  write and free, in any order, no two blocks overlap, none is lost, and \<open>free\<close> only gets what
  \<open>malloc\<close> has returned.
\<close>

section \<open>The system\<close>

text \<open>A \<open>usize\<close> of Rust is passed as a \<open>size_t\<close>, which has 32 bits.\<close>

definition firmware_platform :: "abi \<Rightarrow> (nat \<Rightarrow> raw_heap \<Rightarrow> addr) \<Rightarrow> raw_heap platform" where
  "firmware_platform B place = \<lparr>platform_alloc = (\<lambda>size align. rustscript_platform_alloc B place (of_nat size) (of_nat align)),
     platform_dealloc = (\<lambda>p size align. rustscript_platform_dealloc B p align)\<rparr>"

text \<open>A range of bytes in front of another one.\<close>

definition apart :: "nat \<Rightarrow> nat \<Rightarrow> nat \<Rightarrow> nat \<Rightarrow> bool" where
  "apart a n b k \<longleftrightarrow> a + n \<le> b \<or> b + k \<le> a"

lemma apart_sym: "apart a n b k \<Longrightarrow> apart b k a n"
  by (auto simp: apart_def)

text \<open>What \<open>malloc\<close> promises: in addition, a new block does not overlap one that is live. And of the ABI, that
  a pointer is not larger than the largest alignment of a type.\<close>

definition malloc_ok :: "abi \<Rightarrow> (nat \<Rightarrow> raw_heap \<Rightarrow> addr) \<Rightarrow> bool" where
  "malloc_ok B place \<longleftrightarrow> 0 < pointer_size B \<and> pointer_size B \<le> max_align B \<and> raw_ok B place
     \<and> (\<forall>n h a k. place n h \<noteq> 0 \<longrightarrow> raw_blocks h a = Some k \<longrightarrow> apart a k (place n h) n)"

text \<open>The steps of a running firmware, with the blocks \<open>bs\<close> that Rust code holds and the blocks \<open>fs\<close> that
  C++ code holds: Rust allocates and frees through the global allocator, C++ through \<open>malloc\<close> and \<open>free\<close>,
  and both write words inside of what they hold. Size and alignment of a \<open>Layout\<close> are of type \<open>usize\<close>.\<close>

definition fits_usize :: "layout \<Rightarrow> bool" where
  "fits_usize l \<longleftrightarrow> lay_size l < 2 ^ 32 \<and> lay_align l < 2 ^ 32"

inductive heap_runs :: "abi \<Rightarrow> (nat \<Rightarrow> raw_heap \<Rightarrow> addr) \<Rightarrow> raw_heap \<Rightarrow> (addr \<times> layout) list \<Rightarrow> addr list \<Rightarrow> bool"
  for B place where
  start: "raw_blocks h = Map.empty \<Longrightarrow> \<not> bad_free h \<Longrightarrow> heap_runs B place h [] []"
| granted: "heap_runs B place h bs fs \<Longrightarrow> alloc (firmware_platform B place) l h = (a, h') \<Longrightarrow> a \<noteq> 0 \<Longrightarrow>
    fits_usize l \<Longrightarrow> heap_runs B place h' ((a, l) # bs) fs"
| refused: "heap_runs B place h bs fs \<Longrightarrow> alloc (firmware_platform B place) l h = (0, h') \<Longrightarrow> fits_usize l \<Longrightarrow>
    heap_runs B place h' bs fs"
| given_back: "heap_runs B place h (bs @ (a, l) # bs') fs \<Longrightarrow>
    heap_runs B place (dealloc (firmware_platform B place) a l h) (bs @ bs') fs"
| written: "heap_runs B place h bs fs \<Longrightarrow> (a, l) \<in> set bs \<Longrightarrow> a \<le> x \<Longrightarrow> x + pointer_size B \<le> a + lay_size l \<Longrightarrow>
    heap_runs B place (h\<lparr>raw_words := (raw_words h)(x := v)\<rparr>) bs fs"
| malloc: "heap_runs B place h bs fs \<Longrightarrow> raw_malloc place n h = (a, h') \<Longrightarrow> a \<noteq> 0 \<Longrightarrow> heap_runs B place h' bs (a # fs)"
| free: "heap_runs B place h bs (fs @ a # fs') \<Longrightarrow> heap_runs B place (raw_free (Some a) h) bs (fs @ fs')"
| foreign_written: "heap_runs B place h bs fs \<Longrightarrow> a \<in> set fs \<Longrightarrow> raw_blocks h a = Some k \<Longrightarrow> a \<le> x \<Longrightarrow>
    x + pointer_size B \<le> a + k \<Longrightarrow> heap_runs B place (h\<lparr>raw_words := (raw_words h)(x := v)\<rparr>) bs fs"

section \<open>The invariant\<close>

text \<open>A block of the global allocator is backed by a block of \<open>malloc\<close>: itself, or the one whose
  address is in front of it.\<close>

definition backs :: "abi \<Rightarrow> raw_heap \<Rightarrow> addr \<times> layout \<Rightarrow> addr \<Rightarrow> bool" where
  "backs B h = (\<lambda>(a, l) raw. a \<noteq> 0 \<and> lay_align l dvd a \<and>
     (\<exists>k. raw_blocks h raw = Some k \<and> a + lay_size l \<le> raw + k) \<and>
     (if lay_align l \<le> max_align B then raw = a
      else raw_words h (a - pointer_size B) = Some raw \<and> raw + pointer_size B \<le> a))"

definition no_overlap :: "raw_heap \<Rightarrow> bool" where
  "no_overlap h \<longleftrightarrow> (\<forall>a b k n. raw_blocks h a = Some k \<longrightarrow> raw_blocks h b = Some n \<longrightarrow> a \<noteq> b \<longrightarrow> apart a k b n)"

text \<open>The blocks of \<open>malloc\<close> are those that back a block of Rust code, each of them one, and those of C++ code.\<close>

definition heap_inv :: "abi \<Rightarrow> raw_heap \<Rightarrow> (addr \<times> layout) list \<Rightarrow> addr list \<Rightarrow> bool" where
  "heap_inv B h bs fs \<longleftrightarrow> \<not> bad_free h \<and> no_overlap h \<and>
     (\<exists>rs. list_all2 (backs B h) (sized bs) rs \<and> distinct (rs @ fs) \<and> set (rs @ fs) = dom (raw_blocks h))"

text \<open>A block that is granted.\<close>

lemma alloc_backs:
  assumes "malloc_ok B place" and "rustscript_platform_alloc B place (of_nat (lay_size l)) (of_nat (lay_align l)) h = (a, h')"
    and "a \<noteq> 0" and "fits_usize l"
  obtains raw k where "raw_blocks h raw = None" "raw_blocks h' = (raw_blocks h)(raw \<mapsto> k)" "bad_free h' = bad_free h"
    "raw = place k h" "raw \<noteq> 0" "backs B h' (a, l) raw" "\<And>x. raw_words h' x \<noteq> raw_words h x \<Longrightarrow> raw \<le> x \<and> x < raw + k"
proof -
  let ?n = "lay_size l" and ?align = "lay_align l"
  have law: "raw_ok B place" "0 < pointer_size B" using assms(1) by (simp_all add: malloc_ok_def)
  have exact: "alloc_exact B place ?n ?align h = (a, h')"
    using assms(1,2,4) platform_alloc_exact [of ?n ?align B place h] by (simp add: malloc_ok_def fits_usize_def)
  then have ok: "?n \<noteq> 0" "?align \<noteq> 0" "?align AND (?align - 1) = 0"
    using assms(3) by (auto simp: alloc_exact_def split: if_splits)
  have small: "?align < 2 ^ 32" using assms(4) by (simp add: fits_usize_def)
  obtain e where e: "?align = 2 ^ e" using power_of_two_test [OF ok(2,3)] by blast
  show thesis
  proof (cases "?align \<le> max_align B")
    case True
    then have a: "place ?n h = a" "h' = h\<lparr>raw_blocks := (raw_blocks h)(a \<mapsto> ?n)\<rparr>"
      using exact assms(3) ok by (auto simp: alloc_exact_def raw_malloc_def Let_def split: if_splits)
    then have "?align dvd a" "raw_blocks h a = None" using law(1) assms(3) True e by (auto simp: raw_ok_def)
    then show thesis using a assms(3) True by (intro that [of a ?n]) (simp_all add: backs_def)
  next
    case False
    let ?k = "?n + ?align - 1 + pointer_size B"
    obtain raw where raw: "place ?k h = raw" "raw \<noteq> 0" "a = unat (align_up (of_nat (raw + pointer_size B)) (of_nat ?align))"
        "h' = h\<lparr>raw_blocks := (raw_blocks h)(raw \<mapsto> ?k), raw_words := (raw_words h)(a - pointer_size B \<mapsto> raw)\<rparr>"
      using exact assms(3) ok False
      by (auto simp: alloc_exact_def raw_malloc_def Let_def split: if_splits)
    from platform_block_cut [OF law(1) raw(1,2) raw(3) ok(1) e small]
    have cut: "?align dvd a" "raw + pointer_size B \<le> a" "a + ?n \<le> raw + ?k" "raw_blocks h raw = None" by simp_all
    then show thesis
      using raw False law(2) ok(1) by (intro that [of raw ?k]) (auto simp: backs_def split: if_splits)
  qed
qed

lemma sized_append [simp]: "sized (xs @ ys) = sized xs @ sized ys"
  by (simp add: sized_def)

text \<open>A block lies inside of the block that backs it, and so does the word in front of it.\<close>

lemma backs_inside:
  assumes "backs B h (a, l) raw" and "raw_blocks h raw = Some k" and "lay_size l \<noteq> 0" and "0 < pointer_size B"
  shows "raw \<le> a" and "a + lay_size l \<le> raw + k"
    and "max_align B < lay_align l \<Longrightarrow> raw \<le> a - pointer_size B \<and> a - pointer_size B < raw + k \<and> a - pointer_size B < a"
  using assms by (auto simp: backs_def split: if_splits)

lemma backs_frame:
  assumes "backs B h (a, l) raw" and "raw_blocks h' raw = raw_blocks h raw"
    and "max_align B < lay_align l \<Longrightarrow> raw_words h' (a - pointer_size B) = raw_words h (a - pointer_size B)"
  shows "backs B h' (a, l) raw"
  using assms by (auto simp: backs_def)

text \<open>What happens elsewhere does not change it.\<close>

lemma backs_apart:
  assumes "backs B h b raw" and "lay_size (snd b) \<noteq> 0" and "0 < pointer_size B"
    and "raw_blocks h raw = Some k" and "raw_blocks h' raw = Some k"
    and "\<And>x. raw_words h' x \<noteq> raw_words h x \<Longrightarrow> c \<le> x \<and> x < c + n" and "apart raw k c n"
  shows "backs B h' b raw"
proof -
  obtain a l where b: "b = (a, l)" by fastforce
  note inside = backs_inside [OF assms(1) [unfolded b] assms(4) _ assms(3)]
  have "raw_words h' (a - pointer_size B) = raw_words h (a - pointer_size B)" if "max_align B < lay_align l"
    using inside(3) that assms(2,7) assms(6) [of "a - pointer_size B"] b by (fastforce simp: apart_def)
  then show ?thesis using backs_frame [OF assms(1) [unfolded b]] assms(4,5) b by simp
qed

lemma backed_live: "list_all2 (backs B h) ss rs \<Longrightarrow> raw \<in> set rs \<Longrightarrow> \<exists>k. raw_blocks h raw = Some k"
  by (auto simp: list_all2_conv_all_nth in_set_conv_nth backs_def)

section \<open>Every step keeps it\<close>

lemma no_overlap_new:
  assumes "no_overlap h" and "malloc_ok B place" and "place n h = a" and "a \<noteq> 0" and "raw_blocks h' = (raw_blocks h)(a \<mapsto> n)"
  shows "no_overlap h'"
  using assms by (auto simp: no_overlap_def malloc_ok_def intro: apart_sym)

lemma no_overlap_gone: "no_overlap h \<Longrightarrow> raw_blocks h' = (raw_blocks h)(a := None) \<Longrightarrow> no_overlap h'"
  by (auto simp: no_overlap_def)

text \<open>A new block of \<open>malloc\<close> leaves the others as they are.\<close>

lemma backs_new:
  assumes "list_all2 (backs B h) (sized bs) rs" and "malloc_ok B place" and "raw_blocks h raw = None"
    and "place n h = raw" and "raw \<noteq> 0" and "raw_blocks h' = (raw_blocks h)(raw \<mapsto> n)"
    and "\<And>x. raw_words h' x \<noteq> raw_words h x \<Longrightarrow> raw \<le> x \<and> x < raw + n"
  shows "list_all2 (backs B h') (sized bs) rs"
  using assms(1)
proof (rule list.rel_mono_strong)
  fix b r
  assume b: "b \<in> set (sized bs)" and r: "r \<in> set rs" and held: "backs B h b r"
  obtain k where k: "raw_blocks h r = Some k" using backed_live [OF assms(1) r] by blast
  show "backs B h' b r"
  proof (rule backs_apart [OF held _ _ k _ assms(7)])
    show "apart r k raw n" using assms(2,4,5) k by (auto simp: malloc_ok_def)
    show "raw_blocks h' r = Some k" using k assms(3,6) by auto
  qed (use b assms(2) in \<open>auto simp: malloc_ok_def\<close>)
qed

lemma inv_granted:
  assumes "heap_inv B h bs fs" and "malloc_ok B place" and "alloc (firmware_platform B place) l h = (a, h')"
    and "a \<noteq> 0" and "fits_usize l"
  shows "heap_inv B h' ((a, l) # bs) fs"
proof (cases "lay_size l = 0")
  case True
  then show ?thesis using assms(1,3) by (simp add: alloc_def heap_inv_def)
next
  case False
  then have "rustscript_platform_alloc B place (of_nat (lay_size l)) (of_nat (lay_align l)) h = (a, h')"
    using assms(3) by (simp add: alloc_def firmware_platform_def)
  from alloc_backs [OF assms(2) this assms(4,5)]
  obtain raw k where raw: "raw_blocks h raw = None" "raw_blocks h' = (raw_blocks h)(raw \<mapsto> k)" "bad_free h' = bad_free h"
      "place k h = raw" "raw \<noteq> 0" "backs B h' (a, l) raw"
      "\<And>x. raw_words h' x \<noteq> raw_words h x \<Longrightarrow> raw \<le> x \<and> x < raw + k" by metis
  obtain rs where rs: "list_all2 (backs B h) (sized bs) rs" "distinct (rs @ fs)" "set (rs @ fs) = dom (raw_blocks h)"
    and h: "\<not> bad_free h" "no_overlap h" using assms(1) by (auto simp: heap_inv_def)
  have "list_all2 (backs B h') (sized ((a, l) # bs)) (raw # rs)"
    using backs_new [OF rs(1) assms(2) raw(1,4,5,2,7)] raw(6) False by simp
  moreover have "distinct ((raw # rs) @ fs)" using rs(2,3) raw(1) by auto
  moreover have "set ((raw # rs) @ fs) = dom (raw_blocks h')" using rs(3) raw(2) by auto
  moreover have "no_overlap h'" by (rule no_overlap_new [OF h(2) assms(2) raw(4,5,2)])
  ultimately show ?thesis using h(1) raw(3) unfolding heap_inv_def by blast
qed

lemma inv_malloc:
  assumes "heap_inv B h bs fs" and "malloc_ok B place" and "raw_malloc place n h = (a, h')" and "a \<noteq> 0"
  shows "heap_inv B h' bs (a # fs)"
proof -
  have raw: "place n h = a" "raw_blocks h' = (raw_blocks h)(a \<mapsto> n)" "raw_words h' = raw_words h" "bad_free h' = bad_free h"
    using assms(3,4) by (auto simp: raw_malloc_def Let_def split: if_splits)
  have new: "raw_blocks h a = None" using assms(2,4) raw(1) by (auto simp: malloc_ok_def raw_ok_def)
  obtain rs where rs: "list_all2 (backs B h) (sized bs) rs" "distinct (rs @ fs)" "set (rs @ fs) = dom (raw_blocks h)"
    and h: "\<not> bad_free h" "no_overlap h" using assms(1) by (auto simp: heap_inv_def)
  have "list_all2 (backs B h') (sized bs) rs"
    by (rule backs_new [OF rs(1) assms(2) new raw(1) assms(4) raw(2)]) (simp add: raw(3))
  moreover have "distinct (rs @ a # fs)" using rs(2,3) new by auto
  moreover have "set (rs @ a # fs) = dom (raw_blocks h')" using rs(3) raw(2) by auto
  moreover have "no_overlap h'" by (rule no_overlap_new [OF h(2) assms(2) raw(1) assms(4) raw(2)])
  ultimately show ?thesis using h(1) raw(4) unfolding heap_inv_def by blast
qed

lemma alloc_null:
  assumes "malloc_ok B place" and "alloc_exact B place n align h = (0, h')" and "align < 2 ^ 32"
  shows "h' = h"
proof (rule ccontr)
  assume changed: "h' \<noteq> h"
  then have ok: "n \<noteq> 0" "align \<noteq> 0" "align AND (align - 1) = 0" "\<not> align \<le> max_align B"
    using assms(2) by (auto simp: alloc_exact_def raw_malloc_def Let_def split: if_splits)
  obtain e where e: "align = 2 ^ e" using power_of_two_test [OF ok(2,3)] by blast
  let ?raw = "place (n + align - 1 + pointer_size B) h"
  have "?raw \<noteq> 0" "0 = unat (align_up (of_nat (?raw + pointer_size B)) (of_nat align))"
    using assms(2) ok changed by (auto simp: alloc_exact_def raw_malloc_def Let_def split: if_splits)
  moreover have "raw_ok B place" using assms(1) by (simp add: malloc_ok_def)
  ultimately have "?raw + pointer_size B \<le> 0"
    by (intro platform_block_cut(2) [where place = place and h = h and n = n and e = e and align = align])
      (use ok(1) e assms(3) in simp_all)
  with \<open>?raw \<noteq> 0\<close> show False by simp
qed

lemma inv_refused:
  assumes "heap_inv B h bs fs" and "malloc_ok B place" and "alloc (firmware_platform B place) l h = (0, h')"
    and "fits_usize l"
  shows "heap_inv B h' bs fs"
proof -
  have "rustscript_platform_alloc B place (of_nat (lay_size l)) (of_nat (lay_align l)) h = (0, h')"
    using assms(3) by (simp add: alloc_def firmware_platform_def split: if_splits)
  then have "alloc_exact B place (lay_size l) (lay_align l) h = (0, h')"
    using assms(2,4) platform_alloc_exact [of "lay_size l" "lay_align l" B place h] by (simp add: malloc_ok_def fits_usize_def)
  then have "h' = h" by (rule alloc_null [OF assms(2)]) (use assms(4) in \<open>simp add: fits_usize_def\<close>)
  then show ?thesis using assms(1) by simp
qed

text \<open>What is freed backs one block, and the others stay.\<close>

lemma inv_given_back:
  assumes "heap_inv B h (bs @ (a, l) # bs') fs" and "malloc_ok B place"
  shows "heap_inv B (dealloc (firmware_platform B place) a l h) (bs @ bs') fs"
proof (cases "lay_size l = 0")
  case True
  then show ?thesis using assms(1) by (simp add: dealloc_def heap_inv_def)
next
  case False
  let ?h = "dealloc (firmware_platform B place) a l h"
  have ps: "0 < pointer_size B" using assms(2) by (simp add: malloc_ok_def)
  obtain rs1 raw rs2 where rs: "list_all2 (backs B h) (sized bs) rs1" "backs B h (a, l) raw" "list_all2 (backs B h) (sized bs') rs2"
      "distinct ((rs1 @ raw # rs2) @ fs)" "set ((rs1 @ raw # rs2) @ fs) = dom (raw_blocks h)"
    and h: "\<not> bad_free h" "no_overlap h"
  proof -
    assume that: "\<And>rs1 raw rs2. list_all2 (backs B h) (sized bs) rs1 \<Longrightarrow> backs B h (a, l) raw \<Longrightarrow>
      list_all2 (backs B h) (sized bs') rs2 \<Longrightarrow> distinct ((rs1 @ raw # rs2) @ fs) \<Longrightarrow>
      set ((rs1 @ raw # rs2) @ fs) = dom (raw_blocks h) \<Longrightarrow> \<not> bad_free h \<Longrightarrow> no_overlap h \<Longrightarrow> thesis"
    obtain rs where "list_all2 (backs B h) (sized bs @ (a, l) # sized bs') rs" and rest: "distinct (rs @ fs)"
        "set (rs @ fs) = dom (raw_blocks h)" "\<not> bad_free h" "no_overlap h"
      using assms(1) False by (auto simp: heap_inv_def)
    then obtain rs1 raw rs2 where "rs = rs1 @ raw # rs2" "list_all2 (backs B h) (sized bs) rs1" "backs B h (a, l) raw"
        "list_all2 (backs B h) (sized bs') rs2"
      unfolding list_all2_append1 list_all2_Cons1 by blast
    then show thesis using rest by (intro that [of rs1 raw rs2]) simp_all
  qed
  have h': "?h = h\<lparr>raw_blocks := (raw_blocks h)(raw := None)\<rparr>"
    using rs(2) False
    by (auto simp: dealloc_def firmware_platform_def rustscript_platform_dealloc_def backs_def raw_free_def split: if_splits)
  have "list_all2 (backs B ?h) (sized cs) qs" if "list_all2 (backs B h) (sized cs) qs" "raw \<notin> set qs" for cs qs
    using that(1)
  proof (rule list.rel_mono_strong)
    fix b r
    assume "r \<in> set qs" and "backs B h b r"
    then show "backs B ?h b r" using that(2) by (cases b) (auto simp: h' intro: backs_frame)
  qed
  then have "list_all2 (backs B ?h) (sized (bs @ bs')) (rs1 @ rs2)"
    using rs(1,3,4) by (simp add: list_all2_appendI)
  moreover have "distinct ((rs1 @ rs2) @ fs)" using rs(4) by auto
  moreover have "set ((rs1 @ rs2) @ fs) = dom (raw_blocks ?h)" using rs(4,5) by (auto simp: h')
  moreover have "no_overlap ?h" by (rule no_overlap_gone [OF h(2)]) (simp add: h')
  ultimately show ?thesis using h(1) h' unfolding heap_inv_def by (metis raw_heap.select_convs(3) raw_heap.surjective raw_heap.update_convs(1))
qed

lemma inv_free:
  assumes "heap_inv B h bs (fs @ a # fs')"
  shows "heap_inv B (raw_free (Some a) h) bs (fs @ fs')"
proof -
  obtain rs where rs: "list_all2 (backs B h) (sized bs) rs" "distinct (rs @ fs @ a # fs')"
      "set (rs @ fs @ a # fs') = dom (raw_blocks h)"
    and h: "\<not> bad_free h" "no_overlap h" using assms by (auto simp: heap_inv_def)
  have h': "raw_free (Some a) h = h\<lparr>raw_blocks := (raw_blocks h)(a := None)\<rparr>" (is "?h = _")
    using rs(3) by (auto simp: raw_free_def)
  have "list_all2 (backs B ?h) (sized bs) rs"
    using rs(1)
  proof (rule list.rel_mono_strong)
    fix b r
    assume "r \<in> set rs" and "backs B h b r"
    then show "backs B ?h b r" using rs(2) by (cases b) (auto simp: h' intro: backs_frame)
  qed
  moreover have "distinct (rs @ fs @ fs')" using rs(2) by auto
  moreover have "set (rs @ fs @ fs') = dom (raw_blocks ?h)" using rs(2,3) by (auto simp: h')
  moreover have "no_overlap ?h" by (rule no_overlap_gone [OF h(2)]) (simp add: h')
  moreover have "\<not> bad_free ?h" using h(1) h' by simp
  ultimately show ?thesis unfolding heap_inv_def by blast
qed

text \<open>A word that is written inside of a block is in front of no other block: not of one that another block of
  \<open>malloc\<close> backs, and not of itself.\<close>

lemma backs_write:
  assumes "backs B h b raw" and "max_align B < lay_align (snd b) \<Longrightarrow> x \<noteq> fst b - pointer_size B"
  shows "backs B (h\<lparr>raw_words := (raw_words h)(x := v)\<rparr>) b raw"
  using assms by (cases b) (auto intro: backs_frame)

lemma write_elsewhere:
  assumes "backs B h b raw" and "lay_size (snd b) \<noteq> 0" and "0 < pointer_size B" and "raw_blocks h raw = Some k"
    and "raw \<noteq> c" and "no_overlap h" and "raw_blocks h c = Some n" and "c \<le> x" and "x < c + n"
  shows "backs B (h\<lparr>raw_words := (raw_words h)(x := v)\<rparr>) b raw"
proof (rule backs_apart [OF assms(1-4)])
  show "apart raw k c n" using assms(4-7) by (auto simp: no_overlap_def)
qed (use assms in \<open>auto split: if_splits\<close>)

lemma inv_written:
  assumes "heap_inv B h bs fs" and "malloc_ok B place" and "(a, l) \<in> set bs" and "a \<le> x"
    and "x + pointer_size B \<le> a + lay_size l"
  shows "heap_inv B (h\<lparr>raw_words := (raw_words h)(x := v)\<rparr>) bs fs" (is "heap_inv B ?h bs fs")
proof -
  have ps: "0 < pointer_size B" using assms(2) by (simp add: malloc_ok_def)
  obtain rs where rs: "list_all2 (backs B h) (sized bs) rs" "distinct (rs @ fs)" "set (rs @ fs) = dom (raw_blocks h)"
    and h: "\<not> bad_free h" "no_overlap h" using assms(1) by (auto simp: heap_inv_def)
  have "(a, l) \<in> set (sized bs)" using assms(3-5) ps by auto
  then obtain j where j: "j < length (sized bs)" "sized bs ! j = (a, l)" by (metis in_set_conv_nth)
  have own: "backs B h (a, l) (rs ! j)" using rs(1) j by (auto simp: list_all2_conv_all_nth)
  then obtain n where n: "raw_blocks h (rs ! j) = Some n" by (auto simp: backs_def)
  have l: "lay_size l \<noteq> 0" using assms(4,5) ps by auto
  note inside = backs_inside [OF own n l ps]
  have "backs B ?h (sized bs ! i) (rs ! i)" if i: "i < length (sized bs)" for i
  proof (cases "i = j")
    case True
    then show ?thesis using own j(2) inside(3) assms(4) by (auto intro!: backs_write)
  next
    case False
    have r: "backs B h (sized bs ! i) (rs ! i)" using rs(1) i by (auto simp: list_all2_conv_all_nth)
    have "rs ! i \<noteq> rs ! j" using False i j(1) rs(1,2) by (simp add: nth_eq_iff_index_eq list_all2_lengthD)
    moreover obtain k where "raw_blocks h (rs ! i) = Some k" using r by (auto simp: backs_def)
    moreover have "lay_size (snd (sized bs ! i)) \<noteq> 0" using nth_mem [OF i] by simp
    ultimately show ?thesis
      using write_elsewhere [OF r _ ps _ _ h(2) n] inside(1,2) assms(4,5) ps by simp
  qed
  then have "list_all2 (backs B ?h) (sized bs) rs" using rs(1) by (simp add: list_all2_conv_all_nth)
  then show ?thesis using rs(2,3) h by (auto simp: heap_inv_def no_overlap_def)
qed

lemma inv_foreign_written:
  assumes "heap_inv B h bs fs" and "malloc_ok B place" and "a \<in> set fs" and "raw_blocks h a = Some n" and "a \<le> x"
    and "x + pointer_size B \<le> a + n"
  shows "heap_inv B (h\<lparr>raw_words := (raw_words h)(x := v)\<rparr>) bs fs" (is "heap_inv B ?h bs fs")
proof -
  have ps: "0 < pointer_size B" using assms(2) by (simp add: malloc_ok_def)
  obtain rs where rs: "list_all2 (backs B h) (sized bs) rs" "distinct (rs @ fs)" "set (rs @ fs) = dom (raw_blocks h)"
    and h: "\<not> bad_free h" "no_overlap h" using assms(1) by (auto simp: heap_inv_def)
  have "list_all2 (backs B ?h) (sized bs) rs"
    using rs(1)
  proof (rule list.rel_mono_strong)
    fix b r
    assume b: "b \<in> set (sized bs)" and r: "r \<in> set rs" and held: "backs B h b r"
    obtain k where k: "raw_blocks h r = Some k" using backed_live [OF rs(1) r] by blast
    have "r \<noteq> a" using r assms(3) rs(2) by auto
    then show "backs B ?h b r"
      using write_elsewhere [OF held _ ps k _ h(2) assms(4,5)] b assms(6) ps by simp
  qed
  then show ?thesis using rs(2,3) h by (auto simp: heap_inv_def no_overlap_def)
qed

lemma runs_inv:
  assumes "heap_runs B place h bs fs" and "malloc_ok B place"
  shows "heap_inv B h bs fs"
  using assms(1)
proof (induction rule: heap_runs.induct)
  case (start h)
  then show ?case by (auto simp: heap_inv_def no_overlap_def)
next
  case granted
  then show ?case using inv_granted [OF _ assms(2)] by blast
next
  case refused
  then show ?case using inv_refused [OF _ assms(2)] by blast
next
  case given_back
  then show ?case using inv_given_back [OF _ assms(2)] by blast
next
  case written
  then show ?case using inv_written [OF _ assms(2)] by blast
next
  case malloc
  then show ?case using inv_malloc [OF _ assms(2)] by blast
next
  case free
  then show ?case using inv_free by blast
next
  case foreign_written
  then show ?case using inv_foreign_written [OF _ assms(2)] by blast
qed

section \<open>What Rust code relies on\<close>

text \<open>The blocks that have bytes, one by one: each of them is aligned and apart from the others.\<close>

definition usable :: "(addr \<times> layout) list \<Rightarrow> bool" where
  "usable bs \<longleftrightarrow> list_all (\<lambda>(a, l). a \<noteq> 0 \<and> lay_align l dvd a) bs
     \<and> sorted_wrt (\<lambda>(a, l) (b, k). apart a (lay_size l) b (lay_size k)) bs"

lemma inv_usable:
  assumes "heap_inv B h bs fs" and "0 < pointer_size B"
  shows "usable (sized bs)"
proof -
  obtain rs where rs: "list_all2 (backs B h) (sized bs) rs" "distinct (rs @ fs)" and h: "no_overlap h"
    using assms(1) by (auto simp: heap_inv_def)
  have len: "length rs = length (sized bs)" using rs(1) by (simp add: list_all2_lengthD)
  have held: "backs B h (sized bs ! i) (rs ! i)" if "i < length (sized bs)" for i
    using rs(1) that by (auto simp: list_all2_conv_all_nth)
  have "apart (fst (sized bs ! i)) (lay_size (snd (sized bs ! i))) (fst (sized bs ! j)) (lay_size (snd (sized bs ! j)))"
    if "i < j" "j < length (sized bs)" for i j
  proof -
    obtain a l b k where ab: "sized bs ! i = (a, l)" "sized bs ! j = (b, k)" by fastforce
    have sizes: "lay_size l \<noteq> 0" "lay_size k \<noteq> 0"
      using nth_mem [of i "sized bs"] nth_mem [of j "sized bs"] that ab by simp_all
    have own: "backs B h (a, l) (rs ! i)" "backs B h (b, k) (rs ! j)" using held [of i] held [of j] that ab by simp_all
    then obtain m n where live: "raw_blocks h (rs ! i) = Some m" "raw_blocks h (rs ! j) = Some n"
      by (auto simp: backs_def)
    have "rs ! i \<noteq> rs ! j" using rs(2) that len by (simp add: nth_eq_iff_index_eq)
    then have "apart (rs ! i) m (rs ! j) n" using h live by (simp add: no_overlap_def)
    then show ?thesis
      using backs_inside(1,2) [OF own(1) live(1) sizes(1) assms(2)] backs_inside(1,2) [OF own(2) live(2) sizes(2) assms(2)] ab
      by (auto simp: apart_def)
  qed
  moreover have "fst b \<noteq> 0 \<and> lay_align (snd b) dvd fst b" if "b \<in> set (sized bs)" for b
  proof -
    from that obtain i where "i < length (sized bs)" "b = sized bs ! i" by (metis in_set_conv_nth)
    with held [of i] show ?thesis by (auto simp: backs_def)
  qed
  ultimately show ?thesis by (auto simp: usable_def list_all_iff sorted_wrt_iff_nth_less split_def)
qed

lemma inv_count:
  assumes "heap_inv B h bs fs"
  shows "card (dom (raw_blocks h)) = length (sized bs) + length fs"
proof -
  obtain rs where rs: "list_all2 (backs B h) (sized bs) rs" "distinct (rs @ fs)" "set (rs @ fs) = dom (raw_blocks h)"
    using assms by (auto simp: heap_inv_def)
  have "card (set (rs @ fs)) = length (rs @ fs)" by (rule distinct_card [OF rs(2)])
  with rs(1,3) show ?thesis by (simp add: list_all2_lengthD)
qed

text \<open>C37. Whatever Rust code does through the global allocator, and C++ code through \<open>malloc\<close>, in any order and
  with any alignments: the blocks with bytes that Rust holds are aligned and do not overlap, \<open>malloc\<close> has exactly
  one live block for each of them and for each block of C++ code, so that none leaks, and \<open>free\<close> was never called
  with anything else.\<close>

theorem global_heap_sound:
  assumes "heap_runs B place h bs fs" and "malloc_ok B place"
  shows "usable (sized bs) \<and> card (dom (raw_blocks h)) = length (sized bs) + length fs \<and> \<not> bad_free h"
proof -
  note inv = runs_inv [OF assms]
  have "0 < pointer_size B" using assms(2) by (simp add: malloc_ok_def)
  then show ?thesis using inv_usable [OF inv] inv_count [OF inv] inv by (simp add: heap_inv_def)
qed

text \<open>A block of 10 bytes aligned to 64 lies behind the word that leads to the block of \<open>malloc\<close>, and Rust writes a
  word into it. A request for no bytes does not reach the platform.\<close>

definition only_place :: "nat \<Rightarrow> raw_heap \<Rightarrow> addr" where
  "only_place n h = (if raw_blocks h = Map.empty \<and> n \<le> 4096 then 32 else 0)"

lemma only_place_ok: "malloc_ok small_abi only_place"
proof -
  have "one_place 0 empty_heap = 32" by (simp add: one_place_def empty_heap_def)
  then have "2 ^ k dvd (32 :: nat)" if "2 ^ k \<le> max_align small_abi" for k
    using one_place_ok that unfolding raw_ok_def by (metis zero_neq_numeral)
  then show ?thesis by (auto simp: malloc_ok_def raw_ok_def only_place_def small_abi_def)
qed

definition cut_heap :: raw_heap where
  "cut_heap = snd (rustscript_platform_alloc small_abi only_place 10 64 empty_heap)"

lemma cut_block: "rustscript_platform_alloc small_abi only_place 10 64 empty_heap = (64, cut_heap)"
  unfolding cut_heap_def
  by (simp add: rustscript_platform_alloc_def raw_malloc_def only_place_def small_abi_def empty_heap_def SIZE_T_MAX_def
      align_up_def Let_def)

theorem global_heap_sound_witness:
  "usable (sized [(1, \<lparr>lay_size = 0, lay_align = 8\<rparr>), (64, \<lparr>lay_size = 10, lay_align = 64\<rparr>)])
   \<and> card (dom (raw_blocks (cut_heap\<lparr>raw_words := (raw_words cut_heap)(66 \<mapsto> 5)\<rparr>)))
     = length (sized [(1, \<lparr>lay_size = 0, lay_align = 8\<rparr>), (64, \<lparr>lay_size = 10, lay_align = 64\<rparr>)]) + length ([] :: addr list)
   \<and> \<not> bad_free (cut_heap\<lparr>raw_words := (raw_words cut_heap)(66 \<mapsto> 5)\<rparr>)"
proof (rule global_heap_sound [OF _ only_place_ok])
  have "heap_runs small_abi only_place empty_heap [] []" by (rule heap_runs.start) (simp_all add: empty_heap_def)
  then have "heap_runs small_abi only_place cut_heap [(64, \<lparr>lay_size = 10, lay_align = 64\<rparr>)] []"
    by (rule heap_runs.granted) (simp_all add: alloc_def firmware_platform_def cut_block fits_usize_def)
  then have "heap_runs small_abi only_place (cut_heap\<lparr>raw_words := (raw_words cut_heap)(66 := Some 5)\<rparr>)
      [(64, \<lparr>lay_size = 10, lay_align = 64\<rparr>)] []"
    by (rule heap_runs.written) (auto simp: small_abi_def)
  then show "heap_runs small_abi only_place (cut_heap\<lparr>raw_words := (raw_words cut_heap)(66 \<mapsto> 5)\<rparr>)
      [(1, \<lparr>lay_size = 0, lay_align = 8\<rparr>), (64, \<lparr>lay_size = 10, lay_align = 64\<rparr>)] []"
    by (rule heap_runs.granted) (simp_all add: alloc_def fits_usize_def)
qed

end
