(* ===== verification/Host.thy ===== *)
theory Host
  imports Vm_Types Transport "HOL-Library.Monad_Syntax"
begin

text \<open>
  Running sources on the host, \<open>src/host.rs\<close>: compiling, running the virtual machine until it
  halts, and rendering errors. The compiler, the machine and the error renderers of the \<open>vm\<close>
  crate are parameters (records \<open>host_vm\<close> and \<open>host_compiler\<close>); the state of the machine
  holds all that a run can change, the standard output included.
\<close>

section \<open>Data\<close>

datatype 'val run_outcome = Halted_With "'val list"

datatype embedded_error = Emb_Compile string | Emb_Runtime string | Emb_Io io_error

definition embedded_error_display :: "embedded_error \<Rightarrow> string" where
  "embedded_error_display e = (case e of
     Emb_Compile msg \<Rightarrow> msg | Emb_Runtime msg \<Rightarrow> msg | Emb_Io err \<Rightarrow> message err)"

datatype host_status = Halted | Yielded | Waiting

record 'j jit_config =
  enabled :: bool
  jit_rest :: 'j

text \<open>\<open>run\<close> and \<open>wait_for_host_op_blocking\<close> may block for ever (\<open>None\<close>).\<close>

record ('p, 'v, 'j, 'err, 'val) host_vm =
  jit_default :: "'j jit_config"
  new_with_jit_config :: "'p \<Rightarrow> 'j jit_config \<Rightarrow> 'v"
  set_runtime_print_sink :: "'v \<Rightarrow> 'v"
  vm_run :: "'v \<Rightarrow> (('err + host_status) \<times> 'v) option"
  wait_for_host_op :: "'v \<Rightarrow> (('err + unit) \<times> 'v) option"
  vm_stack :: "'v \<Rightarrow> 'val list"
  render_vm_error :: "'v \<Rightarrow> 'err \<Rightarrow> string"

definition embedded_jit_config :: "('p, 'v, 'j, 'err, 'val) host_vm \<Rightarrow> 'j jit_config" where
  "embedded_jit_config V = (jit_default V)\<lparr>enabled := False\<rparr>"

definition new_vm :: "('p, 'v, 'j, 'err, 'val) host_vm \<Rightarrow> 'p \<Rightarrow> 'v" where
  "new_vm V p = set_runtime_print_sink V (new_with_jit_config V p (embedded_jit_config V))"

section \<open>Running\<close>

text \<open>The loop of \<open>run_program\<close>: a machine that yields is run again, one that waits is run again
  after the operation it waits for.\<close>

partial_function (option) run_loop :: "('p, 'v, 'j, 'err, 'val) host_vm \<Rightarrow> 'v
    \<Rightarrow> (embedded_error + 'val run_outcome) option" where
  "run_loop V v = do {
     (r, v) \<leftarrow> vm_run V v;
     (case r of
        Inr Halted \<Rightarrow> Some (Inr (Halted_With (vm_stack V v)))
      | Inr Yielded \<Rightarrow> run_loop V v
      | Inr Waiting \<Rightarrow> do {
          (w, v) \<leftarrow> wait_for_host_op V v;
          (case w of
             Inr _ \<Rightarrow> run_loop V v
           | Inl err \<Rightarrow> Some (Inl (Emb_Runtime (render_vm_error V v err))))}
      | Inl err \<Rightarrow> Some (Inl (Emb_Runtime (render_vm_error V v err))))}"

definition run_program :: "('p, 'v, 'j, 'err, 'val) host_vm \<Rightarrow> 'p
    \<Rightarrow> (embedded_error + 'val run_outcome) option" where
  "run_program V p = run_loop V (new_vm V p)"

section \<open>Compiling\<close>

record ('p, 'm, 'e) host_compiler =
  compile_source :: "string \<Rightarrow> 'e source_error + 'p \<times> nat"
  compile_source_file :: "string \<Rightarrow> 'e source_error + 'p \<times> nat"
  compile_source_for_repl :: "string \<Rightarrow> 'e source_error + 'p \<times> nat"
  set_local_count :: "'p \<Rightarrow> nat \<Rightarrow> 'p"
  show_source_error :: "'e source_error \<Rightarrow> string"
  source_map :: "'m"
  add_source :: "string \<Rightarrow> string \<Rightarrow> 'm \<Rightarrow> nat \<times> 'm"
  with_line_span :: "string option \<times> 'e \<Rightarrow> 'm \<Rightarrow> nat \<Rightarrow> string option \<times> 'e"
  render_source_error :: "'m \<Rightarrow> string option \<times> 'e \<Rightarrow> bool \<Rightarrow> string"
  render_compile_error :: "'m \<Rightarrow> 'e \<Rightarrow> bool \<Rightarrow> string"

definition render_source_compile_error :: "('p, 'm, 'e) host_compiler \<Rightarrow> string \<Rightarrow> string
    \<Rightarrow> 'e source_error \<Rightarrow> embedded_error" where
  "render_source_compile_error C path source err =
     (let (source_id, sm) = add_source C path source (source_map C) in
      case err of
        Source_Parse code e \<Rightarrow>
          Emb_Compile (render_source_error C sm (with_line_span C (code, e) sm source_id) True)
      | Source_Compile e \<Rightarrow> Emb_Compile (render_compile_error C sm e True))"

text \<open>Running what a compilation gives.\<close>

definition run_compiled :: "('p, 'v, 'j, 'err, 'val) host_vm \<Rightarrow> ('p, 'm, 'e) host_compiler
    \<Rightarrow> embedded_error + 'p \<times> nat \<Rightarrow> (embedded_error + 'val run_outcome) option" where
  "run_compiled V C compiled = (case compiled of
       Inl e \<Rightarrow> Some (Inl e)
     | Inr (p, locals_count) \<Rightarrow> run_program V (set_local_count C p locals_count))"

definition run_source :: "('p, 'v, 'j, 'err, 'val) host_vm \<Rightarrow> ('p, 'm, 'e) host_compiler \<Rightarrow> string
    \<Rightarrow> (embedded_error + 'val run_outcome) option" where
  "run_source V C source =
     run_compiled V C (map_err (render_source_compile_error C ''<memory>'' source) (compile_source C source))"

definition run_source_file :: "('p, 'v, 'j, 'err, 'val) host_vm \<Rightarrow> ('p, 'm, 'e) host_compiler \<Rightarrow> string
    \<Rightarrow> (embedded_error + 'val run_outcome) option" where
  "run_source_file V C path =
     run_compiled V C (map_err (\<lambda>err. Emb_Compile (show_source_error C err)) (compile_source_file C path))"

definition eval_repl_entry :: "('p, 'v, 'j, 'err, 'val) host_vm \<Rightarrow> ('p, 'm, 'e) host_compiler \<Rightarrow> string
    \<Rightarrow> (embedded_error + 'val run_outcome) option" where
  "eval_repl_entry V C source =
     run_compiled V C (map_err (render_source_compile_error C ''<repl>'' source) (compile_source_for_repl C source))"

section \<open>Properties\<close>

text \<open>One round of the loop that does not end it, and the rounds that do.\<close>

inductive resumes :: "('p, 'v, 'j, 'err, 'val) host_vm \<Rightarrow> 'v \<Rightarrow> 'v \<Rightarrow> bool" for V where
  yielded: "vm_run V v = Some (Inr Yielded, v') \<Longrightarrow> resumes V v v'"
| waited: "vm_run V v = Some (Inr Waiting, v1) \<Longrightarrow> wait_for_host_op V v1 = Some (Inr (), v') \<Longrightarrow> resumes V v v'"

inductive ends :: "('p, 'v, 'j, 'err, 'val) host_vm \<Rightarrow> 'v \<Rightarrow> embedded_error + 'val run_outcome \<Rightarrow> bool"
  for V where
  halted: "vm_run V v = Some (Inr Halted, v') \<Longrightarrow> ends V v (Inr (Halted_With (vm_stack V v')))"
| failed: "vm_run V v = Some (Inl err, v') \<Longrightarrow> ends V v (Inl (Emb_Runtime (render_vm_error V v' err)))"
| wait_failed: "vm_run V v = Some (Inr Waiting, v1) \<Longrightarrow> wait_for_host_op V v1 = Some (Inl err, v') \<Longrightarrow>
    ends V v (Inl (Emb_Runtime (render_vm_error V v' err)))"

lemma run_loop_resumes: "resumes V v v' \<Longrightarrow> run_loop V v = run_loop V v'"
  by (induction rule: resumes.induct) (simp_all add: run_loop.simps [of V v] run_loop.simps)

lemma run_loop_ends: "ends V v r \<Longrightarrow> run_loop V v = Some r"
  by (induction rule: ends.induct) (simp_all add: run_loop.simps)

lemma run_loop_reached: "(resumes V)\<^sup>*\<^sup>* v v' \<Longrightarrow> run_loop V v = run_loop V v'"
  by (induction rule: converse_rtranclp_induct) (simp_all add: run_loop_resumes)

lemma run_loop_returned:
  assumes "run_loop V v = Some r"
  shows "\<exists>v'. (resumes V)\<^sup>*\<^sup>* v v' \<and> ends V v' r"
proof (rule run_loop.raw_induct [of "\<lambda>V v r. \<exists>v'. (resumes V)\<^sup>*\<^sup>* v v' \<and> ends V v' r", OF _ assms], goal_cases)
  case (1 loop V v r)
  have again: "\<exists>v'. (resumes V)\<^sup>*\<^sup>* v v' \<and> ends V v' r" if "resumes V v v1" "loop V v1 = Some r" for v1
    using 1(1) [OF that(2)] that(1) by (meson converse_rtranclp_into_rtranclp)
  have now: "\<exists>v'. (resumes V)\<^sup>*\<^sup>* v v' \<and> ends V v' r" if "ends V v r"
    using that by blast
  from 1(2) obtain res v1 where run: "vm_run V v = Some (res, v1)"
    by (auto simp: Option.bind_eq_Some_conv)
  note step = 1(2) [unfolded run, simplified]
  show ?case
  proof (cases res)
    case (Inl err)
    then show ?thesis using step run now ends.failed [of V v err v1] by auto
  next
    case (Inr st)
    show ?thesis
    proof (cases st)
      case Halted
      then show ?thesis using step run Inr now ends.halted [of V v v1] by auto
    next
      case Yielded
      then show ?thesis using step run Inr again [OF resumes.yielded] by auto
    next
      case Waiting
      then obtain w v2 where w: "wait_for_host_op V v1 = Some (w, v2)"
        using step Inr by (auto simp: Option.bind_eq_Some_conv)
      show ?thesis
      proof (cases w)
        case (Inl err)
        then show ?thesis using step run w Inr Waiting now ends.wait_failed [of V v v1 err v2] by auto
      next
        case (Inr u)
        then show ?thesis
          using step run w \<open>res = Inr st\<close> Waiting again [OF resumes.waited, of v1 v2] by auto
      qed
    qed
  qed
qed

text \<open>C28. \<open>run_program\<close> returns a result exactly when the machine, after
  finitely many yields and completed host operations, halts, fails, or has an operation fail,
  and the result is that of this last round: the stack of the halted machine, or the rendered
  error. Until then it goes on running, and it never returns on anything else.\<close>

theorem run_program_returns_iff:
  "(run_program V p = Some r) = (\<exists>v. (resumes V)\<^sup>*\<^sup>* (new_vm V p) v \<and> ends V v r)"
  unfolding run_program_def
  using run_loop_returned run_loop_ends run_loop_reached by metis

text \<open>A progress measure: yields and waits are numbered downwards.\<close>

definition makes_progress :: "('p, 'v, 'j, 'err, 'val) host_vm \<Rightarrow> ('v \<Rightarrow> nat) \<Rightarrow> bool" where
  "makes_progress V left \<longleftrightarrow> (\<forall>v. \<exists>r v'. vm_run V v = Some (r, v') \<and>
     (r = Inr Yielded \<longrightarrow> left v' < left v) \<and>
     (r = Inr Waiting \<longrightarrow> (\<exists>w v''. wait_for_host_op V v' = Some (w, v'') \<and> left v'' < left v)))"

lemma run_loop_total: "makes_progress V left \<Longrightarrow> \<exists>r. run_loop V v = Some r"
proof (induction "left v" arbitrary: v rule: less_induct)
  case less
  then obtain r v1 where r: "vm_run V v = Some (r, v1)" "r = Inr Yielded \<Longrightarrow> left v1 < left v"
      "r = Inr Waiting \<Longrightarrow> \<exists>w v2. wait_for_host_op V v1 = Some (w, v2) \<and> left v2 < left v"
    by (metis makes_progress_def)
  show ?case
  proof (cases r)
    case (Inl err)
    then show ?thesis using r(1) run_loop_ends ends.failed by metis
  next
    case (Inr st)
    show ?thesis
    proof (cases st)
      case Halted
      then show ?thesis using r(1) Inr run_loop_ends ends.halted by metis
    next
      case Yielded
      then have "run_loop V v = run_loop V v1" using r(1) Inr run_loop_resumes resumes.yielded by metis
      then show ?thesis using less r(2) Inr Yielded by auto
    next
      case Waiting
      then obtain w v2 where w: "wait_for_host_op V v1 = Some (w, v2)" "left v2 < left v" using r(3) Inr by blast
      show ?thesis
      proof (cases w)
        case (Inl err)
        then show ?thesis using r(1) w Inr Waiting run_loop_ends ends.wait_failed \<open>r = Inr st\<close> by metis
      next
        case (Inr u)
        then have "run_loop V v = run_loop V v2"
          using r(1) w \<open>r = Inr st\<close> Waiting run_loop_resumes resumes.waited by (metis old.unit.exhaust)
        then show ?thesis using less w(2) by auto
      qed
    qed
  qed
qed

text \<open>When every run of the machine comes back and a machine can yield or wait only
  so many times, evaluating a source returns: with the stack of a halted machine, a runtime error,
  or a compile error; and it is a compile error exactly when the source does not compile. An
  input or output error is never made up.\<close>

theorem host_run_returns:
  assumes "makes_progress V left"
  shows "\<exists>r. eval_repl_entry V C source = Some r \<and>
    (case r of
       Inl (Emb_Compile _) \<Rightarrow> (\<exists>err. compile_source_for_repl C source = Inl err)
     | Inl (Emb_Io _) \<Rightarrow> False
     | _ \<Rightarrow> (\<exists>compiled. compile_source_for_repl C source = Inr compiled))"
proof (cases "compile_source_for_repl C source")
  case (Inl err)
  then show ?thesis
    by (cases err) (simp_all add: eval_repl_entry_def run_compiled_def render_source_compile_error_def split: prod.split)
next
  case (Inr compiled)
  obtain p n where c: "compiled = (p, n)" by fastforce
  obtain r where r: "run_program V (set_local_count C p n) = Some r"
    using run_loop_total [OF assms] unfolding run_program_def by blast
  then obtain v where "ends V v r" using run_loop_returned unfolding run_program_def by meson
  then show ?thesis using Inr c r
    by (cases rule: ends.cases) (simp_all add: eval_repl_entry_def run_compiled_def)
qed

text \<open>A machine that yields as often as its program says.\<close>

definition countdown_vm :: "(nat, nat, unit, unit, nat) host_vm" where
  "countdown_vm = \<lparr>jit_default = \<lparr>enabled = True, jit_rest = ()\<rparr>,
     new_with_jit_config = (\<lambda>p c. if enabled c then 0 else p), set_runtime_print_sink = (\<lambda>v. v),
     vm_run = (\<lambda>v. Some (if v = 0 then Inr Halted else Inr Yielded, v - 1)),
     wait_for_host_op = (\<lambda>v. None), vm_stack = (\<lambda>v. [v]), render_vm_error = (\<lambda>_ _. '''')\<rparr>"

definition demo_compiler :: "(nat, unit, unit) host_compiler" where
  "demo_compiler = \<lparr>compile_source = (\<lambda>s. Inr (length s, 0)), compile_source_file = (\<lambda>s. Inr (length s, 0)),
     compile_source_for_repl = (\<lambda>s. Inr (length s, 0)), set_local_count = (\<lambda>p _. p),
     show_source_error = (\<lambda>_. ''''), source_map = (), add_source = (\<lambda>_ _ m. (0, m)),
     with_line_span = (\<lambda>e _ _. e), render_source_error = (\<lambda>_ _ _. ''''), render_compile_error = (\<lambda>_ _ _. '''')\<rparr>"

theorem host_run_returns_witness:
  "\<exists>r. eval_repl_entry countdown_vm demo_compiler ''abc'' = Some r \<and>
    (case r of
       Inl (Emb_Compile _) \<Rightarrow> (\<exists>err. compile_source_for_repl demo_compiler ''abc'' = Inl err)
     | Inl (Emb_Io _) \<Rightarrow> False
     | _ \<Rightarrow> (\<exists>compiled. compile_source_for_repl demo_compiler ''abc'' = Inr compiled))"
  by (rule host_run_returns [of countdown_vm "\<lambda>v. v"]) (simp add: makes_progress_def countdown_vm_def)

end
