(* ===== verification/Tools.thy ===== *)
theory Tools
  imports Console Host
begin

text \<open>
  The other programs of the repository: the compiler that writes VMBC files
  (\<open>src/bin/rustscript-compile-vmbc.rs\<close>), and the two examples that run sources on the host
  (\<open>examples/repl.rs\<close>, \<open>examples/run_file.rs\<close>), with the properties of each.
\<close>

section \<open>Paths\<close>

text \<open>\<open>Path::parent\<close> on Unix. The path is read from its end: trailing separators and \<open>.\<close>
  components do not count.\<close>

abbreviation slash :: char where "slash \<equiv> CHR 0x2F"

fun trim_path :: "string \<Rightarrow> string" where
  "trim_path [] = []"
| "trim_path [c] = [c]"
| "trim_path (c # d # cs) =
     (if c = slash \<or> c = CHR ''.'' \<and> d = slash then trim_path (d # cs) else c # d # cs)"

definition path_parent :: "string \<Rightarrow> string option" where
  "path_parent s = (let t = trim_path (rev s) in
     if t = [] \<or> t = [slash] then None
     else Some (rev (trim_path (dropWhile (\<lambda>c. c \<noteq> slash) t))))"

section \<open>The compiler\<close>

record ('p, 'ce, 'ee, 'w) compiler_env =
  compile_file :: "string \<Rightarrow> 'w \<Rightarrow> 'ce + 'p"
  encode_vmbc :: "'p \<Rightarrow> 'ee + u8 list"
  debug_compile :: "'ce \<Rightarrow> string"
  debug_encode :: "'ee \<Rightarrow> string"
  create_dir_all :: "string \<Rightarrow> 'w \<Rightarrow> (io_error + unit) \<times> 'w"
  write_file :: "string \<Rightarrow> u8 list \<Rightarrow> 'w \<Rightarrow> (io_error + unit) \<times> 'w"

definition io_other :: "string \<Rightarrow> io_error" where
  "io_other msg = Io_Error (OtherKind ''Other'') msg"

definition compile_args :: "string list \<Rightarrow> io_error + string \<times> string" where
  "compile_args args = (case args of
       [] \<Rightarrow> Inl (Io_Error InvalidInput ''missing input RSS path'')
     | [_] \<Rightarrow> Inl (Io_Error InvalidInput ''missing output VMBC path'')
     | [source, out] \<Rightarrow> Inr (source, out)
     | _ \<Rightarrow> Inl (Io_Error InvalidInput ''too many arguments''))"

definition compile_bytes :: "('p, 'ce, 'ee, 'w) compiler_env \<Rightarrow> string \<Rightarrow> 'w \<Rightarrow> io_error + u8 list" where
  "compile_bytes F source w =
     and_then (map_err (\<lambda>e. io_other (''failed to compile '' @ source @ '': '' @ debug_compile F e))
       (compile_file F source w)) (\<lambda>p.
     map_err (\<lambda>e. io_other (''failed to encode VMBC: '' @ debug_encode F e)) (encode_vmbc F p))"

definition compile_main :: "'w console \<Rightarrow> ('p, 'ce, 'ee, 'w) compiler_env \<Rightarrow> string list
    \<Rightarrow> (io_error, unit, 'w) action" where
  "compile_main C F args w = (case compile_args args of
       Inl e \<Rightarrow> Returned (Inl e, w)
     | Inr (source, out) \<Rightarrow>
         (case compile_bytes F source w of
            Inl e \<Rightarrow> Returned (Inl e, w)
          | Inr encoded \<Rightarrow>
              act_then (case path_parent out of
                  Some parent \<Rightarrow> act_try (create_dir_all F parent) | None \<Rightarrow> act ()) (\<lambda>_.
              act_then (act_try (write_file F out encoded)) (\<lambda>_.
              print_line C (''wrote '' @ show_nat (length encoded) @ '' bytes to '' @ out))) w))"

section \<open>The example programs\<close>

datatype example_error = Ex_Io io_error | Ex_Run embedded_error

text \<open>One line of the example REPL: \<open>None\<close> when the evaluation does not return, \<open>Some False\<close> to
  leave the loop. An error of the evaluation leaves the program (\<open>eval_repl_entry(source)?\<close>).
  What the script prints is part of the machine's state.\<close>

definition example_line :: "'w console \<Rightarrow> ('p, 'v, 'j, 'err, 'val) host_vm \<Rightarrow> ('p, 'm, 'e) host_compiler
    \<Rightarrow> ('val \<Rightarrow> string) \<Rightarrow> string \<Rightarrow> (example_error, bool, 'w) action option" where
  "example_line C V K render_value line = (let source = trim line in
     if source = '''' then Some (act True)
     else if source = ''.quit'' \<or> source = ''.exit'' then Some (act False)
     else if source = ''.help'' then
       Some (act_then (print_line C ''enter RustScript statements, for example: print(1 + 2);'') (\<lambda>_. act True))
     else map_option (\<lambda>r. case r of
         Inl e \<Rightarrow> (\<lambda>w. Returned (Inl (Ex_Run e), w))
       | Inr (Halted_With vs) \<Rightarrow>
           act_then (print_line C (if vs \<noteq> [] then ''=> '' @ render_value (last vs) else ''=> <empty>''))
             (\<lambda>_. act True))
       (eval_repl_entry V K source))"

text \<open>An operation of the console under the error type of the program.\<close>

definition ex_io :: "('w \<Rightarrow> (io_error + 'a) \<times> 'w) \<Rightarrow> (example_error, 'a, 'w) action" where
  "ex_io m w = (case m w of (r, w) \<Rightarrow> Returned (map_err Ex_Io r, w))"

definition example_prompt :: "'w console \<Rightarrow> (example_error, string, 'w) action" where
  "example_prompt C =
     act_then (print_text C ''rs-emb> '') (\<lambda>_.
     act_then (ex_io (flush_out C)) (\<lambda>_. ex_io (read_line_op C)))"

partial_function (option) example_loop :: "'w console \<Rightarrow> ('p, 'v, 'j, 'err, 'val) host_vm
    \<Rightarrow> ('p, 'm, 'e) host_compiler \<Rightarrow> ('val \<Rightarrow> string) \<Rightarrow> 'w
    \<Rightarrow> ((example_error + unit) \<times> 'w) outcome option" where
  "example_loop C V K render_value w = (case example_prompt C w of
       Panicked \<Rightarrow> Some Panicked
     | Returned (r, w) \<Rightarrow> (case r of
           Inl e \<Rightarrow> Some (Returned (Inl e, w))
         | Inr line \<Rightarrow>
             if line = '''' then Some (print_line C '''' w)
             else (case example_line C V K render_value line of
                 None \<Rightarrow> None
               | Some m \<Rightarrow> (case m w of
                     Panicked \<Rightarrow> Some Panicked
                   | Returned (r, w) \<Rightarrow> (case r of
                         Inl e \<Rightarrow> Some (Returned (Inl e, w))
                       | Inr go \<Rightarrow>
                           if go then example_loop C V K render_value w else Some (Returned (Inr (), w)))))))"

definition example_main :: "'w console \<Rightarrow> ('p, 'v, 'j, 'err, 'val) host_vm \<Rightarrow> ('p, 'm, 'e) host_compiler
    \<Rightarrow> ('val \<Rightarrow> string) \<Rightarrow> 'w \<Rightarrow> ((example_error + unit) \<times> 'w) outcome option" where
  "example_main C V K render_value w =
     (case act_then (print_line C ''RustScript embedded REPL (JIT off)'')
         (\<lambda>_. print_line C ''commands: .help, .quit'') w of
        Panicked \<Rightarrow> Some Panicked
      | Returned (Inl e, w) \<Rightarrow> Some (Returned (Inl e, w))
      | Returned (Inr _, w) \<Rightarrow> example_loop C V K render_value w)"

text \<open>\<open>run_file\<close>: the exit status, 64 for a missing argument; the arguments start with the name of
  the program.\<close>

definition run_file_main :: "'w console \<Rightarrow> ('p, 'v, 'j, 'err, 'val) host_vm \<Rightarrow> ('p, 'm, 'e) host_compiler
    \<Rightarrow> ('val \<Rightarrow> string) \<Rightarrow> string list \<Rightarrow> (embedded_error, nat, 'w) action option" where
  "run_file_main C V K render_value args =
     (let binary = (case args of [] \<Rightarrow> '''' | b # _ \<Rightarrow> b) in
      case args of
        _ # path # _ \<Rightarrow>
          map_option (\<lambda>r. case r of
              Inl e \<Rightarrow> (\<lambda>w. Returned (Inl e, w))
            | Inr (Halted_With vs) \<Rightarrow>
                if vs \<noteq> [] then act_then (eprint_line C (''final: '' @ render_value (last vs))) (\<lambda>_. act 0)
                else act 0)
            (run_source_file V K path)
      | _ \<Rightarrow> Some (act_then (eprint_line C (''usage: '' @ binary @ '' <program.rss>'')) (\<lambda>_. act 64)))"

section \<open>Properties\<close>

definition plain_name :: "string \<Rightarrow> bool" where
  "plain_name n \<longleftrightarrow> n \<noteq> '''' \<and> n \<noteq> ''.'' \<and> slash \<notin> set n"

definition tidy_dir :: "string \<Rightarrow> bool" where
  "tidy_dir d \<longleftrightarrow> d \<noteq> '''' \<and> last d \<noteq> slash \<and> \<not> ends_with d ''/.''"

lemma trim_path_plain: "c \<noteq> slash \<Longrightarrow> c \<noteq> CHR ''.'' \<or> hd (cs @ [CHR ''x'']) \<noteq> slash \<Longrightarrow> trim_path (c # cs) = c # cs"
  by (cases cs) auto

lemma trim_path_name:
  assumes "plain_name n"
  shows "trim_path (rev n @ slash # r) = rev n @ slash # r"
proof -
  obtain c cs where c: "rev n = c # cs" using assms by (cases "rev n") (auto simp: plain_name_def)
  then have "set (c # cs) = set n" using set_rev [of n] by simp
  then have ns: "c \<noteq> slash" "slash \<notin> set cs" using assms by (auto simp: plain_name_def)
  show ?thesis
  proof (cases cs)
    case Nil
    then have "n = [c]" using c by (metis rev.simps rev_rev_ident append_Nil)
    then show ?thesis using c ns assms Nil by (simp add: plain_name_def)
  next
    case (Cons d ds)
    then show ?thesis using c ns by auto
  qed
qed

lemma trim_path_dir:
  assumes "tidy_dir d"
  shows "trim_path (rev d) = rev d"
proof -
  obtain c cs where c: "rev d = c # cs" using assms by (cases "rev d") (auto simp: tidy_dir_def)
  then have d: "d = rev cs @ [c]" by (metis rev.simps(2) rev_rev_ident)
  show ?thesis
  proof (cases cs)
    case (Cons b bs)
    then show ?thesis using assms c d by (auto simp: tidy_dir_def ends_with_def)
  qed (simp add: c)
qed

lemma plain_name_tidy: "plain_name n \<Longrightarrow> tidy_dir n"
  unfolding plain_name_def tidy_dir_def ends_with_def
  by (metis in_set_dropD last_in_set list.set_intros(1))

text \<open>The directory the compiler creates is the path without its last
  component: a file in a directory gives the directory, a file at the root the root, a bare name
  the empty path.\<close>

theorem output_directory:
  assumes "plain_name n" and "tidy_dir d"
  shows "path_parent (d @ slash # n) = Some d \<and> path_parent (slash # n) = Some [slash] \<and> path_parent n = Some ''''"
proof -
  have ns: "\<forall>c\<in>set (rev n). c \<noteq> slash" using assms(1) by (auto simp: plain_name_def)
  have drop: "dropWhile (\<lambda>c. c \<noteq> slash) (rev n @ slash # r) = slash # r" for r
    using ns by (subst dropWhile_append2) auto
  have ne: "rev n \<noteq> []" using assms(1) by (simp add: plain_name_def)
  obtain c cs where c: "rev d = c # cs" using assms(2) by (cases "rev d") (auto simp: tidy_dir_def)
  have "path_parent (d @ slash # n) = Some d"
    using trim_path_name [OF assms(1)] trim_path_dir [OF assms(2)] drop ne c
    by (simp add: path_parent_def Let_def)
  moreover have "path_parent (slash # n) = Some [slash]"
    using trim_path_name [OF assms(1), of "[]"] drop [of "[]"] ne
    by (simp add: path_parent_def Let_def)
  moreover have "path_parent n = Some ''''"
  proof -
    have t: "trim_path (rev n) = rev n"
      by (rule trim_path_dir [OF plain_name_tidy [OF assms(1)]])
    have d: "dropWhile (\<lambda>c. c \<noteq> slash) (rev n) = []" using ns by simp
    have "rev n \<noteq> [slash]" by (metis list.set_intros(1) ns)
    with ne show ?thesis by (simp only: path_parent_def Let_def t d trim_path.simps simp_thms if_False rev.simps)
  qed
  ultimately show ?thesis by simp
qed

theorem output_directory_witness:
  "path_parent (''build/out'' @ slash # ''a.vmbc'') = Some ''build/out'' \<and>
    path_parent (slash # ''a.vmbc'') = Some [slash] \<and> path_parent ''a.vmbc'' = Some ''''"
  by (rule output_directory) (simp_all add: plain_name_def tidy_dir_def ends_with_def)

text \<open>The compiler program succeeds exactly on two arguments whose source
  compiles and encodes and whose directory and file can be written; the file then holds the
  encoded program, and the message is the last thing it does.\<close>

theorem compile_writes_program:
  "(compile_main C F args w = Returned (Inr (), w')) =
   (\<exists>source out encoded w1 w2. args = [source, out] \<and> compile_bytes F source w = Inr encoded \<and>
      (case path_parent out of Some parent \<Rightarrow> create_dir_all F parent w = (Inr (), w1) | None \<Rightarrow> w1 = w) \<and>
      write_file F out encoded w1 = (Inr (), w2) \<and>
      print_op C (''wrote '' @ show_nat (length encoded) @ '' bytes to '' @ out @ [CHR 0x0A]) w2 = Returned w')"
  by (auto simp: compile_main_def compile_args_def act_then_def act_try_def act_def print_line_def
      print_text_def split: list.splits sum.splits outcome.splits option.splits prod.splits)

text \<open>A wrong number of arguments, a source that does not compile and a
  program that does not encode are reported before anything is written.\<close>

theorem failed_compile_writes_nothing:
  assumes "\<And>source out. args = [source, out] \<Longrightarrow> \<exists>e. compile_bytes F source w = Inl e"
  shows "\<exists>e. compile_main C F args w = Returned (Inl e, w)"
  using assms
  by (auto simp: compile_main_def compile_args_def split: list.split sum.split)

definition demo_files :: "(unit, unit, unit, script) compiler_env" where
  "demo_files = \<lparr>compile_file = (\<lambda>s w. if s = ''ok.rss'' then Inr () else Inl ()), encode_vmbc = (\<lambda>_. Inr [1]),
     debug_compile = (\<lambda>_. ''E''), debug_encode = (\<lambda>_. ''E''),
     create_dir_all = (\<lambda>d w. (Inr (), w\<lparr>written := written w @ ''mkdir''\<rparr>)),
     write_file = (\<lambda>f bs w. (Inr (), w\<lparr>written := written w @ ''file''\<rparr>))\<rparr>"

theorem failed_compile_writes_nothing_witness:
  "\<exists>e. compile_main script_console demo_files [''bad.rss'', ''a.vmbc''] \<lparr>lines = [], written = ''''\<rparr>
    = Returned (Inl e, \<lparr>lines = [], written = ''''\<rparr>)"
  by (rule failed_compile_writes_nothing) (simp add: compile_bytes_def demo_files_def)

lemma print_then_keeps:
  assumes "input_ends C left" and "act_then (print_line C s) (\<lambda>_. act a) w = Returned (Inr b, w')"
  shows "left w' = left w"
  using assms by (auto simp: act_then_def act_def print_line_def print_text_def input_ends_def split: outcome.splits)

lemma example_round_takes_line:
  assumes "input_ends C left" and "example_prompt C w = Returned (Inr line, w1)" and "line \<noteq> ''''"
    and "example_line C V K rv line = Some m" and "m w1 = Returned (Inr go, w')"
  shows "left w' < left w"
proof -
  have "left w1 < left w"
  proof -
    from assms(2) obtain wa wb where s: "print_op C ''rs-emb> '' w = Returned wa" "flush_out C wa = (Inr (), wb)"
        "read_line_op C wb = (Inr line, w1)"
      by (auto simp: example_prompt_def act_then_def ex_io_def print_text_def
          split: outcome.splits sum.splits prod.splits)
    then have "left wa = left w" "left wb = left wa" "left w1 < left wb"
      using assms(1,3) unfolding input_ends_def by blast+
    then show ?thesis by simp
  qed
  moreover have "left w' \<le> left w1"
    using assms(4,5)
    by (cases "eval_repl_entry V K (trim line)")
      (auto simp: example_line_def Let_def act_def split: if_splits sum.splits run_outcome.splits
        dest!: print_then_keeps [OF assms(1)])
  ultimately show ?thesis by simp
qed

text \<open>The example REPL ends when its input does, provided each machine halts or fails
  after finitely many yields; and the first entry with an error ends it at once, with that error.\<close>

theorem example_repl_ends:
  assumes "input_ends C left" and "makes_progress V steps"
  shows "(\<exists>r. example_loop C V K render_value w = Some r) \<and>
    (\<forall>line w1 e. example_prompt C w = Returned (Inr line, w1) \<longrightarrow> line \<noteq> '''' \<longrightarrow>
       trim line \<notin> {'''', ''.quit'', ''.exit'', ''.help''} \<longrightarrow> eval_repl_entry V K (trim line) = Some (Inl e) \<longrightarrow>
       example_loop C V K render_value w = Some (Returned (Inl (Ex_Run e), w1)))"
proof (rule conjI)
  show "\<exists>r. example_loop C V K render_value w = Some r"
  proof (induction "left w" arbitrary: w rule: less_induct)
    case less
    have "\<exists>r. eval_repl_entry V K s = Some r" for s
      unfolding eval_repl_entry_def run_compiled_def run_program_def
      using run_loop_total [OF assms(2)] by (auto split: sum.split)
    then have "\<exists>m. example_line C V K render_value line = Some m" for line
      by (fastforce simp: example_line_def Let_def)
    then show ?case
      using less example_round_takes_line [OF assms(1)]
      by (subst example_loop.simps) (fastforce split: outcome.split prod.split sum.split option.split)
  qed
qed (simp add: example_loop.simps example_line_def Let_def)

theorem example_repl_ends_witness:
  "\<exists>r. example_loop script_console countdown_vm demo_compiler (\<lambda>_. ''v'') \<lparr>lines = [''abc''], written = []\<rparr> = Some r"
  using example_repl_ends [OF script_ends, of countdown_vm "\<lambda>v. v" demo_compiler "\<lambda>_. ''v''"]
  by (simp add: makes_progress_def countdown_vm_def)

end
