(* ===== verification/Spec2Isabelle.thy ===== *)
theory Spec2Isabelle
  imports Wire_Safety Transport_Safety Session_Safety Input Render_Safety Serial_Cli_Safety
    Line Scripts Global_Heap Host Tools
begin

text \<open>
  \<^bold>\<open>micro-rustscript: the REPL, its protocol, and the firmware behind it.\<close>

  The crate runs RustScript programs on a host and on microcontrollers. A user types a snippet
  at the serial REPL; the host compiles it against the locals of the session and sends the program
  and the values of the locals over a serial line. The firmware of the board reads the request and
  runs it through the C interface of the crate; while it runs, the program calls host functions of
  the firmware, which drive pins, buses and radios. The host takes over the values that come back.
  The firmware also loads a program from flash or from an SD card when it starts, and installs
  new ones that arrive on the line. The development models all of that, from the line the user
  types to the drivers and the memory of the board, function by function.

  \<^bold>\<open>Theories and sources\<close> (paths under \<open>src/\<close> of the repository; Rust files under \<open>src/src/\<close>):

    \<^item> \<open>Prelude\<close>, \<open>Rust_Str\<close>: machine integers, \<open>Result\<close> and \<open>?\<close>, slices, little-endian
      codecs (locale \<open>fixed_codec\<close>, interpreted at three widths), UTF-8 strings, trimming,
      decimal text.
    \<^item> \<open>Wire\<close> (\<open>repl_wire.rs\<close>): the values of the protocol, both encoders and the bounded
      decoder. \<open>Wire_Props\<close> has the byte-level grammar and the locale \<open>payload_codec\<close>,
      interpreted on the state and response formats; \<open>Wire_Safety\<close> the properties.
    \<^item> \<open>Crc\<close>, \<open>Transport\<close> (\<open>repl_client.rs\<close>): checksums and \<open>SerialReplTransport\<close>, over
      any stream of bytes. \<open>Transport_Props\<close> states what is expected of a stream (locale
      \<open>byte_stream\<close>); \<open>Transport_Safety\<close> interprets it on the in-memory stream of the tests.
    \<^item> \<open>Btree\<close>, \<open>Vm_Types\<close>: ordered maps (locale \<open>ordered_map\<close>, interpreted on sorted
      association lists) and the data of the \<open>vm\<close> crate that the sources read.
    \<^item> \<open>Moves\<close>, \<open>Session\<close> (\<open>repl_client.rs\<close>): the walk over the bytecode that finds moved
      locals, and \<open>SerialReplSession\<close>. Lemmas in \<open>Session_Props\<close>, properties in
      \<open>Session_Safety\<close>.
    \<^item> \<open>Input\<close> (\<open>is_repl_input_complete\<close>) and \<open>Render\<close>, \<open>Render_Safety\<close>
      (\<open>format_repl_value\<close>, with Rust's shortest decimal text of an \<open>f64\<close>).
    \<^item> \<open>Memory\<close>, \<open>Ffi_Value\<close>, \<open>Ffi_Run\<close> (\<open>ffi.rs\<close>): raw pointers, values of the C
      interface, and the three exported functions. \<open>Evaluation\<close> says what it means to evaluate a
      snippet, by relations that use none of that code (\<open>evaluates\<close>), and shows that the code
      computes them; properties in \<open>Ffi_Value_Safety\<close> and \<open>Ffi_Safety\<close>. \<open>Allocator\<close> is \<open>allocator.rs\<close>, and \<open>Platform\<close> what the firmware
      puts below it (\<open>firmware/main.cpp\<close>), in the wrapping arithmetic of a 32-bit \<open>size_t\<close>, with its
      equivalence to exact arithmetic (\<open>alloc_exact\<close>); \<open>Global_Heap\<close> is the two of them over \<open>malloc\<close>, as a
      system of steps (\<open>heap_runs\<close>) with its invariant.
    \<^item> \<open>Host_Contract\<close>: what the C interface, the machine and the host functions owe each other.
      \<open>Host_Functions\<close>, \<open>Host_Functions_Safety\<close> (\<open>firmware/host_framework.cpp\<close>): the table
      of host functions, each of them with its checks, and that they keep this contract.
    \<^item> \<open>Board\<close>: the serial port, the flash and the SD card as the firmware finds them.
      \<open>Firmware\<close> (\<open>firmware/script_loader.cpp\<close>, and the start in \<open>firmware/main.cpp\<close>): the
      loader and the serial REPL. \<open>Firmware_Props\<close> (locales \<open>serial_port\<close>, \<open>firmware_board\<close>,
      \<open>trusted_board\<close>) has the frames, \<open>Firmware_Safety\<close> the properties of a round and of all
      rounds after a start (\<open>reaches\<close>), \<open>Flash_Safety\<close> those of the script partition (locale
      \<open>nor_flash\<close>). \<open>Sim_Board\<close> interprets every one of these locales on a board in memory,
      with the host functions of the firmware.
    \<^item> \<open>Scripts\<close> (\<open>scripts/vmbc_image.py\<close>, \<open>scripts/repl_vmbc.py\<close>): the image and the command that the
      Python tools make, which the firmware takes apart.
    \<^item> \<open>Host\<close> (\<open>host.rs\<close>): compiling and running on the host until the machine halts.
    \<^item> \<open>Console\<close>, \<open>Serial_Cli\<close>, \<open>Serial_Cli_Safety\<close>
      (\<open>bin/rustscript-serial-repl.rs\<close>) and \<open>Tools\<close> (\<open>bin/rustscript-compile-vmbc.rs\<close> and
      the two examples): the programs, over a console of effects.
    \<^item> \<open>Line\<close> connects the transport of the host with the rounds of the firmware; this theory
      composes session, transport, firmware, C interface and machine.

  \<^bold>\<open>Conventions.\<close> A fallible function returns \<open>'e + 'a\<close>; a panic is \<open>Panicked\<close> of
  \<open>outcome\<close>; unsafe Rust and C++ end in a \<open>c_outcome\<close>, whose \<open>Undefined\<close> is undefined behaviour
  and whose \<open>Diverges\<close> is not returning; a loop that may not end is a \<open>partial_function\<close>
  into \<open>option\<close> (the host's \<open>run_loop\<close>, the serial and example loops, the firmware's
  \<open>discard_loop\<close>, and \<open>serve_pending\<close>, the firmware while input is left). State is passed along:
  the decoder, the stream, the session, the world of the board.
  Integers are words of their width; \<open>usize\<close> is \<open>nat\<close> with the target's maximum where the
  code checks it. No fuel is used: every other loop has a termination proof, the two nested
  loops of \<open>execute\<close> by the 64 KiB bound on the device output, the decoder by its nesting
  limit of 32, the reads of a host function by its buffer of 255 bytes. The search for the
  shortest digits of a float goes down from \<open>10 ^ 309\<close>, above
  every float, to \<open>10 ^ -1077\<close>, where every float is exact: 1386 steps.

  \<^bold>\<open>What the properties show.\<close> End to end: \<open>eval\<close> computes the abstract evaluation of the
  snippet over the serial line, the firmware and the C interface, and the firmware is back where
  it was, with no block of memory lost. Firmware: no undefined behaviour and no leak, whatever
  arrives; requests run, damaged and oversized ones answered; an installed program is loaded, and so
  is one that the Python tools pack or send; only intact images are ever loaded, and a checksum never misses
  damage inside of four bytes. Host functions: defined behaviour for every name and argument, nothing done
  by a call that is refused, no pin outside of the chip reaches a driver, those of I2C included, six PWM channels first come first served.
  Memory: the heap of Rust over \<open>malloc\<close> never overlaps, leaks or frees wrongly.
  Formats: round trips, one
  representation per value, bounds on what is decoded and reserved. Transport: resynchronisation
  behind other output, no made-up answers, detection of damage. Session: what is sent, what is
  taken over, with which schema, what stays after an error, no panics, an invariant. C interface: defined behaviour
  within the documented contract, ownership of the output buffer, values unchanged in both
  directions. Programs: lines put together, termination with the input.
  A few properties show what the code does not do: limits that the encoder lacks, indices of locals
  and passwords that are cut, down to a network that is joined without protection.

  \<^bold>\<open>Parameters.\<close> The \<open>vm\<close> and \<open>pd_vm_nostd\<close> crates (compiler, program encoding,
  machine), the serial port of the host, and the libraries of Arduino and ESP-IDF (serial port,
  flash, SD card, drivers of pins, buses and radios, \<open>malloc\<close>) are not part
  of the sources under verification: they are records of functions, and what a property expects
  of them is a named hypothesis of it. Of the machine: \<open>allocator_ok\<close>, \<open>keeps_slots\<close>,
  \<open>machine_sound\<close>, \<open>set_local_ok\<close>, \<open>keeps_distinct\<close>, \<open>makes_progress\<close>. Of the compiler: slots below
  the number of locals, and \<open>slot_typed\<close>, that it is right about the values of a slot. Of a callback:
  \<open>callback_ok\<close>, which the host functions of the firmware satisfy when their two static buffers have
  addresses (\<open>statics_placed\<close>). Of the board: \<open>serial_port\<close>, \<open>clocked_board\<close> (time passes),
  \<open>nor_flash\<close>, \<open>heap_ok\<close>, \<open>malloc_ok\<close> (which also says that a pointer is not larger than the largest
  alignment). Of the platform and the console: \<open>platform_ok\<close>,
  \<open>input_ends\<close>.

  \<^bold>\<open>Not modelled.\<close> The programs of the other boards (\<open>esp32s31/main/main.cpp\<close>, the Arduino
  simulator), which run one embedded program without the REPL; build scripts, and
  of the Python tools everything but the two formats; \<open>lib.rs\<close> (re-exports only); and the tests. Of \<open>firmware/main.cpp\<close> the set-up
  of the serial port and the idle loop are left out. The memory model keeps the places of
  \<open>RustScriptBuffer\<close> apart from bytes, and does not model alignment (but for \<open>Platform\<close>). What
  \<open>rustscript_free_image\<close> resets in an image is not read afterwards, so the model only frees its
  block. What a script prints while it runs on the host is part of the state of the machine.
\<close>

section \<open>The session and its transport\<close>

text \<open>What the session takes over from a response, without bytes.\<close>

definition absorb_response :: "('c, 's) request \<Rightarrow> 's session \<Rightarrow> i32 \<Rightarrow> repl_response
    \<Rightarrow> (('e client_error + repl_value option) \<times> 's session) outcome" where
  "absorb_response rq ls status response =
     (if length (locals response) \<noteq> local_count (req_program rq) then
        Returned (Inl (InvalidLocalCount (local_count (req_program rq)) (length (locals response))), ls)
      else (case sync (req_program rq) (req_bindings rq) (if status = 0 then req_moved rq else {}) response of
          Panicked \<Rightarrow> Panicked
        | Returned (Inl e) \<Rightarrow> Returned (Inl e, ls)
        | Returned (Inr ls') \<Rightarrow>
            Returned (if status \<noteq> 0 then Inl (Device status) else Inr (result response), ls')))"

text \<open>Whatever carries the request: when its answer is the encoding of a response, the session takes over
  this response.\<close>

lemma eval_answered:
  fixes V :: "('c, 's, 'e) repl_vm"
  assumes "prepare V source ls = (Returned (Inr rq) :: ('e client_error + ('c, 's) request) outcome)"
    and "exec (req_code rq) (req_state rq) t = (Inr (status, enc), t')" and "target_ok T"
    and "encode_repl_response response = Inr enc" and "wire_response response"
  shows "eval T V exec source ls t =
    (case absorb_response rq ls status response :: (('e client_error + _) \<times> 's session) outcome of
       Panicked \<Rightarrow> Panicked | Returned (r, ls') \<Rightarrow> Returned (r, ls', t'))"
proof -
  have "decode_repl_response T enc = Inr response"
    by (rule payload_codec.dec_enc [OF response_codec [OF assms(3)] assms(5,4)])
  moreover have "enc \<noteq> []" by (rule encoded_response_nonempty [OF assms(4)])
  ultimately have "absorb T rq ls status enc
      = (absorb_response rq ls status response :: (('e client_error + _) \<times> 's session) outcome)"
    by (simp add: absorb_def absorb_response_def)
  then show ?thesis using assms(1,2) by (simp add: eval_def)
qed

lemma encoded_fits: "encode_repl_response response = Inr enc \<Longrightarrow> length enc \<le> MAX_FRAME_BYTES"
  by (auto simp: encode_repl_response_iff MAX_WIRE_BYTES_def MAX_FRAME_BYTES_def)

text \<open>C10. Over the serial transport, behind whatever the device prints first (at most
  64 KiB without a header of this request), \<open>eval\<close> takes over exactly the response that the device
  encoded in the frame, and what the device printed is left as its output.\<close>

theorem eval_over_serial_line:
  fixes V :: "('c, 's, 'e) repl_vm"
  assumes "byte_stream ops incoming outgoing reply" and "target_ok T"
    and "prepare V source ls = (Returned (Inr rq) :: ('e client_error + ('c, 's) request) outcome)"
    and "length (req_code rq) + length (req_state rq) \<le> MAX_FRAME_BYTES"
    and "encode_repl_response response = Inr enc" and "wire_response response"
    and "arriving ops incoming (req_code rq) (req_state rq) t
      = noise @ response_frame (next_request_id t) reserved_bytes status enc @ tail"
    and "length reserved_bytes = 2"
    and "clean_noise (next_request_id t) noise
      (response_frame (next_request_id t) reserved_bytes status enc @ tail)"
  shows "\<exists>t'. device_output t' = noise \<and> incoming (io t') = tail \<and>
    eval T V (execute ops) source ls t =
      (case absorb_response rq ls status response :: (('e client_error + _) \<times> 's session) outcome of
         Panicked \<Rightarrow> Panicked | Returned (r, ls') \<Rightarrow> Returned (r, ls', t'))"
proof -
  from byte_stream.execute_accepts [OF assms(1,4,7,8) encoded_fits [OF assms(5)] assms(9)]
  obtain t' where t': "execute ops (req_code rq) (req_state rq) t = (Inr (status, enc), t')"
      "device_output t' = noise" "incoming (io t') = tail" by blast
  from eval_answered [where exec = "execute ops", OF assms(3) t'(1) assms(2,5,6)] t'(2,3) show ?thesis by blast
qed

section \<open>The whole REPL\<close>

text \<open>The request of a transport on its way: the world of the board when the firmware has read it and
  calls the C interface.\<close>

definition request_call :: "('p, 'v, 'c, 'x, 'st, 'a sim_scheme) firmware \<Rightarrow> u32 \<Rightarrow> u8 list \<Rightarrow> u8 list
    \<Rightarrow> 'a sim_scheme world \<Rightarrow> 'a sim_scheme world" where
  "request_call F rid prog state w = emptied (fw_output F)
     (request_world F prog state (polled F (delivered (request_frame rid prog state) w)))"

lemma delivered_twice [simp]: "delivered bs (delivered cs w) = delivered (cs @ bs) w"
  by (simp add: delivered_def)

lemma delivered_sel [simp]:
  "mem (delivered bs w) = mem w" "sim_rx (user (delivered bs w)) = sim_rx (user w) @ bs"
  "mem (collected w) = mem w" "sim_rx (user (collected w)) = sim_rx (user w)"
  by (simp_all add: delivered_def collected_def)

lemma send_over_line:
  "send_request (line_ops F) h prog state s = line_flush F (s\<lparr>line_world := delivered (h @ prog @ state) (line_world s),
     line_sent := line_sent s @ h @ prog @ state\<rparr>)"
  by (simp add: send_request_def line_ops_def line_write_all_def)

lemma served_once:
  assumes "sim_rx (user w) \<noteq> []" and "repl_round F w = Done w'" and "sim_rx (user w') = []"
  shows "serve_pending F w = Some w'"
  using assms by (subst serve_pending.simps) (simp add: serve_pending.simps [of F w'])

lemma execute_on_board:
  assumes "sim_rx (user (line_world (io t))) = []" and "length prog + length state \<le> MAX_FRAME_BYTES"
    and "repl_round F (delivered (request_frame (next_request_id t) prog state) (line_world (io t))) = Done w'"
    and "sim_rx (user w') = []"
    and "line_incoming (io t) @ sim_tx (user w') = noise @ response_frame (next_request_id t) [0, 0] status enc"
    and "length enc \<le> MAX_FRAME_BYTES"
    and "clean_noise (next_request_id t) noise (response_frame (next_request_id t) [0, 0] status enc)"
  obtains t' where "execute (line_ops F) prog state t = (Inr (status, enc), t')" "device_output t' = noise"
    "line_incoming (io t') = []" "line_world (io t') = collected w'"
proof -
  let ?rid = "next_request_id t" and ?w = "line_world (io t)"
  have "request_frame ?rid prog state \<noteq> []" using R_byte by (simp add: request_frame_def request_header_def)
  then have pending: "serve_pending F (delivered (request_frame ?rid prog state) ?w) = Some w'"
    using assms(1,3,4) by (intro served_once) simp_all
  then have sent: "snd (send_request (line_ops F) (request_header ?rid prog state) prog state (io t))
      = (io t)\<lparr>line_world := collected w', line_sent := line_sent (io t) @ request_frame ?rid prog state,
          line_incoming := line_incoming (io t) @ sim_tx (user w')\<rparr>"
    by (simp add: send_over_line line_flush_def request_frame_def)
  have "arriving (line_ops F) line_incoming prog state t = noise @ response_frame ?rid [0, 0] status enc @ []"
    unfolding arriving_def sent by (simp add: assms(5))
  from wired.execute_accepts [OF assms(2) this _ assms(6)] assms(7)
  obtain t' where t': "execute (line_ops F) prog state t = (Inr (status, enc), t')" "device_output t' = noise"
      "line_incoming (io t') = []" by auto
  moreover have "line_world (io t') = collected w'"
    using execute_keeps [of line_world "line_ops F" prog state t] assms(2) t'(1) sent
    by (simp add: line_ops_def line_read_exact_def)
  ultimately show thesis by (rule that)
qed

text \<open>C1. The whole REPL, from the session on the host over the serial line, the firmware and the C interface to
  the virtual machine on the board, computes what the abstract evaluation says. When the snippet compiles to
  a request that fits on the board, and its program evaluates from the values of the session to a response,
  \<open>eval\<close> takes over exactly this response, with its status; what the program printed is left as the output of
  the device, the firmware waits for the next request, and every block it allocated is free again.\<close>

theorem eval_end_to_end:
  fixes V :: "('c, 's, 'e) repl_vm" and F :: "('p, 'v, 'd, 'x, 'st, 'a sim_scheme) firmware"
  assumes "trusted_board F sim_rx sim_tx" and "target_ok (machine (fw_device F))" and "target_ok T"
    and "prepare V source ls = (Returned (Inr rq) :: ('e client_error + ('c, 's) request) outcome)"
    and "sim_rx (user (line_world (io t))) = []" and "slots (mem (line_world (io t))) (fw_output F) = None"
    and "request_fits F (req_code rq) (req_state rq) (polled F
      (delivered (request_frame (next_request_id t) (req_code rq) (req_state rq)) (line_world (io t))))"
    and "decode_program (fw_device F) (req_code rq) = Inr p"
    and "encode_repl_state vals = Inr (req_state rq)" and "wire_values vals"
    and "evaluates (fw_device F) (Some (fw_dispatch F)) REPL_FUEL p vals
      (request_call F (next_request_id t) (req_code rq) (req_state rq) (line_world (io t))) status response w1"
    and "sim_rx (user w1) = []"
    and "encode_repl_response response = Inr enc" and "wire_response response"
    and "vec_block (fw_device F) (mem w1) enc \<noteq> None"
    and "clean_noise (next_request_id t) (line_incoming (io t) @ sim_tx (user w1))
      (response_frame (next_request_id t) [0, 0] status enc)"
  shows "\<exists>t'. device_output t' = line_incoming (io t) @ sim_tx (user w1) \<and> line_incoming (io t') = []
    \<and> sim_rx (user (line_world (io t'))) = [] \<and> same_heap (mem (line_world (io t))) (mem (line_world (io t')))
    \<and> eval T V (execute (line_ops F)) source ls t =
      (case absorb_response rq ls status response :: (('e client_error + _) \<times> 's session) outcome of
         Panicked \<Rightarrow> Panicked | Returned (r, ls') \<Rightarrow> Returned (r, ls', t'))"
proof -
  let ?rid = "next_request_id t" and ?w = "line_world (io t)"
  let ?wd = "delivered (request_frame ?rid (req_code rq) (req_state rq)) ?w"
  have "sim_rx (user ?wd) = request_frame ?rid (req_code rq) (req_state rq) @ []" "slots (mem ?wd) (fw_output F) = None"
    using assms(5,6) by simp_all
  note arrived = this
  obtain w' where w': "repl_round F ?wd = Done w'" "sim_rx (user w') = sim_rx (user w1)"
      "sim_tx (user w') = sim_tx (user w1) @ response_frame ?rid [0, 0] status enc" "same_heap (mem ?wd) (mem w')"
    using trusted_board.request_evaluated [OF assms(1,2) arrived(1) assms(7) arrived(2) assms(8-10)
        assms(11) [unfolded request_call_def] assms(13,15)] by blast
  have fits: "length (req_code rq) + length (req_state rq) \<le> MAX_FRAME_BYTES"
    using assms(7) by (simp add: request_fits_def)
  have idle: "sim_rx (user w') = []" using w'(2) assms(12) by simp
  have got: "line_incoming (io t) @ sim_tx (user w')
      = (line_incoming (io t) @ sim_tx (user w1)) @ response_frame ?rid [0, 0] status enc" by (simp add: w'(3))
  obtain t' where t': "execute (line_ops F) (req_code rq) (req_state rq) t = (Inr (status, enc), t')"
      "device_output t' = line_incoming (io t) @ sim_tx (user w1)" "line_incoming (io t') = []"
      "line_world (io t') = collected w'"
    by (rule execute_on_board [OF assms(5) fits w'(1) idle got encoded_fits [OF assms(13)] assms(16)])
  from eval_answered [where exec = "execute (line_ops F)", OF assms(4) t'(1) assms(3,13,14)] t'(2-4) w'(4) idle
  show ?thesis by (intro exI [of _ t']) simp
qed

section \<open>An instance\<close>

definition true_response :: repl_response where
  "true_response = \<lparr>locals = [ReplBool True], result = Some (ReplBool True)\<rparr>"

lemma true_codecs:
  "encode_repl_state [ReplBool True] = Inr (state_bytes [ReplBool True])" "wire_values [ReplBool True]"
  "encode_repl_response true_response = Inr (response_bytes true_response)" "wire_response true_response"
  by (simp_all add: encode_repl_state_iff encode_repl_response_iff state_bytes_def response_bytes_def
      response_values_def true_response_def MAX_NESTING_def MAX_WIRE_BYTES_def wire_values_def
      wire_response_def total_nodes_def MAX_VALUE_NODES_def)

lemma true_sizes: "length (state_bytes [ReplBool True]) = 10" "length (response_bytes true_response) = 13"
  by (simp_all add: state_bytes_def response_bytes_def true_response_def)

theorem eval_over_serial_line_witness:
  "\<exists>t'. device_output t' = stale_stream \<and> unread (io t') = [77] \<and>
    eval host_target demo_vm (execute cursor_ops) ''x'' demo_session
        (transport_new (cursor_new (stale_stream @ response_frame 1 [0, 0] 0 (response_bytes true_response) @ [77]))) =
      (case absorb_response demo_request demo_session 0 true_response
          :: ((unit client_error + _) \<times> unit session) outcome of
         Panicked \<Rightarrow> Panicked | Returned (r, ls') \<Rightarrow> Returned (r, ls', t'))"
  by (rule eval_over_serial_line [OF cursor.byte_stream_axioms, where enc = "response_bytes true_response"
        and reserved_bytes = "[0, 0]"])
    (use true_codecs demo_prepare in \<open>simp_all add: demo_request_def state_bytes_def MAX_FRAME_BYTES_def
       transport_new_def cursor_new_def stale_clean\<close>)

text \<open>A host that is connected to the board in memory, with nothing on the line.\<close>

definition idle_line :: "unit line transport" where
  "idle_line = transport_new \<lparr>line_world = sim_idle [], line_sent = [], line_incoming = []\<rparr>"

lemma idle_line_sel [simp]:
  "line_world (io idle_line) = sim_idle []" "line_incoming (io idle_line) = []" "next_request_id idle_line = 1"
  by (simp_all add: idle_line_def transport_new_def)

lemma sim_request_call:
  assumes "mem w = empty_memory" and "sim_rx (user w) = []" and "prog \<noteq> []" and "state \<noteq> []"
    and "length prog + length state \<le> MAX_FRAME_BYTES"
  shows "sim_rx (user (request_call sim_firmware rid prog state w)) = []"
    and "sim_tx (user (request_call sim_firmware rid prog state w)) = sim_tx (user w)"
proof -
  let ?w = "delivered (request_frame rid prog state) w"
  have "sim_rx (user ?w) = request_header rid prog state @ prog @ state @ []" by (simp add: assms(2) request_frame_def)
  note frame = sim.frame_received(2,3) [OF this refl refl sim_fits [OF _ assms(3-5)]]
  show "sim_rx (user (request_call sim_firmware rid prog state w)) = []"
    "sim_tx (user (request_call sim_firmware rid prog state w)) = sim_tx (user w)"
    using frame assms(1) by (simp_all add: request_call_def) (simp add: delivered_def)
qed

text \<open>A compiler on the host that turns the snippet into a call of \<open>mcu::millis\<close>.\<close>

definition calling_vm :: "(unit, unit, unit) repl_vm" where
  "calling_vm = demo_vm\<lparr>encode_program := \<lambda>P. Inr clock_program\<rparr>"

definition calling_request :: "(unit, unit) request" where
  "calling_request = demo_request\<lparr>req_code := clock_program\<rparr>"

lemma calling_prepare: "prepare calling_vm ''x'' demo_session = Returned (Inr calling_request)"
proof -
  have "encode_repl_state [ReplBool True] = Inr (state_bytes [ReplBool True])" by (rule true_codecs(1))
  moreover have "compile_snippet calling_vm ''x'' ls = Inr demo_compiled" for ls
    by (simp add: compile_snippet_def demo_trim calling_vm_def demo_vm_def)
  moreover have "instructions calling_vm = demo_isa" "with_local_count calling_vm P n = P\<lparr>local_count := n\<rparr>"
    "encode_program calling_vm P = Inr clock_program" for P n
    by (simp_all add: calling_vm_def)
  ultimately show ?thesis
    by (simp add: prepare_def demo_moves Let_def demo_session_def step_slot slot_no_def calling_request_def demo_request_def)
qed

theorem eval_end_to_end_witness:
  "\<exists>t'. device_output t' = line_incoming (io idle_line)
      @ sim_tx (user (request_call sim_firmware 1 clock_program (state_bytes [ReplBool True]) (sim_idle [])))
    \<and> line_incoming (io t') = [] \<and> sim_rx (user (line_world (io t'))) = []
    \<and> same_heap (mem (line_world (io idle_line))) (mem (line_world (io t')))
    \<and> eval host_target calling_vm (execute (line_ops sim_firmware)) ''x'' demo_session idle_line =
      (case absorb_response calling_request demo_session 0 zero_response
          :: ((unit client_error + _) \<times> unit session) outcome of
         Panicked \<Rightarrow> Panicked | Returned (r, ls') \<Rightarrow> Returned (r, ls', t'))"
proof (rule eval_end_to_end [OF sim.trusted_board_axioms, where p = "''mcu::millis''" and vals = "[ReplBool True]"
      and enc = "response_bytes zero_response"])
  note small = MAX_FRAME_BYTES_def calling_request_def demo_request_def
  let ?st = "state_bytes [ReplBool True]"
  let ?call = "request_call sim_firmware 1 clock_program ?st (sim_idle [])"
  let ?w = "delivered (request_frame (next_request_id idle_line) (req_code calling_request) (req_state calling_request)) (line_world (io idle_line))"
  note idle = sim_request_call [of "sim_idle []" clock_program ?st 1]
  have ne: "?st \<noteq> []" using true_sizes by auto
  show "request_fits sim_firmware (req_code calling_request) (req_state calling_request) (polled sim_firmware ?w)"
    using ne by (simp add: sim_fits small true_sizes)
  have "clock_response ?call = zero_response"
    by (simp add: clock_response_def zero_response_def request_call_def request_clock Let_def emptied_def)
      (simp add: delivered_def sim_idle_def)
  then show "evaluates (fw_device sim_firmware) (Some (fw_dispatch sim_firmware)) REPL_FUEL ''mcu::millis'' [ReplBool True]
      (request_call sim_firmware (next_request_id idle_line) (req_code calling_request) (req_state calling_request) (line_world (io idle_line)))
      0 zero_response ?call"
    using clock_evaluates [of "ReplBool True" _ REPL_FUEL ?call] by (simp add: calling_request_def demo_request_def)
  show "sim_rx (user ?call) = []" using idle ne by (simp add: small true_sizes)
  show "vec_block (fw_device sim_firmware) (mem ?call) (response_bytes zero_response) \<noteq> None"
    using sim_output_block [of "delivered (request_frame 1 clock_program ?st) (sim_idle [])" clock_program
        "response_bytes zero_response" ?st]
    by (simp add: request_call_def) (simp add: response_bytes_def zero_response_def)
  show "clean_noise (next_request_id idle_line) (line_incoming (io idle_line) @ sim_tx (user ?call))
      (response_frame (next_request_id idle_line) [0, 0] 0 (response_bytes zero_response))"
    using idle ne by (simp add: small true_sizes clean_noise_def)
qed (use true_codecs zero_codecs calling_prepare in \<open>simp_all add: calling_request_def demo_request_def calling_machine_def\<close>)

end
